(* ===== verification/Errno.thy ===== *)
theory Errno
  imports Main
begin

text \<open>
  The kernel's error numbers (\<^verbatim>\<open>src/crates/shared/src/lib.rs\<close>, enum \<open>Errno\<close>)
  and the conversion from the raw number of the syscall ABI.  Every fallible operation
  of the development returns a value of the sum type \<open>errno + 'a\<close>; the two
  abbreviations read it as Rust's \<open>Result\<close>.
\<close>

section \<open>Error numbers\<close>

datatype (plugins only: code) errno =
    EPERM | ENOENT | ESRCH | EINTR | EIO | ENXIO
  | E2BIG | EBADF | ECHILD | EAGAIN | ENOMEM | EACCES
  | EFAULT | EBUSY | EEXIST | EXDEV | ENODEV | ENOTDIR
  | EISDIR | EINVAL | ENFILE | EMFILE | ENOTTY | EFBIG
  | ENOSPC | ESPIPE | EROFS | EMLINK | EPIPE | ERANGE
  | EDEADLK | ENAMETOOLONG | ENOLCK | ENOSYS | ENOTEMPTY | ELOOP
  | ENOMSG | EIDRM | ENODATA | EOVERFLOW | ENOTSOCK | EDESTADDRREQ
  | EMSGSIZE | EPROTOTYPE | ENOPROTOOPT | EPROTONOSUPPORT | EOPNOTSUPP | EAFNOSUPPORT
  | EADDRINUSE | EADDRNOTAVAIL | ENETUNREACH | ECONNABORTED | ECONNRESET | ECONNREFUSED
  | EISCONN | ENOTCONN | ESHUTDOWN | ETIMEDOUT | EALREADY | EINPROGRESS

primrec errno_code :: "errno \<Rightarrow> nat" where
  "errno_code EPERM = 1"
| "errno_code ENOENT = 2"
| "errno_code ESRCH = 3"
| "errno_code EINTR = 4"
| "errno_code EIO = 5"
| "errno_code ENXIO = 6"
| "errno_code E2BIG = 7"
| "errno_code EBADF = 9"
| "errno_code ECHILD = 10"
| "errno_code EAGAIN = 11"
| "errno_code ENOMEM = 12"
| "errno_code EACCES = 13"
| "errno_code EFAULT = 14"
| "errno_code EBUSY = 16"
| "errno_code EEXIST = 17"
| "errno_code EXDEV = 18"
| "errno_code ENODEV = 19"
| "errno_code ENOTDIR = 20"
| "errno_code EISDIR = 21"
| "errno_code EINVAL = 22"
| "errno_code ENFILE = 23"
| "errno_code EMFILE = 24"
| "errno_code ENOTTY = 25"
| "errno_code EFBIG = 27"
| "errno_code ENOSPC = 28"
| "errno_code ESPIPE = 29"
| "errno_code EROFS = 30"
| "errno_code EMLINK = 31"
| "errno_code EPIPE = 32"
| "errno_code ERANGE = 34"
| "errno_code EDEADLK = 35"
| "errno_code ENAMETOOLONG = 36"
| "errno_code ENOLCK = 37"
| "errno_code ENOSYS = 38"
| "errno_code ENOTEMPTY = 39"
| "errno_code ELOOP = 40"
| "errno_code ENOMSG = 42"
| "errno_code EIDRM = 43"
| "errno_code ENODATA = 61"
| "errno_code EOVERFLOW = 75"
| "errno_code ENOTSOCK = 88"
| "errno_code EDESTADDRREQ = 89"
| "errno_code EMSGSIZE = 90"
| "errno_code EPROTOTYPE = 91"
| "errno_code ENOPROTOOPT = 92"
| "errno_code EPROTONOSUPPORT = 93"
| "errno_code EOPNOTSUPP = 95"
| "errno_code EAFNOSUPPORT = 97"
| "errno_code EADDRINUSE = 98"
| "errno_code EADDRNOTAVAIL = 99"
| "errno_code ENETUNREACH = 101"
| "errno_code ECONNABORTED = 103"
| "errno_code ECONNRESET = 104"
| "errno_code ECONNREFUSED = 111"
| "errno_code EISCONN = 106"
| "errno_code ENOTCONN = 107"
| "errno_code ESHUTDOWN = 108"
| "errno_code ETIMEDOUT = 110"
| "errno_code EALREADY = 114"
| "errno_code EINPROGRESS = 115"

definition errno_table :: "(nat \<times> errno) list" where
  "errno_table = [
     (1, EPERM), (2, ENOENT), (3, ESRCH), (4, EINTR), (5, EIO),
     (6, ENXIO), (7, E2BIG), (9, EBADF), (10, ECHILD), (11, EAGAIN),
     (12, ENOMEM), (13, EACCES), (14, EFAULT), (16, EBUSY), (17, EEXIST),
     (18, EXDEV), (19, ENODEV), (20, ENOTDIR), (21, EISDIR), (22, EINVAL),
     (23, ENFILE), (24, EMFILE), (25, ENOTTY), (27, EFBIG), (28, ENOSPC),
     (29, ESPIPE), (30, EROFS), (31, EMLINK), (32, EPIPE), (34, ERANGE),
     (35, EDEADLK), (36, ENAMETOOLONG), (37, ENOLCK), (38, ENOSYS), (39, ENOTEMPTY),
     (40, ELOOP), (42, ENOMSG), (43, EIDRM), (61, ENODATA), (75, EOVERFLOW),
     (88, ENOTSOCK), (89, EDESTADDRREQ), (90, EMSGSIZE), (91, EPROTOTYPE), (92, ENOPROTOOPT),
     (93, EPROTONOSUPPORT), (95, EOPNOTSUPP), (97, EAFNOSUPPORT), (98, EADDRINUSE), (99, EADDRNOTAVAIL),
     (101, ENETUNREACH), (103, ECONNABORTED), (104, ECONNRESET), (111, ECONNREFUSED), (106, EISCONN),
     (107, ENOTCONN), (108, ESHUTDOWN), (110, ETIMEDOUT), (114, EALREADY), (115, EINPROGRESS)]"

text \<open>\<open>Errno::from_u32\<close>: the match on the raw value; every other value is \<open>None\<close>.\<close>

definition errno_from_u32 :: "nat \<Rightarrow> errno option" where
  "errno_from_u32 v = map_of errno_table v"

type_synonym 'a result = "errno + 'a"

abbreviation Ok :: "'a \<Rightarrow> 'a result" where
  "Ok x \<equiv> Inr x"

abbreviation Err :: "errno \<Rightarrow> 'a result" where
  "Err e \<equiv> Inl e"

text \<open>\<open>Option::ok_or\<close>.\<close>

definition ok_or :: "'a option \<Rightarrow> errno \<Rightarrow> 'a result" where
  "ok_or v e = (case v of None \<Rightarrow> Err e | Some x \<Rightarrow> Ok x)"

lemma ok_or_simps [simp]: "ok_or None e = Err e" "ok_or (Some x) e = Ok x"
  by (simp_all add: ok_or_def)

section \<open>The conversion is exact\<close>

lemma errno_table_codes: "\<forall>p \<in> set errno_table. errno_code (snd p) = fst p"
  unfolding errno_table_def by simp

lemma errno_from_u32_sound: "errno_from_u32 v = Some e \<Longrightarrow> errno_code e = v"
  unfolding errno_from_u32_def using errno_table_codes
  by (fastforce dest: map_of_SomeD)

lemma errno_from_u32_complete: "errno_from_u32 (errno_code e) = Some e"
  unfolding errno_from_u32_def errno_table_def by (cases e) simp_all

text \<open>The raw number of an error and the error determine each other:
  \<open>from_u32\<close> accepts exactly the discriminants of the enum and returns the variant with
  that discriminant.\<close>

theorem errno_roundtrip: "errno_from_u32 v = Some e \<longleftrightarrow> errno_code e = v"
  using errno_from_u32_sound errno_from_u32_complete by auto

end
