(* ===== verification/Kandelo_Prelude.thy ===== *)
theory Kandelo_Prelude
  imports Errno "HOL-Library.Word" "HOL-Library.Sublist"
begin

unbundle bit_operations_syntax

text \<open>
  What the component theories share: the machine integers of the wasm32 build, Rust's
  checked and saturating arithmetic, little-endian encodings, sparse slot vectors
  (\<open>Vec<Option<T>>\<close>) and vectors searched by key.
\<close>

named_theorems kernel_simps \<open>equations of the kernel operations used by the component proofs\<close>
named_theorems slot_simps \<open>lookups in sparse slot vectors after an update\<close>

section \<open>Machine integers\<close>

text \<open>
  The kernel is built for \<open>wasm32-unknown-unknown\<close>, so \<open>usize\<close> has 32 bits.  Sizes and
  indices are natural numbers with the overflow behaviour written out; flag and signal
  masks, on which the code works bitwise, are words.
\<close>

type_synonym u8 = "8 word"
type_synonym u16 = "16 word"
type_synonym u32 = "32 word"
type_synonym u64 = "64 word"

definition USIZE_MAX :: nat where
  "USIZE_MAX = 2 ^ 32 - 1"

definition U32_MAX :: nat where
  "U32_MAX = 2 ^ 32 - 1"

definition U64_MAX :: nat where
  "U64_MAX = 2 ^ 64 - 1"

definition I64_MAX :: int where
  "I64_MAX = 2 ^ 63 - 1"

definition I64_MIN :: int where
  "I64_MIN = - (2 ^ 63)"

text \<open>\<open>checked_add\<close> and \<open>saturating_add\<close> on an unsigned type with maximum \<open>lim\<close>.\<close>

definition checked_add_to :: "nat \<Rightarrow> nat \<Rightarrow> nat \<Rightarrow> nat option" where
  "checked_add_to lim a b = (if a + b \<le> lim then Some (a + b) else None)"

definition saturating_add_to :: "nat \<Rightarrow> nat \<Rightarrow> nat \<Rightarrow> nat" where
  "saturating_add_to lim a b = min (a + b) lim"

abbreviation checked_add_usize :: "nat \<Rightarrow> nat \<Rightarrow> nat option" where
  "checked_add_usize \<equiv> checked_add_to USIZE_MAX"

abbreviation saturating_add_usize :: "nat \<Rightarrow> nat \<Rightarrow> nat" where
  "saturating_add_usize \<equiv> saturating_add_to USIZE_MAX"

definition checked_add_i64 :: "int \<Rightarrow> int \<Rightarrow> int option" where
  "checked_add_i64 a b =
     (if I64_MIN \<le> a + b \<and> a + b \<le> I64_MAX then Some (a + b) else None)"

text \<open>The cast \<open>as i32\<close> of a \<open>usize\<close>: the low 32 bits read as two's complement.\<close>

definition as_i32 :: "nat \<Rightarrow> int" where
  "as_i32 n = (let m = n mod 2 ^ 32 in if m < 2 ^ 31 then int m else int m - 2 ^ 32)"

lemma as_i32_small [simp]: "n < 2 ^ 31 \<Longrightarrow> as_i32 n = int n"
  by (simp add: as_i32_def Let_def)

lemma checked_add_to_Some [simp]:
  "checked_add_to lim a b = Some c \<longleftrightarrow> c = a + b \<and> a + b \<le> lim"
  by (auto simp: checked_add_to_def)

lemma checked_add_to_None [simp]: "checked_add_to lim a b = None \<longleftrightarrow> lim < a + b"
  by (auto simp: checked_add_to_def)

lemma saturating_add_to_fits: "a + b \<le> lim \<Longrightarrow> saturating_add_to lim a b = a + b"
  by (simp add: saturating_add_to_def)

subsection \<open>Pages\<close>

text \<open>
  \<open>v & !0xFFFF\<close> clears the low sixteen bits: it rounds down to a 64 KiB wasm page.
\<close>

definition page_down :: "nat \<Rightarrow> nat" where
  "page_down v = v div 65536 * 65536"

lemma page_down_le: "page_down v \<le> v"
  by (simp add: page_down_def)

lemma page_down_dvd [simp]: "65536 dvd page_down v"
  by (simp add: page_down_def)

lemma page_down_word: "unat ((w :: u32) AND NOT 0xFFFF) = page_down (unat w)"
proof -
  have "w AND NOT (mask 16) = push_bit 16 (drop_bit 16 w)"
    by (rule bit_word_eqI) (auto simp: bit_simps)
  moreover have "unat (push_bit 16 (drop_bit 16 w)) = page_down (unat w)"
  proof -
    have "unat w div 65536 * 65536 \<le> unat w" by simp
    also have "unat w < 2 ^ 32" using unsigned_less [of w] by simp
    finally have "unat w div 65536 * 65536 < 2 ^ 32" by linarith
    then show ?thesis
      by (simp add: unsigned_push_bit_eq unsigned_drop_bit_eq page_down_def
          push_bit_eq_mult drop_bit_eq_div take_bit_eq_mod unat_word_ariths unat_div)
  qed
  ultimately show ?thesis by (simp add: mask_eq_exp_minus_1)
qed

lemma page_round_up:
  assumes "0 < n"
  shows "n \<le> page_down (n + 65535)" "page_down (n + 65535) < n + 65536"
    "0 < page_down (n + 65535)"
proof -
  have eq: "(n + 65535) div 65536 * 65536 + (n + 65535) mod 65536 = n + 65535"
    by (rule div_mult_mod_eq)
  have lt: "(n + 65535) mod 65536 < 65536" by simp
  from eq lt show "n \<le> page_down (n + 65535)" unfolding page_down_def by linarith
  from eq show "page_down (n + 65535) < n + 65536" unfolding page_down_def by linarith
  from \<open>n \<le> page_down (n + 65535)\<close> assms show "0 < page_down (n + 65535)" by linarith
qed

subsection \<open>Little-endian encoding of \<open>u32\<close>\<close>

definition u32_to_le_bytes :: "u32 \<Rightarrow> u8 list" where
  "u32_to_le_bytes w =
     [ucast w, ucast (drop_bit 8 w), ucast (drop_bit 16 w), ucast (drop_bit 24 w)]"

definition u32_from_le_bytes :: "u8 \<Rightarrow> u8 \<Rightarrow> u8 \<Rightarrow> u8 \<Rightarrow> u32" where
  "u32_from_le_bytes a b c d =
     ucast a OR push_bit 8 (ucast b) OR push_bit 16 (ucast c) OR push_bit 24 (ucast d)"

lemma length_u32_to_le_bytes [simp]: "length (u32_to_le_bytes w) = 4"
  by (simp add: u32_to_le_bytes_def)

lemma u32_le_roundtrip:
  "u32_from_le_bytes (u32_to_le_bytes w ! 0) (u32_to_le_bytes w ! 1)
     (u32_to_le_bytes w ! 2) (u32_to_le_bytes w ! 3) = w"
proof (rule bit_word_eqI)
  fix n assume n: "n < LENGTH(32)"
  consider "n < 8" | "8 \<le> n" "n < 16" | "16 \<le> n" "n < 24" | "24 \<le> n" by linarith
  then show "bit (u32_from_le_bytes (u32_to_le_bytes w ! 0) (u32_to_le_bytes w ! 1)
     (u32_to_le_bytes w ! 2) (u32_to_le_bytes w ! 3)) n = bit w n"
    using n by cases (auto simp: u32_from_le_bytes_def u32_to_le_bytes_def bit_simps)
qed

section \<open>Scanning index ranges\<close>

text \<open>\<open>for i in a..b { if P(i) { return i } }\<close> is \<^term>\<open>List.find P [a..<b]\<close>.\<close>

lemma find_upt_Some:
  "List.find P [a..<b] = Some i \<longleftrightarrow> a \<le> i \<and> i < b \<and> P i \<and> (\<forall>j. a \<le> j \<and> j < i \<longrightarrow> \<not> P j)"
  (is "?L \<longleftrightarrow> ?R")
proof
  assume ?L
  then obtain k where k: "k < b - a" "P (a + k)" "i = a + k" "\<forall>j<k. \<not> P (a + j)"
    by (auto simp: find_Some_iff)
  moreover have "\<not> P j" if "a \<le> j" "j < i" for j
    using k(3) k(4) [rule_format, of "j - a"] that by simp
  ultimately show ?R by simp
next
  assume R: ?R
  then have "i - a < length [a..<b]" "P ([a..<b] ! (i - a))" "i = [a..<b] ! (i - a)"
    "\<forall>j < i - a. \<not> P ([a..<b] ! j)" by auto
  then show ?L unfolding find_Some_iff by blast
qed

lemma find_upt_None: "List.find P [a..<b] = None \<longleftrightarrow> (\<forall>j. a \<le> j \<and> j < b \<longrightarrow> \<not> P j)"
  by (auto simp: find_None_iff)

section \<open>Sparse slot vectors\<close>

text \<open>
  Most kernel tables are a \<open>Vec<Option<T>>\<close>.  \<open>slot xs i\<close> is
  \<open>xs.get(i).and_then(as_ref)\<close>; \<open>first_none\<close> the scan for a free slot;
  \<open>slot_insert\<close> reuses it or appends; \<open>pad_to\<close> pushes \<open>None\<close> up to a length.
\<close>

definition slot :: "'a option list \<Rightarrow> nat \<Rightarrow> 'a option" where
  "slot xs i = (if i < length xs then xs ! i else None)"

definition first_none :: "'a option list \<Rightarrow> nat option" where
  "first_none xs = List.find (\<lambda>i. xs ! i = None) [0..<length xs]"

definition slot_insert :: "'a option list \<Rightarrow> 'a \<Rightarrow> 'a option list \<times> nat" where
  "slot_insert xs v =
     (case first_none xs of
        Some i \<Rightarrow> (xs[i := Some v], i)
      | None \<Rightarrow> (xs @ [Some v], length xs))"

definition pad_to :: "nat \<Rightarrow> 'a option list \<Rightarrow> 'a option list" where
  "pad_to n xs = xs @ replicate (n - length xs) None"

lemma slot_update [slot_simps]:
  "i < length xs \<Longrightarrow> slot (xs[i := v]) = (slot xs)(i := v)"
  by (auto simp: slot_def fun_eq_iff nth_list_update)

lemma slot_clear [slot_simps]: "slot (xs[i := None]) = (slot xs)(i := None)"
  by (auto simp: slot_def fun_eq_iff nth_list_update)

lemma slot_append1 [slot_simps]: "slot (xs @ [v]) = (slot xs)(length xs := v)"
  by (auto simp: slot_def fun_eq_iff nth_append)

lemma slot_pad_to [slot_simps]: "slot (pad_to n xs) = slot xs"
  by (auto simp: slot_def pad_to_def fun_eq_iff nth_append)

lemma length_pad_to [simp]: "length (pad_to n xs) = max n (length xs)"
  by (auto simp: pad_to_def)

lemma slot_Some_less: "slot xs i = Some v \<Longrightarrow> i < length xs"
  by (auto simp: slot_def split: if_splits)

lemma slot_Nil [simp]: "slot [] i = None"
  by (simp add: slot_def)

lemma slot_in_range: "i < length xs \<Longrightarrow> slot xs i = xs ! i"
  by (simp add: slot_def)

lemma slot_out_of_range: "length xs \<le> i \<Longrightarrow> slot xs i = None"
  by (simp add: slot_def)

lemma slot_insert_fresh: "slot_insert xs v = (ys, i) \<Longrightarrow> slot xs i = None"
  by (auto simp: slot_insert_def first_none_def find_upt_Some slot_def split: option.splits)

lemma slot_insert_slot: "slot_insert xs v = (ys, i) \<Longrightarrow> slot ys = (slot xs)(i := Some v)"
  by (auto simp: slot_insert_def first_none_def find_upt_Some slot_simps split: option.splits)

lemma slot_insert_lowest:
  "slot_insert xs v = (ys, i) \<Longrightarrow> j < i \<Longrightarrow> slot xs j \<noteq> None"
  by (auto simp: slot_insert_def first_none_def find_upt_Some find_upt_None slot_def
      split: option.splits)

lemma slot_insert_length:
  "slot_insert xs v = (ys, i) \<Longrightarrow> i < length ys \<and> length xs \<le> length ys \<and> i \<le> length xs"
  by (auto simp: slot_insert_def first_none_def find_upt_Some split: option.splits)

section \<open>Vectors sorted by a key\<close>

text \<open>
  \<open>partition_point\<close> and \<open>binary_search_by_key\<close> on a vector sorted by its keys: the first
  index whose key is not below the wanted one, reported as found when the key there is
  the wanted one (Rust leaves the answer on an unsorted vector unspecified).
\<close>

definition partition_point :: "('a \<Rightarrow> bool) \<Rightarrow> 'a list \<Rightarrow> nat" where
  "partition_point P xs = length (takeWhile P xs)"

definition binary_search_key :: "('k::linorder \<times> 'v) list \<Rightarrow> 'k \<Rightarrow> nat + nat" where
  "binary_search_key xs k =
     (let i = partition_point (\<lambda>p. fst p < k) xs
      in if i < length xs \<and> fst (xs ! i) = k then Inr i else Inl i)"

definition insert_at :: "nat \<Rightarrow> 'a \<Rightarrow> 'a list \<Rightarrow> 'a list" where
  "insert_at i x xs = take i xs @ x # drop i xs"

definition remove_at :: "nat \<Rightarrow> 'a list \<Rightarrow> 'a list" where
  "remove_at i xs = take i xs @ drop (Suc i) xs"

lemma partition_point_le: "partition_point P xs \<le> length xs"
  by (simp add: partition_point_def length_takeWhile_le)

lemma take_partition_point: "take (partition_point P xs) xs = takeWhile P xs"
  unfolding partition_point_def by (metis takeWhile_eq_take)

lemma drop_partition_point: "drop (partition_point P xs) xs = dropWhile P xs"
  unfolding partition_point_def by (metis dropWhile_eq_drop)

lemma nth_partition_point:
  "partition_point P xs < length xs \<Longrightarrow> \<not> P (xs ! partition_point P xs)"
  unfolding partition_point_def by (metis nth_length_takeWhile)

lemma set_insert_at [simp]: "set (insert_at i x xs) = insert x (set xs)"
  by (metis append_take_drop_id insert_at_def list.simps(15) set_append Un_insert_right)

lemma length_insert_at [simp]: "length (insert_at i x xs) = Suc (length xs)"
  by (simp add: insert_at_def)

lemma length_remove_at: "i < length xs \<Longrightarrow> length (remove_at i xs) = length xs - 1"
  by (simp add: remove_at_def)

lemma set_remove_at_subset: "set (remove_at i xs) \<subseteq> set xs"
  by (auto simp: remove_at_def dest: in_set_takeD in_set_dropD)

end
