(* ===== verification/Kernel_Interfaces.thy ===== *)
theory Kernel_Interfaces
  imports Kandelo_Prelude
begin

text \<open>
  The contracts several kernel tables share, stated once.  \<open>slot_store\<close> is a table that
  hands out the index of a slot for a new object; \<open>ref_counter\<close> is a table of reference
  counts that reports the release of the last reference; \<open>fifo_queue\<close> is a
  first-in first-out buffer.  The client lemmas proved here are about whole
  sequences of operations; each provider interprets the locale in its own theory.
\<close>

section \<open>Stores that hand out slot indices\<close>

locale slot_store =
  fixes lookup :: "'t \<Rightarrow> nat \<Rightarrow> 'v option"
    and insert_new :: "'t \<Rightarrow> 'v \<Rightarrow> 't \<times> nat"
    and stamp :: "nat \<Rightarrow> 'v \<Rightarrow> 'v"
    and invar :: "'t \<Rightarrow> bool"
  assumes insert_fresh: "invar t \<Longrightarrow> insert_new t v = (t', i) \<Longrightarrow> lookup t i = None"
    and insert_lookup:
      "invar t \<Longrightarrow> insert_new t v = (t', i) \<Longrightarrow> lookup t' = (lookup t)(i \<mapsto> stamp i v)"
    and insert_invar: "invar t \<Longrightarrow> insert_new t v = (t', i) \<Longrightarrow> invar t'"
begin

fun insert_all :: "'t \<Rightarrow> 'v list \<Rightarrow> 't \<times> nat list" where
  "insert_all t [] = (t, [])"
| "insert_all t (v # vs) =
     (let (t', i) = insert_new t v; (t'', ixs) = insert_all t' vs in (t'', i # ixs))"

lemma insert_all_keeps:
  "invar t \<Longrightarrow> insert_all t vs = (t', ixs) \<Longrightarrow> lookup t j = Some w \<Longrightarrow>
     j \<notin> set ixs \<and> lookup t' j = Some w"
proof (induction vs arbitrary: t ixs)
  case Nil
  then show ?case by simp
next
  case (Cons v vs)
  obtain t1 i where ins: "insert_new t v = (t1, i)" by fastforce
  obtain js where rest: "insert_all t1 vs = (t', js)" and is_eq: "ixs = i # js"
    using Cons.prems(2) ins by (auto split: prod.splits)
  have "j \<noteq> i" using insert_fresh [OF Cons.prems(1) ins] Cons.prems(3) by auto
  moreover from this have "lookup t1 j = Some w"
    using insert_lookup [OF Cons.prems(1) ins] Cons.prems(3) by simp
  ultimately show ?case
    using Cons.IH [OF insert_invar [OF Cons.prems(1) ins] rest] is_eq by auto
qed

lemma insert_all_invar: "invar t \<Longrightarrow> insert_all t vs = (t', ixs) \<Longrightarrow> invar t'"
  by (induction vs arbitrary: t ixs) (auto split: prod.splits dest: insert_invar)

text \<open>However many objects are created, their indices are distinct, each index names its
  object, and no object that was there before is disturbed.\<close>

lemma insert_all_no_alias:
  "invar t \<Longrightarrow> insert_all t vs = (t', ixs) \<Longrightarrow>
     length ixs = length vs \<and> distinct ixs \<and>
     (\<forall>k < length vs. lookup t' (ixs ! k) = Some (stamp (ixs ! k) (vs ! k)))"
proof (induction vs arbitrary: t ixs)
  case Nil
  then show ?case by simp
next
  case (Cons v vs)
  obtain t1 i where ins: "insert_new t v = (t1, i)" by fastforce
  obtain js where rest: "insert_all t1 vs = (t', js)" and is_eq: "ixs = i # js"
    using Cons.prems(2) ins by (auto split: prod.splits)
  have inv1: "invar t1" by (rule insert_invar [OF Cons.prems(1) ins])
  have "lookup t1 i = Some (stamp i v)"
    using insert_lookup [OF Cons.prems(1) ins] by simp
  from insert_all_keeps [OF inv1 rest this] Cons.IH [OF inv1 rest] is_eq
  show ?case by (auto simp: nth_Cons less_Suc_eq_0_disj)
qed

end

section \<open>Reference counters\<close>

datatype 'k ref_op = Retain 'k | Release 'k

text \<open>
  \<open>balance lim k n ops\<close> is the number of references to \<open>k\<close> after \<open>ops\<close> when there were
  \<open>n\<close>; \<open>None\<close> when the sequence uses \<open>k\<close> after its last reference is gone or
  exceeds the counter's range.
\<close>

fun balance :: "nat \<Rightarrow> 'k \<Rightarrow> nat \<Rightarrow> 'k ref_op list \<Rightarrow> nat option" where
  "balance lim k n [] = Some n"
| "balance lim k n (Retain j # ops) =
     (if j = k then (if n = 0 \<or> lim \<le> n then None else balance lim k (Suc n) ops)
      else balance lim k n ops)"
| "balance lim k n (Release j # ops) =
     (if j = k then (if n = 0 then None else balance lim k (n - 1) ops)
      else balance lim k n ops)"

lemma balance_zero: "balance lim k 0 ops = Some m \<Longrightarrow> m = 0"
  by (induction lim k "0::nat" ops rule: balance.induct) (auto split: if_splits)

locale ref_counter =
  fixes count :: "'s \<Rightarrow> 'k \<Rightarrow> nat"
    and retain :: "'s \<Rightarrow> 'k \<Rightarrow> 's"
    and release :: "'s \<Rightarrow> 'k \<Rightarrow> 's \<times> bool"
    and invar :: "'s \<Rightarrow> bool"
    and limit :: nat
  assumes retain_count: "invar s \<Longrightarrow> 0 < count s k \<Longrightarrow> count s k < limit \<Longrightarrow>
      count (retain s k) = (count s)(k := Suc (count s k))"
    and retain_invar: "invar s \<Longrightarrow> 0 < count s k \<Longrightarrow> count s k < limit \<Longrightarrow> invar (retain s k)"
    and release_flag: "invar s \<Longrightarrow> 0 < count s k \<Longrightarrow> snd (release s k) \<longleftrightarrow> count s k = 1"
    and release_more: "invar s \<Longrightarrow> 1 < count s k \<Longrightarrow>
      count (fst (release s k)) k = count s k - 1"
    and release_other: "invar s \<Longrightarrow> 0 < count s k \<Longrightarrow> j \<noteq> k \<Longrightarrow>
      count (fst (release s k)) j = count s j"
    and release_invar: "invar s \<Longrightarrow> 0 < count s k \<Longrightarrow> invar (fst (release s k))"
begin

text \<open>Run a sequence; the log lists the keys whose last reference was reported gone.\<close>

fun exec :: "'s \<Rightarrow> 'k ref_op list \<Rightarrow> 's \<times> 'k list" where
  "exec s [] = (s, [])"
| "exec s (Retain k # ops) = exec (retain s k) ops"
| "exec s (Release k # ops) =
     (let (s1, final) = release s k; (s2, log) = exec s1 ops
      in (s2, if final then k # log else log))"

lemma exec_tracks:
  assumes "invar s" and "\<forall>j. 0 < c j \<longrightarrow> count s j = c j"
    and "\<forall>j. balance limit j (c j) ops \<noteq> None" and "exec s ops = (s', log)"
  shows "count_list log j =
      (if 0 < c j \<and> balance limit j (c j) ops = Some 0 then 1 else 0)"
    and "balance limit j (c j) ops = Some m \<Longrightarrow> 0 < m \<Longrightarrow> count s' j = m"
proof (atomize (full), use assms in \<open>induction ops arbitrary: s c log j m\<close>)
  case Nil
  then show ?case by auto
next
  case (Cons op ops)
  show ?case
  proof (cases op)
    case (Retain k)
    have pos: "0 < c k" "c k < limit" "count s k = c k"
      using Cons.prems(2) Cons.prems(3) [rule_format, of k] Retain by (auto split: if_splits)
    let ?c = "c(k := Suc (c k))"
    have inv: "invar (retain s k)" using retain_invar [of s k] Cons.prems(1) pos by simp
    have cnt: "\<forall>j. 0 < ?c j \<longrightarrow> count (retain s k) j = ?c j"
      using retain_count [of s k] Cons.prems(1,2) pos by auto
    have bal: "\<forall>j. balance limit j (?c j) ops = balance limit j (c j) (op # ops)"
      using Retain pos by auto
    have "\<forall>j. balance limit j (?c j) ops \<noteq> None" using bal Cons.prems(3) by simp
    moreover have "exec (retain s k) ops = (s', log)" using Cons.prems(4) Retain by simp
    ultimately show ?thesis
      using Cons.IH [OF inv cnt, of log j m] bal [rule_format, of j] pos
      by (cases "j = k") simp_all
  next
    case (Release k)
    have pos: "0 < c k" "count s k = c k"
      using Cons.prems(2) Cons.prems(3) [rule_format, of k] Release by (auto split: if_splits)
    let ?c = "c(k := c k - 1)" and ?s = "fst (release s k)"
    have inv: "invar ?s" using release_invar [of s k] Cons.prems(1) pos by simp
    have cnt: "\<forall>j. 0 < ?c j \<longrightarrow> count ?s j = ?c j"
      using release_more [of s k] release_other [of s k] Cons.prems(1,2) pos by auto
    have bal: "\<forall>j. balance limit j (?c j) ops = balance limit j (c j) (op # ops)"
      using Release pos by auto
    obtain s2 log1 where run2: "exec ?s ops = (s2, log1)" by fastforce
    have run: "exec ?s ops = (s', log1)"
      and log: "log = (if snd (release s k) then k # log1 else log1)"
      using Cons.prems(4) Release run2 by (auto simp: case_prod_beta Let_def)
    have flag: "snd (release s k) \<longleftrightarrow> c k = 1"
      using release_flag [of s k] Cons.prems(1) pos by simp
    have nn: "\<forall>j. balance limit j (?c j) ops \<noteq> None" using bal Cons.prems(3) by simp
    have zero: "balance limit k 0 ops = Some 0" if "c k = 1"
      using nn [rule_format, of k] that balance_zero [of limit k ops] by fastforce
    note IH = Cons.IH [OF inv cnt nn run, of j m]
    show ?thesis
    proof (cases "j = k")
      case True
      then show ?thesis
        using IH bal [rule_format, of j, symmetric] flag log zero pos
        by (cases "c k = 1") simp_all
    next
      case False
      then show ?thesis
        using IH bal [rule_format, of j] log by (cases "snd (release s k)") simp_all
    qed
  qed
qed

text \<open>The last reference is reported gone exactly once, by the release that brings the
  count to zero, and never while a reference is left.\<close>

lemma exec_last_once:
  assumes "invar s" and "\<forall>j. balance limit j (count s j) ops \<noteq> None"
    and "exec s ops = (s', log)"
  shows "count_list log k =
    (if 0 < count s k \<and> balance limit k (count s k) ops = Some 0 then 1 else 0)"
  using exec_tracks(1) [OF assms(1) _ assms(2,3)] by simp

end

section \<open>First-in first-out buffers\<close>

datatype 'b queue_op = Put "'b list" | Get nat

text \<open>
  \<open>put\<close> accepts a prefix of what it is given and says how long it is; \<open>get\<close> takes up to
  a number of elements off the front.
\<close>

locale fifo_queue =
  fixes content :: "'q \<Rightarrow> 'b list"
    and put :: "'q \<Rightarrow> 'b list \<Rightarrow> 'q \<times> nat"
    and get :: "'q \<Rightarrow> nat \<Rightarrow> 'q \<times> 'b list"
    and invar :: "'q \<Rightarrow> bool"
  assumes put_content: "invar q \<Longrightarrow> put q xs = (q', n) \<Longrightarrow> content q' = content q @ take n xs"
    and put_invar: "invar q \<Longrightarrow> put q xs = (q', n) \<Longrightarrow> invar q'"
    and get_content: "invar q \<Longrightarrow> get q m = (q', out) \<Longrightarrow> out @ content q' = content q"
    and get_length: "invar q \<Longrightarrow> get q m = (q', out) \<Longrightarrow> length out = min m (length (content q))"
    and get_invar: "invar q \<Longrightarrow> get q m = (q', out) \<Longrightarrow> invar q'"
begin

text \<open>A run returns the final queue, everything accepted and everything delivered.\<close>

fun run :: "'q \<Rightarrow> 'b queue_op list \<Rightarrow> 'q \<times> 'b list \<times> 'b list" where
  "run q [] = (q, [], [])"
| "run q (Put xs # ops) =
     (let (q1, n) = put q xs; (q2, acc, del) = run q1 ops in (q2, take n xs @ acc, del))"
| "run q (Get m # ops) =
     (let (q1, out) = get q m; (q2, acc, del) = run q1 ops in (q2, acc, out @ del))"

lemma get_take: "invar q \<Longrightarrow> get q m = (q', out) \<Longrightarrow> out = take m (content q)"
  using get_content [of q m q' out] get_length [of q m q' out]
  by (metis append_eq_conv_conj length_append min.cobounded2 take_all_iff min_def nle_le)

text \<open>Nothing is lost, duplicated or reordered: what was in the queue and what was
  accepted is what was delivered and what is left.\<close>

lemma run_conserves:
  "invar q \<Longrightarrow> run q ops = (q', acc, del) \<Longrightarrow> content q @ acc = del @ content q' \<and> invar q'"
proof (induction ops arbitrary: q acc del)
  case Nil
  then show ?case by simp
next
  case (Cons op ops)
  show ?case
  proof (cases op)
    case (Put xs)
    obtain q1 n where put: "put q xs = (q1, n)" by fastforce
    obtain acc1 where run: "run q1 ops = (q', acc1, del)" and acc: "acc = take n xs @ acc1"
      using Cons.prems(2) Put put by (auto split: prod.splits)
    from Cons.IH [OF put_invar [OF Cons.prems(1) put] run] put_content [OF Cons.prems(1) put] acc
    show ?thesis by simp
  next
    case (Get m)
    obtain q1 out where get: "get q m = (q1, out)" by fastforce
    obtain del1 where run: "run q1 ops = (q', acc, del1)" and del: "del = out @ del1"
      using Cons.prems(2) Get get by (auto split: prod.splits)
    have "content q @ acc = out @ content q1 @ acc"
      using get_content [OF Cons.prems(1) get] by (metis append_assoc)
    with Cons.IH [OF get_invar [OF Cons.prems(1) get] run] del show ?thesis by simp
  qed
qed

end

end
