(* ===== verification/Fd_Table.thy ===== *)
theory Fd_Table
  imports Kernel_Interfaces
begin

text \<open>
  The per-process file descriptor table (\<^verbatim>\<open>src/crates/kernel/src/fd.rs\<close>).  A
  descriptor is an index into a sparse vector of entries; slots claimed by an open in
  progress are kept in a separate reserved set and are invisible to lookup.  The
  operations return the new table and a result; the abstract view of a table is the
  partial map \<open>fd_lookup\<close> from descriptors to entries.
\<close>

section \<open>The table and its operations\<close>

record fd_entry =
  ofd_ref :: nat
  fd_flags :: u32

record fd_table =
  fd_entries :: "fd_entry option list"
  fd_reserved :: "nat set"
  max_fds :: nat

definition fd_default_max :: nat where
  "fd_default_max = 1024"

definition fd_with_max :: "nat \<Rightarrow> fd_table" where
  "fd_with_max m = \<lparr>fd_entries = [], fd_reserved = {}, max_fds = m\<rparr>"

definition fd_new :: fd_table where
  "fd_new = fd_with_max fd_default_max"

text \<open>The scan for a free, unreserved slot from \<open>from\<close> on.\<close>

definition fd_scan :: "fd_table \<Rightarrow> nat \<Rightarrow> nat option" where
  "fd_scan t from =
     List.find (\<lambda>i. fd_entries t ! i = None \<and> i \<notin> fd_reserved t) [from..<length (fd_entries t)]"

definition fd_alloc_at_min :: "fd_table \<Rightarrow> nat \<Rightarrow> u32 \<Rightarrow> int \<Rightarrow> fd_table \<times> int result" where
  "fd_alloc_at_min t r flags min_fd =
     (let mn = nat (max min_fd 0); e = \<lparr>ofd_ref = r, fd_flags = flags\<rparr>
      in case fd_scan t mn of
           Some i \<Rightarrow>
             if max_fds t \<le> i then (t, Err EMFILE)
             else (t\<lparr>fd_entries := (fd_entries t)[i := Some e]\<rparr>, Ok (as_i32 i))
         | None \<Rightarrow>
             let nxt = max (length (fd_entries t)) mn
             in if max_fds t \<le> nxt then (t, Err EMFILE)
                else (t\<lparr>fd_entries := pad_to nxt (fd_entries t) @ [Some e]\<rparr>, Ok (as_i32 nxt)))"

definition fd_alloc :: "fd_table \<Rightarrow> nat \<Rightarrow> u32 \<Rightarrow> fd_table \<times> int result" where
  "fd_alloc t r flags = fd_alloc_at_min t r flags 0"

definition fd_preopen_stdio :: "fd_table \<Rightarrow> fd_table" where
  "fd_preopen_stdio t = foldl (\<lambda>t i. fst (fd_alloc t i 0)) t [0, 1, 2]"




definition fd_free :: "fd_table \<Rightarrow> int \<Rightarrow> fd_table \<times> nat result" where
  "fd_free t fd =
     (if fd < 0 \<or> length (fd_entries t) \<le> nat fd then (t, Err EBADF)
      else (t\<lparr>fd_entries := (fd_entries t)[nat fd := None]\<rparr>,
            case fd_entries t ! nat fd of Some e \<Rightarrow> Ok (ofd_ref e) | None \<Rightarrow> Err EBADF))"

definition fd_get :: "fd_table \<Rightarrow> int \<Rightarrow> fd_entry result" where
  "fd_get t fd =
     (if fd < 0 \<or> length (fd_entries t) \<le> nat fd then Err EBADF
      else ok_or (fd_entries t ! nat fd) EBADF)"


definition fd_iter :: "fd_table \<Rightarrow> (int \<times> fd_entry) list" where
  "fd_iter t = List.map_filter (\<lambda>(i, e). map_option (Pair (as_i32 i)) e)
     (List.enumerate 0 (fd_entries t))"

definition fd_from_raw :: "fd_entry option list \<Rightarrow> nat \<Rightarrow> fd_table" where
  "fd_from_raw es m = \<lparr>fd_entries = es, fd_reserved = {}, max_fds = m\<rparr>"



definition fd_clone :: "fd_table \<Rightarrow> fd_table" where
  "fd_clone t = t\<lparr>fd_reserved := {}\<rparr>"

section \<open>Abstract view and invariant\<close>

text \<open>
  A descriptor is available when it is neither open nor reserved; the invariant says that
  reservations sit on existing, empty slots.
\<close>

definition fd_lookup :: "fd_table \<Rightarrow> nat \<rightharpoonup> fd_entry" where
  "fd_lookup t = slot (fd_entries t)"

definition fd_available :: "fd_table \<Rightarrow> nat \<Rightarrow> bool" where
  "fd_available t i \<longleftrightarrow> fd_lookup t i = None \<and> i \<notin> fd_reserved t"

definition fd_wf :: "fd_table \<Rightarrow> bool" where
  "fd_wf t \<longleftrightarrow> (\<forall>i \<in> fd_reserved t. i < length (fd_entries t) \<and> fd_entries t ! i = None)"

lemma fd_wf_new [simp]: "fd_wf fd_new" "fd_wf (fd_with_max m)" "fd_wf (fd_from_raw es m)"
  by (simp_all add: fd_wf_def fd_new_def fd_with_max_def fd_from_raw_def)

lemma fd_wf_reserved: "fd_wf t \<Longrightarrow> i \<in> fd_reserved t \<Longrightarrow> fd_lookup t i = None"
  by (simp add: fd_wf_def fd_lookup_def slot_def)

lemma fd_wf_reserved_less: "fd_wf t \<Longrightarrow> i \<in> fd_reserved t \<Longrightarrow> i < length (fd_entries t)"
  by (simp add: fd_wf_def)

text \<open>Both ends of the scan: the first slot it finds, or the end of the vector, is the
  lowest available descriptor from \<open>from\<close> on.\<close>

definition fd_lowest :: "fd_table \<Rightarrow> nat \<Rightarrow> nat" where
  "fd_lowest t from =
     (case fd_scan t from of Some i \<Rightarrow> i | None \<Rightarrow> max (length (fd_entries t)) from)"

lemma fd_lowest_available:
  assumes "fd_wf t"
  shows "from \<le> fd_lowest t from" "fd_available t (fd_lowest t from)"
    "from \<le> j \<Longrightarrow> j < fd_lowest t from \<Longrightarrow> \<not> fd_available t j"
  using fd_wf_reserved_less [OF assms]
    fd_wf_reserved_less [OF assms, of "max (length (fd_entries t)) from"]
  by (auto simp: fd_lowest_def fd_scan_def fd_available_def fd_lookup_def slot_def
      find_upt_Some find_upt_None split: option.splits)

lemma fd_alloc_at_min_eq:
  "fd_alloc_at_min t r flags m =
     (let i = fd_lowest t (nat (max m 0)); e = \<lparr>ofd_ref = r, fd_flags = flags\<rparr>
      in if max_fds t \<le> i then (t, Err EMFILE)
         else (t\<lparr>fd_entries := (pad_to (Suc i) (fd_entries t))[i := Some e]\<rparr>, Ok (as_i32 i)))"
  (is "_ = ?R")
proof (cases "fd_scan t (nat (max m 0))")
  case None
  then show ?thesis
    by (auto simp: fd_alloc_at_min_def fd_lowest_def Let_def pad_to_def list_update_append
        replicate_append_same [symmetric] max_def Suc_diff_le)
next
  case (Some i)
  then have "i < length (fd_entries t)" by (simp add: fd_scan_def find_upt_Some)
  then show ?thesis
    using Some by (simp add: fd_alloc_at_min_def fd_lowest_def pad_to_def)
qed

lemma fd_lookup_alloc_entry [slot_simps]:
  "slot ((pad_to (Suc i) es)[i := Some e]) = (slot es)(i \<mapsto> e)"
  by (simp add: slot_simps)

section \<open>Every operation keeps the invariant\<close>








lemma fd_wf_clone: "fd_wf (fd_clone t)"
  by (simp add: fd_clone_def fd_wf_def)

section \<open>Functional behaviour\<close>

lemma fd_get_lookup: "0 \<le> fd \<Longrightarrow> fd_get t fd = ok_or (fd_lookup t (nat fd)) EBADF"
  by (auto simp: fd_get_def fd_lookup_def slot_def)

lemma fd_get_negative: "fd < 0 \<Longrightarrow> fd_get t fd = Err EBADF"
  by (simp add: fd_get_def)

lemma fd_free_lookup: "0 \<le> fd \<Longrightarrow> fd_lookup (fst (fd_free t fd)) = (fd_lookup t)(nat fd := None)"
  by (auto simp: fd_free_def fd_lookup_def slot_simps slot_out_of_range fun_eq_iff)

lemma fd_free_result:
  "0 \<le> fd \<Longrightarrow> snd (fd_free t fd) = ok_or (map_option ofd_ref (fd_lookup t (nat fd))) EBADF"
  by (auto simp: fd_free_def fd_lookup_def slot_def split: option.splits)

text \<open>C7. Allocation returns the lowest descriptor that is at least the requested minimum
  and neither open nor reserved, installs exactly the given entry there and leaves every
  other descriptor alone.\<close>

theorem fd_alloc_lowest:
  assumes "fd_wf t" and "max_fds t \<le> 2 ^ 31"
    and "fd_alloc_at_min t r flags m = (t', Ok fd)"
  shows "max m 0 \<le> fd \<and> nat fd < max_fds t \<and> fd_available t (nat fd)
    \<and> (\<forall>j. nat (max m 0) \<le> j \<and> j < nat fd \<longrightarrow> \<not> fd_available t j)
    \<and> fd_lookup t' = (fd_lookup t)(nat fd \<mapsto> \<lparr>ofd_ref = r, fd_flags = flags\<rparr>)
    \<and> fd_reserved t' = fd_reserved t"
proof -
  let ?i = "fd_lowest t (nat (max m 0))"
  have lt: "?i < max_fds t" and fd: "fd = as_i32 ?i"
    and t': "t' = t\<lparr>fd_entries := (pad_to (Suc ?i) (fd_entries t))
                     [?i := Some \<lparr>ofd_ref = r, fd_flags = flags\<rparr>]\<rparr>"
    using assms(3) by (auto simp: fd_alloc_at_min_eq Let_def split: if_splits)
  have "?i < 2 ^ 31" using lt assms(2) by linarith
  with fd have i: "fd = int ?i" by simp
  show ?thesis
    using fd_lowest_available [OF assms(1), of "nat (max m 0)"] lt
    unfolding i t' by (auto simp: fd_lookup_def slot_simps)
qed

text \<open>Allocation fails exactly when every descriptor from the minimum up to the limit is
  taken; the error is EMFILE and the table is unchanged.\<close>

theorem fd_alloc_fails_iff_full:
  assumes "fd_wf t"
  shows "((\<exists>e. snd (fd_alloc_at_min t r flags m) = Err e)
        \<longleftrightarrow> (\<forall>j. nat (max m 0) \<le> j \<and> j < max_fds t \<longrightarrow> \<not> fd_available t j))
    \<and> (snd (fd_alloc_at_min t r flags m) = Err e \<longrightarrow>
        e = EMFILE \<and> fst (fd_alloc_at_min t r flags m) = t)"
  using fd_lowest_available [OF assms, of "nat (max m 0)"]
  by (auto simp: fd_alloc_at_min_eq Let_def split: if_splits)

section \<open>Sequences of operations\<close>








section \<open>Witnesses\<close>

lemma find_upt_step:
  "List.find P [a..<b] = (if a < b then (if P a then Some a else List.find P [Suc a..<b]) else None)"
  by (simp add: upt_rec)

theorem fd_alloc_lowest_witness:
  "fd_available (fd_from_raw [Some \<lparr>ofd_ref = 0, fd_flags = 0\<rparr>, None] 8) 1
   \<and> fd_lookup (fd_from_raw [Some \<lparr>ofd_ref = 0, fd_flags = 0\<rparr>, Some \<lparr>ofd_ref = 5, fd_flags = 1\<rparr>] 8) 1
      = Some \<lparr>ofd_ref = 5, fd_flags = 1\<rparr>"
proof -
  have h: "fd_alloc_at_min (fd_from_raw [Some \<lparr>ofd_ref = 0, fd_flags = 0\<rparr>, None] 8) 5 1 (-1)
    = (fd_from_raw [Some \<lparr>ofd_ref = 0, fd_flags = 0\<rparr>, Some \<lparr>ofd_ref = 5, fd_flags = 1\<rparr>] 8, Ok 1)"
    by (simp add: fd_alloc_at_min_def fd_scan_def fd_from_raw_def find_upt_step)
  show ?thesis using fd_alloc_lowest [OF fd_wf_new(3) _ h] by (simp add: fd_from_raw_def)
qed

theorem fd_alloc_fails_iff_full_witness:
  "\<exists>e. snd (fd_alloc_at_min (fd_from_raw [Some \<lparr>ofd_ref = 0, fd_flags = 0\<rparr>] 1) 5 1 0) = Err e"
proof -
  have "\<forall>j. nat (max 0 0) \<le> j \<and> j < max_fds (fd_from_raw [Some \<lparr>ofd_ref = 0, fd_flags = 0\<rparr>] 1) \<longrightarrow>
     \<not> fd_available (fd_from_raw [Some \<lparr>ofd_ref = 0, fd_flags = 0\<rparr>] 1) j"
    by (auto simp: fd_available_def fd_lookup_def slot_def fd_from_raw_def)
  then show ?thesis
    using fd_alloc_fails_iff_full [of "fd_from_raw [Some \<lparr>ofd_ref = 0, fd_flags = 0\<rparr>] 1" 5 1 0] by simp
qed


end
