(* ===== verification/Lock_Range.thy ===== *)
theory Lock_Range
  imports Kernel_Interfaces "HOL-Library.Product_Lexorder"
begin

text \<open>
  Identities and byte ranges of the advisory-lock manager
  (\<^verbatim>\<open>src/crates/kernel/src/lock.rs\<close>): open file descriptions, files, lock owners and the
  normalized half-open ranges locks are kept on.  The derived orders of the source become
  \<open>linorder\<close> instances.  Ranges are read as the set of byte offsets they cover.
\<close>

section \<open>Identities and their order\<close>

type_synonym ofd_id = nat
type_synonym pid = nat

datatype kernel_file_kind = MemFdFile | SyntheticRegular | ProcFsRegular

datatype file_id =
    HostFile (dev: nat) (ino: nat)
  | KernelFile (kind: kernel_file_kind) (object_id: nat)

datatype lock_owner =
    ProcessOwner pid
  | OpenFileDescription ofd_id
  | Flock ofd_id

datatype advisory_lock_type = ReadLock | WriteLock

datatype lock_range_end = OffsetEnd int | Eof

datatype lock_range = LockRange (rstart: int) (rend: lock_range_end)

text \<open>\<open>#[derive(PartialOrd, Ord)]\<close> compares variants in declaration order, then fields.\<close>

fun kind_key :: "kernel_file_kind \<Rightarrow> nat" where
  "kind_key MemFdFile = 0" | "kind_key SyntheticRegular = 1" | "kind_key ProcFsRegular = 2"

fun file_key :: "file_id \<Rightarrow> nat \<times> nat \<times> nat" where
  "file_key (HostFile d i) = (0, d, i)"
| "file_key (KernelFile k obj) = (1, kind_key k, obj)"

fun owner_key :: "lock_owner \<Rightarrow> nat \<times> nat" where
  "owner_key (ProcessOwner p) = (0, p)"
| "owner_key (OpenFileDescription i) = (1, i)"
| "owner_key (Flock i) = (2, i)"

fun type_key :: "advisory_lock_type \<Rightarrow> nat" where
  "type_key ReadLock = 0" | "type_key WriteLock = 1"

fun end_key :: "lock_range_end \<Rightarrow> nat \<times> int" where
  "end_key (OffsetEnd e) = (0, e)" | "end_key Eof = (1, 0)"

lemma kind_key_inj: "kind_key a = kind_key b \<longleftrightarrow> a = b"
  by (cases a; cases b) auto

lemma file_key_inj: "file_key a = file_key b \<longleftrightarrow> a = b"
  by (cases a; cases b) (auto simp: kind_key_inj)

lemma owner_key_inj: "owner_key a = owner_key b \<longleftrightarrow> a = b"
  by (cases a; cases b) auto

lemma type_key_inj: "type_key a = type_key b \<longleftrightarrow> a = b"
  by (cases a; cases b) auto

lemma end_key_inj: "end_key a = end_key b \<longleftrightarrow> a = b"
  by (cases a; cases b) auto

instantiation file_id :: linorder
begin

definition less_eq_file_id :: "file_id \<Rightarrow> file_id \<Rightarrow> bool" where
  "less_eq_file_id a b \<longleftrightarrow> file_key a \<le> file_key b"

definition less_file_id :: "file_id \<Rightarrow> file_id \<Rightarrow> bool" where
  "less_file_id a b \<longleftrightarrow> file_key a < file_key b"

instance
  by standard (unfold less_eq_file_id_def less_file_id_def file_key_inj [symmetric], auto)

end

instantiation lock_owner :: linorder
begin

definition less_eq_lock_owner :: "lock_owner \<Rightarrow> lock_owner \<Rightarrow> bool" where
  "less_eq_lock_owner a b \<longleftrightarrow> owner_key a \<le> owner_key b"

definition less_lock_owner :: "lock_owner \<Rightarrow> lock_owner \<Rightarrow> bool" where
  "less_lock_owner a b \<longleftrightarrow> owner_key a < owner_key b"

instance
  by standard (unfold less_eq_lock_owner_def less_lock_owner_def owner_key_inj [symmetric], auto)

end

instantiation advisory_lock_type :: linorder
begin

definition less_eq_advisory_lock_type :: "advisory_lock_type \<Rightarrow> advisory_lock_type \<Rightarrow> bool" where
  "less_eq_advisory_lock_type a b \<longleftrightarrow> type_key a \<le> type_key b"

definition less_advisory_lock_type :: "advisory_lock_type \<Rightarrow> advisory_lock_type \<Rightarrow> bool" where
  "less_advisory_lock_type a b \<longleftrightarrow> type_key a < type_key b"

instance
  by standard
    (unfold less_eq_advisory_lock_type_def less_advisory_lock_type_def type_key_inj [symmetric], auto)

end

instantiation lock_range_end :: linorder
begin

definition less_eq_lock_range_end :: "lock_range_end \<Rightarrow> lock_range_end \<Rightarrow> bool" where
  "less_eq_lock_range_end a b \<longleftrightarrow> end_key a \<le> end_key b"

definition less_lock_range_end :: "lock_range_end \<Rightarrow> lock_range_end \<Rightarrow> bool" where
  "less_lock_range_end a b \<longleftrightarrow> end_key a < end_key b"

instance
  by standard
    (unfold less_eq_lock_range_end_def less_lock_range_end_def end_key_inj [symmetric], auto)

end

instantiation lock_range :: linorder
begin

definition less_eq_lock_range :: "lock_range \<Rightarrow> lock_range \<Rightarrow> bool" where
  "less_eq_lock_range a b \<longleftrightarrow> (rstart a, rend a) \<le> (rstart b, rend b)"

definition less_lock_range :: "lock_range \<Rightarrow> lock_range \<Rightarrow> bool" where
  "less_lock_range a b \<longleftrightarrow> (rstart a, rend a) < (rstart b, rend b)"

instance
  by standard (unfold less_eq_lock_range_def less_lock_range_def, auto intro: lock_range.expand)

end

lemma end_less_simps [simp]:
  "OffsetEnd a < OffsetEnd b \<longleftrightarrow> a < b" "OffsetEnd a < Eof" "\<not> Eof < e"
  "OffsetEnd a \<le> OffsetEnd b \<longleftrightarrow> a \<le> b" "e \<le> Eof" "\<not> Eof \<le> OffsetEnd a"
  by (cases e; simp add: less_lock_range_end_def less_eq_lock_range_end_def)+

section \<open>Range operations\<close>

definition normalize_range :: "int \<Rightarrow> int \<Rightarrow> lock_range result" where
  "normalize_range start len =
     (if start < 0 then Err EINVAL
      else if len = 0 then Ok (LockRange start Eof)
      else if len > 0 then
        (case checked_add_i64 start len of
           None \<Rightarrow> Err EOVERFLOW
         | Some e \<Rightarrow> Ok (LockRange start (OffsetEnd e)))
      else
        (case checked_add_i64 start len of
           None \<Rightarrow> Err EOVERFLOW
         | Some s \<Rightarrow> if s < 0 then Err EINVAL else Ok (LockRange s (OffsetEnd start))))"

definition end_after :: "lock_range \<Rightarrow> int \<Rightarrow> bool" where
  "end_after r s = (case rend r of OffsetEnd e \<Rightarrow> e > s | Eof \<Rightarrow> True)"

definition start_before_end :: "int \<Rightarrow> lock_range_end \<Rightarrow> bool" where
  "start_before_end s e = (case e of OffsetEnd e \<Rightarrow> s < e | Eof \<Rightarrow> True)"

definition overlaps :: "lock_range \<Rightarrow> lock_range \<Rightarrow> bool" where
  "overlaps a b \<longleftrightarrow> end_after a (rstart b) \<and> start_before_end (rstart a) (rend b)"

definition touches_or_overlaps :: "lock_range \<Rightarrow> lock_range \<Rightarrow> bool" where
  "touches_or_overlaps a b \<longleftrightarrow>
     (case rend b of OffsetEnd e \<Rightarrow> rstart a \<le> e | Eof \<Rightarrow> True) \<and>
     (case rend a of OffsetEnd e \<Rightarrow> rstart b \<le> e | Eof \<Rightarrow> True)"

definition range_union :: "lock_range \<Rightarrow> lock_range \<Rightarrow> lock_range" where
  "range_union a b = LockRange (min (rstart a) (rstart b)) (max (rend a) (rend b))"

definition range_len :: "lock_range \<Rightarrow> int" where
  "range_len r = (case rend r of OffsetEnd e \<Rightarrow> e - rstart r | Eof \<Rightarrow> 0)"

section \<open>Ranges as sets of byte offsets\<close>

definition covers :: "lock_range \<Rightarrow> int \<Rightarrow> bool" where
  "covers r b \<longleftrightarrow> rstart r \<le> b \<and> start_before_end b (rend r)"

definition nonempty :: "lock_range \<Rightarrow> bool" where
  "nonempty r \<longleftrightarrow> start_before_end (rstart r) (rend r)"

text \<open>Adjacent or overlapping, on the covered offsets.\<close>

definition near :: "lock_range \<Rightarrow> lock_range \<Rightarrow> bool" where
  "near a b \<longleftrightarrow> (\<exists>x y. covers a x \<and> covers b y \<and> \<bar>x - y\<bar> \<le> 1)"

lemmas range_defs = covers_def nonempty_def start_before_end_def end_after_def overlaps_def
  touches_or_overlaps_def range_union_def

lemma nonempty_covers: "nonempty r \<longleftrightarrow> covers r (rstart r)"
  by (simp add: range_defs)

lemma overlaps_covers:
  assumes "nonempty a" "nonempty b"
  shows "overlaps a b \<longleftrightarrow> (\<exists>x. covers a x \<and> covers b x)"
proof
  assume "overlaps a b"
  with assms have "covers a (max (rstart a) (rstart b)) \<and> covers b (max (rstart a) (rstart b))"
    by (auto simp: range_defs split: lock_range_end.splits)
  then show "\<exists>x. covers a x \<and> covers b x" by blast
next
  assume "\<exists>x. covers a x \<and> covers b x"
  then show "overlaps a b" by (auto simp: range_defs split: lock_range_end.splits)
qed

lemma overlaps_sym: "nonempty a \<Longrightarrow> nonempty b \<Longrightarrow> overlaps a b \<longleftrightarrow> overlaps b a"
  by (auto simp: overlaps_covers)

lemma touches_near:
  assumes "nonempty a" "nonempty b"
  shows "touches_or_overlaps a b \<longleftrightarrow> near a b"
proof
  assume t: "touches_or_overlaps a b"
  show "near a b"
  proof (cases "overlaps a b")
    case True
    then obtain x where "covers a x" "covers b x" using overlaps_covers [OF assms] by blast
    then show ?thesis unfolding near_def by force
  next
    case False
    with t assms have "(\<exists>e. rend a = OffsetEnd e \<and> rstart b = e) \<or> (\<exists>e. rend b = OffsetEnd e \<and> rstart a = e)"
      by (auto simp: range_defs split: lock_range_end.splits)
    then show ?thesis
    proof
      assume "\<exists>e. rend a = OffsetEnd e \<and> rstart b = e"
      with assms have "covers a (rstart b - 1) \<and> covers b (rstart b)" by (auto simp: range_defs)
      then show ?thesis unfolding near_def by force
    next
      assume "\<exists>e. rend b = OffsetEnd e \<and> rstart a = e"
      with assms have "covers b (rstart a - 1) \<and> covers a (rstart a)" by (auto simp: range_defs)
      then show ?thesis unfolding near_def by force
    qed
  qed
next
  assume "near a b"
  then show "touches_or_overlaps a b"
    by (auto simp: near_def range_defs split: lock_range_end.splits)
qed

lemma near_sym: "near a b \<longleftrightarrow> near b a"
  unfolding near_def by (metis abs_minus_commute)

lemma nonempty_union: "nonempty a \<Longrightarrow> nonempty (range_union a b)"
  by (cases "rend a"; cases "rend b") (auto simp: range_defs max_def)

lemma covers_union:
  assumes "nonempty a" "nonempty b" "near a b"
  shows "covers (range_union a b) x \<longleftrightarrow> covers a x \<or> covers b x"
  using assms(3) unfolding touches_near [OF assms(1,2), symmetric]
  using assms(1,2) by (cases "rend a"; cases "rend b") (auto simp: range_defs max_def min_def)

lemma covers_inj:
  assumes "nonempty a" "nonempty b" "\<And>x. covers a x \<longleftrightarrow> covers b x"
  shows "a = b"
proof -
  have s: "rstart a = rstart b"
    using assms(1,2) assms(3) [of "rstart a"] assms(3) [of "rstart b"]
    by (auto simp: covers_def nonempty_def)
  have "rend a = rend b"
  proof (cases "rend a")
    case A: (OffsetEnd e)
    show ?thesis
    proof (cases "rend b")
      case B: (OffsetEnd e')
      show ?thesis
        using A B s assms(1,2) assms(3) [of e] assms(3) [of e'] by (auto simp: range_defs)
    next
      case Eof
      then show ?thesis using A s assms(1,2) assms(3) [of e] by (auto simp: range_defs)
    qed
  next
    case A: Eof
    show ?thesis
    proof (cases "rend b")
      case (OffsetEnd e')
      then show ?thesis using A s assms(1,2) assms(3) [of e'] by (auto simp: range_defs)
    qed (simp add: A)
  qed
  with s show ?thesis by (simp add: lock_range.expand)
qed

section \<open>Normalization of POSIX start and length\<close>

lemma normalize_cases:
  assumes "normalize_range s l = Ok r"
  shows "0 \<le> s \<and> (l = 0 \<and> r = LockRange s Eof \<or> 0 < l \<and> r = LockRange s (OffsetEnd (s + l)) \<or>
    l < 0 \<and> 0 \<le> s + l \<and> r = LockRange (s + l) (OffsetEnd s))"
  using assms unfolding normalize_range_def checked_add_i64_def
  by (auto split: if_splits option.splits)

lemma normalize_ok:
  assumes "normalize_range s l = Ok r"
  shows "nonempty r" and "0 \<le> rstart r" and "range_len r = \<bar>l\<bar>"
    and "covers r b \<longleftrightarrow> (if l = 0 then s \<le> b else if l > 0 then s \<le> b \<and> b < s + l else s + l \<le> b \<and> b < s)"
  using normalize_cases [OF assms] by (auto simp: range_defs range_len_def)

text \<open>C6. Range normalization (\<^verbatim>\<open>LockRange::normalize\<close>): on \<^verbatim>\<open>i64\<close> arguments it fails with EINVAL
  exactly when the range would begin before offset 0, with EOVERFLOW exactly when a positive
  length runs past the largest offset, and otherwise yields a non-empty range that covers exactly
  the bytes POSIX assigns to the pair (to end of file for length 0, the bytes before the start for
  a negative length).\<close>

theorem normalize_range_correct:
  assumes "I64_MIN \<le> l" "l \<le> I64_MAX" "I64_MIN \<le> s" "s \<le> I64_MAX"
  shows "(normalize_range s l = Err EINVAL \<longleftrightarrow> s < 0 \<or> (l < 0 \<and> s + l < 0)) \<and>
    (normalize_range s l = Err EOVERFLOW \<longleftrightarrow> 0 \<le> s \<and> 0 < l \<and> s + l > I64_MAX) \<and>
    (\<forall>e. normalize_range s l = Err e \<longrightarrow> e = EINVAL \<or> e = EOVERFLOW) \<and>
    (\<forall>r. normalize_range s l = Ok r \<longrightarrow> nonempty r \<and> 0 \<le> rstart r \<and> range_len r = \<bar>l\<bar> \<and>
       (\<forall>b. covers r b \<longleftrightarrow>
         (if l = 0 then s \<le> b else if l > 0 then s \<le> b \<and> b < s + l else s + l \<le> b \<and> b < s)))"
proof (intro conjI allI impI)
  have m: "I64_MIN < 0" "0 < I64_MAX" "I64_MIN = - I64_MAX - 1" by (auto simp: I64_MIN_def I64_MAX_def)
  show "normalize_range s l = Err EINVAL \<longleftrightarrow> s < 0 \<or> (l < 0 \<and> s + l < 0)"
    using assms m by (auto simp: normalize_range_def checked_add_i64_def)
  show "normalize_range s l = Err EOVERFLOW \<longleftrightarrow> 0 \<le> s \<and> 0 < l \<and> s + l > I64_MAX"
    using assms m by (auto simp: normalize_range_def checked_add_i64_def)
  show "e = EINVAL \<or> e = EOVERFLOW" if "normalize_range s l = Err e" for e
    using that by (simp add: normalize_range_def split: if_splits option.splits)
qed (use normalize_ok in blast)+

theorem normalize_range_correct_witness:
  "normalize_range 100 (- 30) = Ok (LockRange 70 (OffsetEnd 100)) \<and>
   (\<forall>b. covers (LockRange 70 (OffsetEnd 100)) b \<longleftrightarrow> 70 \<le> b \<and> b < 100)"
proof -
  have n: "normalize_range 100 (- 30) = Ok (LockRange 70 (OffsetEnd 100))"
    by (simp add: normalize_range_def checked_add_i64_def I64_MIN_def I64_MAX_def)
  have b: "I64_MIN \<le> - 30" "- 30 \<le> I64_MAX" "I64_MIN \<le> 100" "100 \<le> I64_MAX"
    by (simp_all add: I64_MIN_def I64_MAX_def)
  show ?thesis
    using n normalize_range_correct [OF b, THEN conjunct2, THEN conjunct2, THEN conjunct2,
        rule_format, OF n]
    by simp
qed

end
