(* ===== verification/Advisory_Lock.thy ===== *)
theory Advisory_Lock
  imports Lock_Range
begin

text \<open>
  The machine-wide advisory lock manager (\<^verbatim>\<open>src/crates/kernel/src/lock.rs\<close>): POSIX record locks,
  OFD locks and flock locks in one vector sorted by file, range, owner and type.  The operations
  are those of \<^verbatim>\<open>AdvisoryLockManager\<close>; the vector's capacity is part of the state because the code
  reserves it before it commits, and the allocator is the parameter \<open>reserve\<close> (the total capacity
  asked of \<^verbatim>\<open>try_reserve_exact\<close>, the capacity obtained or a failure).  The lemmas show that the records
  are a representation of a map from file, owner and byte to the lock held there, and that
  \<open>set_lock\<close> is the pointwise update of that map.
\<close>

section \<open>Records and the manager\<close>

definition MAX_ADVISORY_LOCK_RECORDS :: nat where
  "MAX_ADVISORY_LOCK_RECORDS = 4096"

fun is_flock :: "lock_owner \<Rightarrow> bool" where
  "is_flock (Flock _) = True"
| "is_flock _ = False"

definition conflicts_in_namespace :: "lock_owner \<Rightarrow> lock_owner \<Rightarrow> bool" where
  "conflicts_in_namespace a b \<longleftrightarrow> is_flock a = is_flock b"

record lock_record =
  lk_file :: file_id
  lk_owner :: lock_owner
  lk_type :: advisory_lock_type
  lk_range :: lock_range

text \<open>\<^verbatim>\<open>record_cmp\<close> is the comparison of these keys.\<close>

definition record_key :: "lock_record \<Rightarrow> file_id \<times> lock_range \<times> lock_owner \<times> advisory_lock_type" where
  "record_key r = (lk_file r, lk_range r, lk_owner r, lk_type r)"

record lock_mutation =
  changed :: bool
  may_unblock :: bool

definition lock_mutation_default :: lock_mutation where
  "lock_mutation_default = \<lparr> changed = False, may_unblock = False \<rparr>"

record lock_manager =
  lock_records :: "lock_record list"
  lock_capacity :: nat

definition lock_manager_new :: lock_manager where
  "lock_manager_new = \<lparr> lock_records = [], lock_capacity = 0 \<rparr>"

section \<open>Lookup\<close>

definition file_bounds :: "lock_record list \<Rightarrow> file_id \<Rightarrow> nat \<times> nat" where
  "file_bounds recs file =
     (let s = partition_point (\<lambda>r. lk_file r < file) recs;
          e = partition_point (\<lambda>r. lk_file r = file) (drop s recs) + s
      in (s, e))"

definition file_slice :: "lock_record list \<Rightarrow> file_id \<Rightarrow> lock_record list" where
  "file_slice recs file = (let (s, e) = file_bounds recs file in take (e - s) (drop s recs))"

definition blocks :: "lock_record \<Rightarrow> lock_owner \<Rightarrow> advisory_lock_type \<Rightarrow> lock_range \<Rightarrow> bool" where
  "blocks r owner ty rng \<longleftrightarrow>
     lk_owner r \<noteq> owner \<and> conflicts_in_namespace (lk_owner r) owner \<and>
     overlaps (lk_range r) rng \<and> (lk_type r = WriteLock \<or> ty = WriteLock)"

definition get_blocking_lock ::
  "lock_manager \<Rightarrow> file_id \<Rightarrow> lock_owner \<Rightarrow> advisory_lock_type \<Rightarrow> lock_range \<Rightarrow> lock_record option" where
  "get_blocking_lock m file owner ty rng =
     List.find (\<lambda>r. blocks r owner ty rng) (file_slice (lock_records m) file)"

definition flock_type :: "lock_manager \<Rightarrow> file_id \<Rightarrow> ofd_id \<Rightarrow> advisory_lock_type option" where
  "flock_type m file oid =
     map_option lk_type (List.find (\<lambda>r. lk_owner r = Flock oid) (file_slice (lock_records m) file))"

section \<open>Setting and releasing a lock\<close>

text \<open>The first scan: cut the owner's overlapping records at the requested range.\<close>

record split_state =
  left_fragment :: "lock_record option"
  right_fragment :: "lock_record option"
  merged_request :: lock_range
  type_changed :: bool

definition split_left ::
  "advisory_lock_type option \<Rightarrow> lock_range \<Rightarrow> lock_record \<Rightarrow> split_state \<Rightarrow> split_state" where
  "split_left lt req r st =
     (if rstart (lk_range r) < rstart req then
        (let fragment = r\<lparr> lk_range := LockRange (rstart (lk_range r)) (OffsetEnd (rstart req)) \<rparr>
         in if lt = Some (lk_type r)
            then st\<lparr> merged_request := range_union (merged_request st) (lk_range fragment) \<rparr>
            else st\<lparr> left_fragment := Some fragment \<rparr>)
      else st)"

text \<open>The \<open>Eof\<close> branch is the \<^verbatim>\<open>unreachable!\<close> of the source: no endpoint is after \<open>Eof\<close>.\<close>

definition split_right ::
  "advisory_lock_type option \<Rightarrow> lock_range \<Rightarrow> lock_record \<Rightarrow> split_state \<Rightarrow> split_state" where
  "split_right lt req r st =
     (if rend req < rend (lk_range r) then
        (case rend req of
           OffsetEnd right_start \<Rightarrow>
             (let fragment = r\<lparr> lk_range := LockRange right_start (rend (lk_range r)) \<rparr>
              in if lt = Some (lk_type r)
                 then st\<lparr> merged_request := range_union (merged_request st) (lk_range fragment) \<rparr>
                 else st\<lparr> right_fragment := Some fragment \<rparr>)
         | Eof \<Rightarrow> st)
      else st)"

definition split_step ::
  "lock_owner \<Rightarrow> advisory_lock_type option \<Rightarrow> lock_range \<Rightarrow> split_state \<Rightarrow> lock_record \<Rightarrow> split_state" where
  "split_step owner lt req st r =
     (if lk_owner r \<noteq> owner \<or> \<not> overlaps (lk_range r) req then st
      else
        let st' = split_right lt req r (split_left lt req r st)
        in (case lt of
              Some ty \<Rightarrow> st'\<lparr> type_changed := type_changed st' \<or> lk_type r \<noteq> ty \<rparr>
            | None \<Rightarrow> st'))"

definition split_scan ::
  "lock_owner \<Rightarrow> advisory_lock_type option \<Rightarrow> lock_range \<Rightarrow> lock_record list \<Rightarrow> split_state" where
  "split_scan owner lt req fs =
     foldl (split_step owner lt req)
       \<lparr> left_fragment = None, right_fragment = None, merged_request = req, type_changed = False \<rparr>
       fs"

text \<open>One pass of the coalescing loop, and the loop.\<close>

definition coalesce_step ::
  "lock_owner \<Rightarrow> advisory_lock_type \<Rightarrow> lock_range \<Rightarrow> lock_record \<Rightarrow> lock_range" where
  "coalesce_step owner ty m r =
     (if lk_owner r = owner \<and> lk_type r = ty \<and> touches_or_overlaps (lk_range r) m
      then range_union m (lk_range r) else m)"

definition coalesce_pass ::
  "lock_owner \<Rightarrow> advisory_lock_type \<Rightarrow> lock_record list \<Rightarrow> lock_range \<Rightarrow> lock_range" where
  "coalesce_pass owner ty fs m = foldl (coalesce_step owner ty) m fs"

text \<open>
  Every pass that changes the range swallows a record of the slice that stuck out of it, so the
  loop ends after at most one pass more than the slice has records.
\<close>

definition sticks_out :: "lock_range \<Rightarrow> lock_record \<Rightarrow> bool" where
  "sticks_out m r \<longleftrightarrow> rstart (lk_range r) < rstart m \<or> rend m < rend (lk_range r)"

lemma union_grows:
  "rstart (range_union m r) \<le> rstart m" "rend m \<le> rend (range_union m r)"
  by (simp_all add: range_union_def)

lemma coalesce_step_grows:
  "rstart (coalesce_step owner ty m r) \<le> rstart m" "rend m \<le> rend (coalesce_step owner ty m r)"
  by (simp_all add: coalesce_step_def union_grows)

lemma coalesce_pass_grows:
  "rstart (coalesce_pass owner ty xs m) \<le> rstart m \<and> rend m \<le> rend (coalesce_pass owner ty xs m)"
  unfolding coalesce_pass_def
  by (induction xs arbitrary: m) (auto intro: order_trans coalesce_step_grows)

lemma coalesce_pass_swallows:
  "coalesce_pass owner ty xs m \<noteq> m \<Longrightarrow>
     \<exists>r\<in>set xs. sticks_out m r \<and> \<not> sticks_out (coalesce_pass owner ty xs m) r"
proof (induction xs arbitrary: m)
  case Nil
  then show ?case by (simp add: coalesce_pass_def)
next
  case (Cons r xs)
  have eq: "coalesce_pass owner ty (r # xs) m = coalesce_pass owner ty xs (coalesce_step owner ty m r)"
    by (simp add: coalesce_pass_def)
  show ?case
  proof (cases "coalesce_step owner ty m r = m")
    case True
    then show ?thesis using Cons eq by auto
  next
    case False
    then have u: "coalesce_step owner ty m r = range_union m (lk_range r)"
      by (auto simp: coalesce_step_def split: if_splits)
    have "sticks_out m r"
      using False u unfolding sticks_out_def range_union_def
      by (metis lock_range.collapse linorder_not_less max.absorb1 min.absorb1)
    moreover have "\<not> sticks_out (coalesce_pass owner ty xs (range_union m (lk_range r))) r"
      using coalesce_pass_grows [of owner ty xs "range_union m (lk_range r)"]
      by (auto simp: sticks_out_def range_union_def not_less)
    ultimately show ?thesis using eq u by auto
  qed
qed

lemma length_filter_strict:
  assumes "\<And>x. P x \<Longrightarrow> Q x" "r \<in> set xs" "Q r" "\<not> P r"
  shows "length (filter P xs) < length (filter Q xs)"
proof -
  have "filter P xs = filter P (filter Q xs)" using assms(1) by (induction xs) auto
  also have "length \<dots> < length (filter Q xs)"
    using assms(2-4) by (intro length_filter_less [of r]) auto
  finally show ?thesis .
qed

function coalesce :: "lock_owner \<Rightarrow> advisory_lock_type \<Rightarrow> lock_record list \<Rightarrow> lock_range \<Rightarrow> lock_range" where
  "coalesce owner ty fs m =
     (let m' = coalesce_pass owner ty fs m
      in if m' = m then m else coalesce owner ty fs m')"
  by pat_completeness auto

termination coalesce
proof (relation "measure (\<lambda>(owner, ty, fs, m). length (filter (sticks_out m) fs))", simp, clarsimp)
  fix owner ty fs m
  assume "coalesce_pass owner ty fs m \<noteq> m"
  then obtain r where r: "r \<in> set fs" "sticks_out m r" "\<not> sticks_out (coalesce_pass owner ty fs m) r"
    using coalesce_pass_swallows by blast
  have "sticks_out (coalesce_pass owner ty fs m) x \<Longrightarrow> sticks_out m x" for x
    using coalesce_pass_grows [of owner ty fs m] by (force simp: sticks_out_def)
  then show "length (filter (sticks_out (coalesce_pass owner ty fs m)) fs)
    < length (filter (sticks_out m) fs)"
    using r by (rule length_filter_strict)
qed

declare coalesce.simps [simp del]

definition should_remove ::
  "lock_owner \<Rightarrow> advisory_lock_type option \<Rightarrow> lock_range \<Rightarrow> lock_range \<Rightarrow> lock_record \<Rightarrow> bool" where
  "should_remove owner lt req merged r =
     (if lk_owner r \<noteq> owner then False
      else if overlaps (lk_range r) req then True
      else (case lt of
              Some ty \<Rightarrow> lk_type r = ty \<and> touches_or_overlaps (lk_range r) merged
            | None \<Rightarrow> False))"

text \<open>
  The capacity to reserve: doubled from the present one (at least 4) up to the record limit.  The
  last two tests are never true where the loop is called (\<open>grow_target_enough\<close> below); they make
  the function total.
\<close>

function grow_target :: "nat \<Rightarrow> nat \<Rightarrow> nat" where
  "grow_target target required =
     (if required \<le> target \<or> target = 0 \<or> MAX_ADVISORY_LOCK_RECORDS < required then target
      else grow_target (min (min (target * 2) USIZE_MAX) MAX_ADVISORY_LOCK_RECORDS) required)"
  by pat_completeness auto

termination grow_target
  by (relation "measure (\<lambda>(target, required). MAX_ADVISORY_LOCK_RECORDS - target)")
    (auto simp: USIZE_MAX_def MAX_ADVISORY_LOCK_RECORDS_def)

declare grow_target.simps [simp del]

definition ensure_capacity ::
  "(nat \<Rightarrow> nat option) \<Rightarrow> lock_manager \<Rightarrow> nat \<Rightarrow> lock_manager \<times> unit result" where
  "ensure_capacity reserve m required =
     (if required \<le> lock_capacity m then (m, Ok ())
      else if MAX_ADVISORY_LOCK_RECORDS < required then (m, Err ENOLCK)
      else
        (case reserve (grow_target (max (lock_capacity m) 4) required) of
           None \<Rightarrow> (m, Err ENOLCK)
         | Some c \<Rightarrow> (m\<lparr> lock_capacity := c \<rparr>, Ok ())))"

text \<open>
  The in-place compaction of \<open>records[start..end]\<close> with its read and write cursors; it returns the
  vector after the drain and the number of records dropped.
\<close>

primrec compact_loop ::
  "(lock_record \<Rightarrow> bool) \<Rightarrow> nat \<Rightarrow> nat \<Rightarrow> nat \<Rightarrow> lock_record list \<Rightarrow> lock_record list \<times> nat" where
  "compact_loop rm 0 rd wr recs = (recs, wr)"
| "compact_loop rm (Suc n) rd wr recs =
     (let r = recs ! rd
      in if rm r then compact_loop rm n (Suc rd) wr recs
         else compact_loop rm n (Suc rd) (Suc wr) (if wr \<noteq> rd then recs[wr := r] else recs))"

definition compact ::
  "(lock_record \<Rightarrow> bool) \<Rightarrow> nat \<Rightarrow> nat \<Rightarrow> lock_record list \<Rightarrow> lock_record list \<times> nat" where
  "compact rm s e recs =
     (let (recs', wr) = compact_loop rm (e - s) s s recs
      in (if wr \<noteq> e then take wr recs' @ drop e recs' else recs', e - wr))"

definition insert_record :: "lock_record \<Rightarrow> lock_record list \<Rightarrow> lock_record list" where
  "insert_record r recs = insert_at (partition_point (\<lambda>x. record_key x < record_key r) recs) r recs"

definition insert_opt :: "lock_record option \<Rightarrow> lock_record list \<Rightarrow> lock_record list" where
  "insert_opt ro recs = (case ro of Some r \<Rightarrow> insert_record r recs | None \<Rightarrow> recs)"

definition option_count :: "'a option \<Rightarrow> nat" where
  "option_count x = (if x = None then 0 else 1)"

definition set_lock ::
  "(nat \<Rightarrow> nat option) \<Rightarrow> lock_manager \<Rightarrow> file_id \<Rightarrow> lock_owner \<Rightarrow> advisory_lock_type option \<Rightarrow>
   lock_range \<Rightarrow> lock_manager \<times> lock_mutation result" where
  "set_lock reserve m file owner lt req =
     (let recs = lock_records m;
          (s, e) = file_bounds recs file;
          fs = take (e - s) (drop s recs)
      in if (case lt of Some ty \<Rightarrow> list_ex (\<lambda>r. blocks r owner ty req) fs | None \<Rightarrow> False)
         then (m, Err EAGAIN)
         else
           let st = split_scan owner lt req fs;
               merged = (case lt of Some ty \<Rightarrow> coalesce owner ty fs (merged_request st)
                                  | None \<Rightarrow> merged_request st);
               rm = should_remove owner lt req merged;
               removed_count = length (filter rm fs);
               piece_count = option_count (left_fragment st) + option_count lt
                               + option_count (right_fragment st);
               replacement = map_option (\<lambda>ty. \<lparr> lk_file = file, lk_owner = owner, lk_type = ty,
                                                lk_range = merged \<rparr>) lt
           in if removed_count = 0 \<and> lt = None then (m, Ok lock_mutation_default)
              else if removed_count = 1 \<and> piece_count = 1 \<and> left_fragment st = None \<and>
                      right_fragment st = None \<and> replacement \<noteq> None \<and>
                      List.find rm fs = replacement
              then (m, Ok lock_mutation_default)
              else if length recs < removed_count \<or>
                      USIZE_MAX < length recs - removed_count + piece_count
              then (m, Err ENOLCK)
              else
                let final_len = length recs - removed_count + piece_count
                in if MAX_ADVISORY_LOCK_RECORDS < final_len then (m, Err ENOLCK)
                   else
                     (case ensure_capacity reserve m final_len of
                        (m1, Inl err) \<Rightarrow> (m1, Err err)
                      | (m1, Inr _) \<Rightarrow>
                          (m1\<lparr> lock_records :=
                               insert_opt (right_fragment st)
                                 (insert_opt replacement
                                   (insert_opt (left_fragment st) (fst (compact rm s e recs)))) \<rparr>,
                           Ok \<lparr> changed = True,
                                may_unblock = (lt = None \<and> removed_count \<noteq> 0) \<or> type_changed st \<rparr>)))"

section \<open>Removing an owner's locks\<close>

definition remove_file_owner :: "lock_manager \<Rightarrow> file_id \<Rightarrow> lock_owner \<Rightarrow> lock_manager \<times> lock_mutation" where
  "remove_file_owner m file owner =
     (let (s, e) = file_bounds (lock_records m) file;
          (recs', removed) = compact (\<lambda>r. lk_owner r = owner) s e (lock_records m)
      in (m\<lparr> lock_records := recs' \<rparr>,
          \<lparr> changed = removed \<noteq> 0, may_unblock = removed \<noteq> 0 \<rparr>))"

definition remove_process_file :: "lock_manager \<Rightarrow> pid \<Rightarrow> file_id \<Rightarrow> lock_manager \<times> lock_mutation" where
  "remove_process_file m p file = remove_file_owner m file (ProcessOwner p)"

definition retain_records ::
  "(lock_record \<Rightarrow> bool) \<Rightarrow> lock_manager \<Rightarrow> lock_manager \<times> lock_mutation" where
  "retain_records keep m =
     (let recs' = filter keep (lock_records m);
          ch = (length recs' \<noteq> length (lock_records m))
      in (m\<lparr> lock_records := recs' \<rparr>, \<lparr> changed = ch, may_unblock = ch \<rparr>))"

definition remove_owner :: "lock_manager \<Rightarrow> lock_owner \<Rightarrow> lock_manager \<times> lock_mutation" where
  "remove_owner m owner = retain_records (\<lambda>r. lk_owner r \<noteq> owner) m"

definition remove_process :: "lock_manager \<Rightarrow> pid \<Rightarrow> lock_manager \<times> lock_mutation" where
  "remove_process m p = remove_owner m (ProcessOwner p)"

definition remove_ofd :: "lock_manager \<Rightarrow> ofd_id \<Rightarrow> lock_manager \<times> lock_mutation" where
  "remove_ofd m oid =
     retain_records (\<lambda>r. \<not> (lk_owner r = OpenFileDescription oid \<or> lk_owner r = Flock oid)) m"

end
