(* ===== verification/Lock_Scan.thy ===== *)
theory Lock_Scan
  imports Advisory_Lock
begin

text \<open>
  The scans inside \<open>set_lock\<close>: the slice of one file in the sorted vector, the in-place compaction
  and sorted insertion, the cutting of overlapping records into fragments, and the coalescing
  loop, each characterised by the bytes it covers.
\<close>

section \<open>The slice of one file\<close>

abbreviation records_sorted :: "lock_record list \<Rightarrow> bool" where
  "records_sorted recs \<equiv> sorted (map record_key recs)"

lemma records_sorted_file: "records_sorted recs \<Longrightarrow> sorted (map lk_file recs)"
  by (induction recs) (force simp: record_key_def less_eq_prod_def)+

lemma sorted_partition:
  fixes k :: "'a \<Rightarrow> 'b::linorder"
  assumes "sorted (map k xs)"
  shows "takeWhile (\<lambda>r. k r < f) xs = filter (\<lambda>r. k r < f) xs"
    and "takeWhile (\<lambda>r. k r = f) (dropWhile (\<lambda>r. k r < f) xs) = filter (\<lambda>r. k r = f) xs"
    and "dropWhile (\<lambda>r. k r = f) (dropWhile (\<lambda>r. k r < f) xs) = filter (\<lambda>r. f < k r) xs"
proof -
  show "takeWhile (\<lambda>r. k r < f) xs = filter (\<lambda>r. k r < f) xs"
    using assms
  proof (induction xs)
    case (Cons x xs)
    show ?case
    proof (cases "k x < f")
      case False
      then have "\<forall>y\<in>set xs. \<not> k y < f" using Cons.prems by auto
      then have "filter (\<lambda>r. k r < f) xs = []" by (simp add: filter_empty_conv)
      then show ?thesis using False by simp
    qed (use Cons in simp)
  qed simp
  have eq: "takeWhile (\<lambda>r. k r = f) ys = filter (\<lambda>r. k r = f) ys \<and>
            dropWhile (\<lambda>r. k r = f) ys = filter (\<lambda>r. f < k r) ys"
    if "sorted (map k ys)" "\<forall>y\<in>set ys. f \<le> k y" for ys
    using that
  proof (induction ys)
    case (Cons y ys)
    show ?case
    proof (cases "k y = f")
      case False
      then have "f < k y" using Cons.prems(2) by (auto simp: order.strict_iff_order)
      then have "\<forall>z\<in>set ys. f < k z" using Cons.prems(1) by auto
      then have "filter (\<lambda>r. k r = f) ys = []" "filter (\<lambda>r. f < k r) ys = ys"
        by (auto simp: filter_empty_conv filter_id_conv)
      then show ?thesis using \<open>f < k y\<close> False by simp
    qed (use Cons in simp)
  qed simp
  have "takeWhile (\<lambda>r. k r = f) (dropWhile (\<lambda>r. k r < f) xs) = filter (\<lambda>r. k r = f) xs \<and>
        dropWhile (\<lambda>r. k r = f) (dropWhile (\<lambda>r. k r < f) xs) = filter (\<lambda>r. f < k r) xs"
    using assms
  proof (induction xs)
    case (Cons x xs)
    show ?case
    proof (cases "k x < f")
      case True
      then show ?thesis using Cons by (auto simp: less_imp_neq)
    next
      case False
      then have "\<forall>y\<in>set (x # xs). f \<le> k y" using Cons.prems by auto
      then show ?thesis using Cons.prems eq [of "x # xs"] False by simp
    qed
  qed simp
  then show "takeWhile (\<lambda>r. k r = f) (dropWhile (\<lambda>r. k r < f) xs) = filter (\<lambda>r. k r = f) xs"
    "dropWhile (\<lambda>r. k r = f) (dropWhile (\<lambda>r. k r < f) xs) = filter (\<lambda>r. f < k r) xs"
    by blast+
qed

lemma file_bounds_split:
  assumes "records_sorted recs" "file_bounds recs f = (s, e)"
  shows "s \<le> e" "e \<le> length recs"
    "take s recs = filter (\<lambda>r. lk_file r < f) recs"
    "take (e - s) (drop s recs) = filter (\<lambda>r. lk_file r = f) recs"
    "drop e recs = filter (\<lambda>r. f < lk_file r) recs"
proof -
  note sp = sorted_partition [OF records_sorted_file [OF assms(1)], of f]
  have s: "s = partition_point (\<lambda>r. lk_file r < f) recs"
    and e: "e = partition_point (\<lambda>r. lk_file r = f) (drop s recs) + s"
    using assms(2) by (auto simp: file_bounds_def Let_def)
  show "s \<le> e" using e by simp
  show "e \<le> length recs"
    using e partition_point_le [of "\<lambda>r. lk_file r = f" "drop s recs"]
      partition_point_le [of "\<lambda>r. lk_file r < f" recs] s by simp
  show "take s recs = filter (\<lambda>r. lk_file r < f) recs"
    using s sp(1) take_partition_point by metis
  have d: "drop s recs = dropWhile (\<lambda>r. lk_file r < f) recs" using s drop_partition_point by metis
  show "take (e - s) (drop s recs) = filter (\<lambda>r. lk_file r = f) recs"
    using e sp(2) d by (simp add: take_partition_point)
  have "drop e recs = drop (e - s) (drop s recs)" using \<open>s \<le> e\<close> by simp
  also have "\<dots> = filter (\<lambda>r. f < lk_file r) recs"
    using e sp(3) d by (simp add: drop_partition_point)
  finally show "drop e recs = filter (\<lambda>r. f < lk_file r) recs" .
qed

lemma file_slice_filter: "records_sorted recs \<Longrightarrow> file_slice recs f = filter (\<lambda>r. lk_file r = f) recs"
  by (cases "file_bounds recs f") (simp add: file_slice_def file_bounds_split(4))

section \<open>Compaction and insertion\<close>

lemma compact_loop_spec:
  assumes "compact_loop rm n rd wr recs = (recs', wr')" "wr \<le> rd" "rd + n \<le> length recs"
  shows "take wr' recs' = take wr recs @ filter (\<lambda>r. \<not> rm r) (take n (drop rd recs)) \<and>
    drop (rd + n) recs' = drop (rd + n) recs \<and>
    wr' = wr + length (filter (\<lambda>r. \<not> rm r) (take n (drop rd recs)))"
  using assms
proof (induction n arbitrary: rd wr recs)
  case (Suc n)
  have d: "take (Suc n) (drop rd recs) = recs ! rd # take n (drop (Suc rd) recs)"
    using Suc.prems(3) by (simp add: Cons_nth_drop_Suc [symmetric])
  show ?case
  proof (cases "rm (recs ! rd)")
    case True
    then have c: "compact_loop rm n (Suc rd) wr recs = (recs', wr')"
      using Suc.prems(1) by (simp add: Let_def)
    have f: "filter (\<lambda>r. \<not> rm r) (take (Suc n) (drop rd recs)) =
        filter (\<lambda>r. \<not> rm r) (take n (drop (Suc rd) recs))"
      unfolding d using True by simp
    have "wr \<le> Suc rd" "Suc rd + n \<le> length recs" using Suc.prems(2,3) by simp_all
    from Suc.IH [OF c this] show ?thesis unfolding f add_Suc_right add_Suc .
  next
    case False
    define recs1 where "recs1 = (if wr \<noteq> rd then recs[wr := recs ! rd] else recs)"
    have c: "compact_loop rm n (Suc rd) (Suc wr) recs1 = (recs', wr')"
      using Suc.prems(1) False by (simp add: Let_def recs1_def)
    have l: "length recs1 = length recs" by (simp add: recs1_def)
    have dr: "drop (Suc rd) recs1 = drop (Suc rd) recs" "drop (Suc (rd + n)) recs1 = drop (Suc (rd + n)) recs"
      using Suc.prems(2) by (simp_all add: recs1_def)
    let ?F = "filter (\<lambda>r. \<not> rm r) (take n (drop (Suc rd) recs))"
    have f: "filter (\<lambda>r. \<not> rm r) (take (Suc n) (drop rd recs)) = recs ! rd # ?F"
      unfolding d using False by simp
    have tk: "take (Suc wr) recs1 = take wr recs @ [recs ! rd]"
      using Suc.prems(2,3) by (auto simp: recs1_def take_Suc_conv_app_nth)
    have "Suc wr \<le> Suc rd" "Suc rd + n \<le> length recs1" using Suc.prems(2,3) l by simp_all
    from Suc.IH [OF c this] show ?thesis
      unfolding f dr tk append_assoc append_Cons append_Nil add_Suc_right add_Suc length_Cons .
  qed
qed simp

lemma compact_spec:
  assumes "records_sorted recs" "file_bounds recs f = (s, e)"
  shows "compact rm s e recs =
    (filter (\<lambda>r. \<not> (lk_file r = f \<and> rm r)) recs, length (filter (\<lambda>r. lk_file r = f \<and> rm r) recs))"
proof -
  note b = file_bounds_split [OF assms]
  obtain recs' wr where c: "compact_loop rm (e - s) s s recs = (recs', wr)" by fastforce
  let ?fs = "take (e - s) (drop s recs)"
  have spec: "take wr recs' = take s recs @ filter (\<lambda>r. \<not> rm r) ?fs" "drop e recs' = drop e recs"
    "wr = s + length (filter (\<lambda>r. \<not> rm r) ?fs)"
    using compact_loop_spec [OF c] b(1,2) by auto
  have len: "length ?fs = e - s" using b(1,2) by simp
  have cnt: "e - wr = length (filter rm ?fs)"
    using spec(3) sum_length_filter_compl [of rm ?fs] len b(1) by linarith
  have vec: "(if wr \<noteq> e then take wr recs' @ drop e recs' else recs')
    = take s recs @ filter (\<lambda>r. \<not> rm r) ?fs @ drop e recs"
  proof -
    have "take wr recs' @ drop e recs' = take s recs @ filter (\<lambda>r. \<not> rm r) ?fs @ drop e recs"
      unfolding spec(1,2) by simp
    then show ?thesis by (cases "wr = e") (simp_all only: append_take_drop_id if_False if_True simp_thms)
  qed
  have split: "recs = take s recs @ ?fs @ drop e recs"
    using b(1) by (metis append_take_drop_id drop_drop le_add_diff_inverse2)
  let ?Q = "\<lambda>r. \<not> (lk_file r = f \<and> rm r)"
  have keep: "filter ?Q (take s recs) = take s recs" "filter ?Q (drop e recs) = drop e recs"
    unfolding b(3,5) by (auto intro!: filter_cong)
  have mid: "filter ?Q ?fs = filter (\<lambda>r. \<not> rm r) ?fs"
    unfolding b(4) by (auto intro: filter_cong)
  have "filter ?Q recs = take s recs @ filter (\<lambda>r. \<not> rm r) ?fs @ drop e recs"
    using arg_cong [OF split, of "filter ?Q"] unfolding filter_append keep mid .
  moreover have "filter rm ?fs = filter (\<lambda>r. lk_file r = f \<and> rm r) recs"
    unfolding b(4) by (simp add: conj_commute)
  ultimately show ?thesis
    unfolding compact_def c Let_def prod.case vec cnt by simp
qed

lemma sorted_insert_key:
  fixes k :: "'a \<Rightarrow> 'b::linorder"
  assumes s: "sorted (map k xs)"
  shows "sorted (map k (takeWhile (\<lambda>x. k x < k r) xs @ r # dropWhile (\<lambda>x. k x < k r) xs))"
proof -
  let ?P = "\<lambda>x. k x < k r"
  have hi: "\<forall>x\<in>set (dropWhile ?P xs). k r \<le> k x"
    using s by (induction xs) (auto simp: not_less intro: order_trans)
  have lo: "\<forall>x\<in>set (takeWhile ?P xs). k x \<le> k r"
    by (auto dest!: set_takeWhileD)
  have "sorted (map k (takeWhile ?P xs @ dropWhile ?P xs))" using s by simp
  then have "sorted (map k (takeWhile ?P xs))" "sorted (map k (dropWhile ?P xs))"
    unfolding map_append sorted_append by simp_all
  then show ?thesis
    using hi lo by (force simp: sorted_append)
qed

lemma insert_record_sorted: "records_sorted recs \<Longrightarrow> records_sorted (insert_record r recs)"
  unfolding insert_record_def insert_at_def take_partition_point drop_partition_point
  by (rule sorted_insert_key)

lemma insert_opt_facts:
  "set (insert_opt ro recs) = set_option ro \<union> set recs"
  "length (insert_opt ro recs) = length recs + option_count ro"
  "records_sorted recs \<Longrightarrow> records_sorted (insert_opt ro recs)"
    apply (auto simp: insert_opt_def option_count_def insert_record_def split: option.splits) [2]
  by (simp add: insert_opt_def insert_record_sorted split: option.splits)

lemma distinct_insert_at: "distinct (insert_at i x xs) \<longleftrightarrow> x \<notin> set xs \<and> distinct xs"
proof -
  have "set xs = set (take i xs) \<union> set (drop i xs)" by (metis append_take_drop_id set_append)
  moreover have "distinct xs \<longleftrightarrow> distinct (take i xs) \<and> distinct (drop i xs) \<and>
      set (take i xs) \<inter> set (drop i xs) = {}"
    by (metis append_take_drop_id distinct_append)
  ultimately show ?thesis unfolding insert_at_def distinct_append distinct.simps(2) list.set(2) by blast
qed

lemma distinct_insert_opt:
  "distinct recs \<Longrightarrow> set_option ro \<inter> set recs = {} \<Longrightarrow> distinct (insert_opt ro recs)"
  by (auto simp: insert_opt_def insert_record_def distinct_insert_at split: option.splits)

lemma sorted_filter_key: "records_sorted recs \<Longrightarrow> records_sorted (filter P recs)"
  by (simp add: sorted_filter)

section \<open>Fragments\<close>

definition cut_left :: "lock_range \<Rightarrow> lock_record \<Rightarrow> lock_record" where
  "cut_left req r = r\<lparr> lk_range := LockRange (rstart (lk_range r)) (OffsetEnd (rstart req)) \<rparr>"

definition cut_right :: "lock_range \<Rightarrow> lock_record \<Rightarrow> lock_record" where
  "cut_right req r = r\<lparr> lk_range := LockRange (case rend req of OffsetEnd e \<Rightarrow> e | Eof \<Rightarrow> 0) (rend (lk_range r)) \<rparr>"

text \<open>\<open>g\<close> is one of the at most two pieces of \<open>r\<close> left over outside the requested range.\<close>

definition fragment_of :: "lock_range \<Rightarrow> lock_record \<Rightarrow> lock_record \<Rightarrow> bool" where
  "fragment_of req r g \<longleftrightarrow>
     rstart (lk_range r) < rstart req \<and> g = cut_left req r \<or>
     rend req < rend (lk_range r) \<and> g = cut_right req r"

lemma fragment_fields:
  "fragment_of req r g \<Longrightarrow> lk_file g = lk_file r \<and> lk_owner g = lk_owner r \<and> lk_type g = lk_type r"
  by (auto simp: fragment_of_def cut_left_def cut_right_def)

lemma fragment_nonempty: "fragment_of req r g \<Longrightarrow> nonempty (lk_range g)"
  by (auto simp: fragment_of_def cut_left_def cut_right_def range_defs split: lock_range_end.splits)

lemma fragment_covers:
  assumes "fragment_of req r g" "overlaps (lk_range r) req" "covers (lk_range g) b"
  shows "covers (lk_range r) b \<and> \<not> covers req b"
  using assms by (auto simp: fragment_of_def cut_left_def cut_right_def range_defs
      split: lock_range_end.splits)

lemma fragment_exists:
  assumes "covers (lk_range r) b" "\<not> covers req b"
  shows "\<exists>g. fragment_of req r g \<and> covers (lk_range g) b"
proof (cases "b < rstart req")
  case True
  then have "fragment_of req r (cut_left req r) \<and> covers (lk_range (cut_left req r)) b"
    using assms(1) by (auto simp: fragment_of_def cut_left_def range_defs)
  then show ?thesis by blast
next
  case False
  then have "fragment_of req r (cut_right req r) \<and> covers (lk_range (cut_right req r)) b"
    using assms by (auto simp: fragment_of_def cut_right_def range_defs split: lock_range_end.splits)
  then show ?thesis by blast
qed

lemma fragment_apart:
  assumes "fragment_of req r g" "fragment_of req s h" "g \<noteq> h" "r = s" "nonempty req"
  shows "\<not> near (lk_range g) (lk_range h)"
  using assms by (auto simp: fragment_of_def cut_left_def cut_right_def near_def range_defs
      split: lock_range_end.splits)

section \<open>The fragment scan\<close>

definition cuts :: "lock_owner \<Rightarrow> advisory_lock_type option \<Rightarrow> lock_range \<Rightarrow> lock_record \<Rightarrow> bool" where
  "cuts owner lt req r \<longleftrightarrow> lk_owner r = owner \<and> overlaps (lk_range r) req \<and> lt \<noteq> Some (lk_type r)"

lemma split_step_left:
  "left_fragment (split_step owner lt req st r) =
     (if cuts owner lt req r \<and> rstart (lk_range r) < rstart req then Some (cut_left req r)
      else left_fragment st)"
  by (auto simp: split_step_def split_left_def split_right_def cuts_def cut_left_def Let_def
      split: option.splits lock_range_end.splits)

lemma split_step_right:
  "right_fragment (split_step owner lt req st r) =
     (if cuts owner lt req r \<and> rend req < rend (lk_range r) then Some (cut_right req r)
      else right_fragment st)"
  by (cases "rend req") (auto simp: split_step_def split_left_def split_right_def cuts_def cut_right_def
      Let_def split: option.splits)

lemma foldl_last_option:
  assumes step: "\<And>st r. get (step st r) = (if P r then Some (g r) else get st)"
    and uniq: "\<And>r s. r \<in> set xs \<Longrightarrow> s \<in> set xs \<Longrightarrow> P r \<Longrightarrow> P s \<Longrightarrow> r = s"
    and init: "get st0 = None"
  shows "set_option (get (foldl step st0 xs)) = {g r | r. r \<in> set xs \<and> P r}"
  using uniq
proof (induction xs rule: rev_induct)
  case (snoc x xs)
  show ?case
  proof (cases "P x")
    case True
    then have "{g r | r. r \<in> set (xs @ [x]) \<and> P r} = {g x}" using snoc.prems by auto
    then show ?thesis using True by (simp add: step)
  next
    case False
    then show ?thesis using snoc by (auto simp: step)
  qed
qed (simp add: init)

text \<open>What the scans use of the invariant: one owner's records are non-empty and kept apart.\<close>

definition apart :: "lock_record \<Rightarrow> lock_record \<Rightarrow> bool" where
  "apart r s \<longleftrightarrow> \<not> overlaps (lk_range r) (lk_range s) \<and>
     (lk_type r = lk_type s \<longrightarrow> \<not> touches_or_overlaps (lk_range r) (lk_range s))"

definition owner_ok :: "lock_owner \<Rightarrow> lock_record list \<Rightarrow> bool" where
  "owner_ok owner fs \<longleftrightarrow>
     (\<forall>r\<in>set fs. nonempty (lk_range r)) \<and>
     (\<forall>r\<in>set fs. \<forall>s\<in>set fs. r \<noteq> s \<and> lk_owner r = owner \<and> lk_owner s = owner \<longrightarrow> apart r s)"

lemma owner_okD:
  assumes "owner_ok owner fs" "r \<in> set fs" "s \<in> set fs" "lk_owner r = owner" "lk_owner s = owner"
  shows "nonempty (lk_range r)" "nonempty (lk_range s)"
    "covers (lk_range r) b \<Longrightarrow> covers (lk_range s) b \<Longrightarrow> r = s"
    "lk_type r = lk_type s \<Longrightarrow> near (lk_range r) (lk_range s) \<Longrightarrow> r = s"
proof -
  show n: "nonempty (lk_range r)" "nonempty (lk_range s)" using assms by (auto simp: owner_ok_def)
  show "covers (lk_range r) b \<Longrightarrow> covers (lk_range s) b \<Longrightarrow> r = s"
    using assms overlaps_covers [OF n] unfolding owner_ok_def apart_def by blast
  show "lk_type r = lk_type s \<Longrightarrow> near (lk_range r) (lk_range s) \<Longrightarrow> r = s"
    using assms touches_near [OF n] unfolding owner_ok_def apart_def by blast
qed

lemma split_scan_left:
  assumes ok: "owner_ok owner fs"
  shows "set_option (left_fragment (split_scan owner lt req fs)) =
    {cut_left req r | r. r \<in> set fs \<and> cuts owner lt req r \<and> rstart (lk_range r) < rstart req}"
  unfolding split_scan_def
proof (rule foldl_last_option [where get = left_fragment and g = "cut_left req"])
  fix r s
  assume rs: "r \<in> set fs" "s \<in> set fs" "cuts owner lt req r \<and> rstart (lk_range r) < rstart req"
    "cuts owner lt req s \<and> rstart (lk_range s) < rstart req"
  then have "covers (lk_range r) (rstart req)" "covers (lk_range s) (rstart req)"
    by (auto simp: cuts_def range_defs split: lock_range_end.splits)
  then show "r = s" using owner_okD(3) [OF ok rs(1,2)] rs by (auto simp: cuts_def)
qed (simp_all add: split_step_left)

lemma split_scan_right:
  assumes ok: "owner_ok owner fs"
  shows "set_option (right_fragment (split_scan owner lt req fs)) =
    {cut_right req r | r. r \<in> set fs \<and> cuts owner lt req r \<and> rend req < rend (lk_range r)}"
  unfolding split_scan_def
proof (rule foldl_last_option [where get = right_fragment and g = "cut_right req"])
  fix r s
  assume rs: "r \<in> set fs" "s \<in> set fs" "cuts owner lt req r \<and> rend req < rend (lk_range r)"
    "cuts owner lt req s \<and> rend req < rend (lk_range s)"
  let ?e = "case rend req of OffsetEnd e \<Rightarrow> e | Eof \<Rightarrow> 0"
  have "covers (lk_range r) ?e" "covers (lk_range s) ?e"
    using rs by (auto simp: cuts_def range_defs split: lock_range_end.splits)
  then show "r = s" using owner_okD(3) [OF ok rs(1,2)] rs by (auto simp: cuts_def)
qed (simp_all add: split_step_right)

lemma split_scan_fragments:
  assumes "owner_ok owner fs"
  shows "set_option (left_fragment (split_scan owner lt req fs))
       \<union> set_option (right_fragment (split_scan owner lt req fs))
     = {g. \<exists>r\<in>set fs. cuts owner lt req r \<and> fragment_of req r g}"
  unfolding split_scan_left [OF assms] split_scan_right [OF assms] by (auto simp: fragment_of_def)

lemma split_scan_type_changed:
  "type_changed (split_scan owner (Some ty) req fs) \<longleftrightarrow>
     (\<exists>r\<in>set fs. lk_owner r = owner \<and> overlaps (lk_range r) req \<and> lk_type r \<noteq> ty)"
proof -
  have step: "type_changed (split_step owner (Some ty) req st r) \<longleftrightarrow>
      type_changed st \<or> lk_owner r = owner \<and> overlaps (lk_range r) req \<and> lk_type r \<noteq> ty" for st r
    by (auto simp: split_step_def split_left_def split_right_def Let_def split: lock_range_end.splits)
  show ?thesis
    unfolding split_scan_def by (induction fs rule: rev_induct) (auto simp: step)
qed

section \<open>Coalescing\<close>

text \<open>The owner's records of the requested type that touch the request: what the loop absorbs.\<close>

definition absorbs :: "lock_owner \<Rightarrow> advisory_lock_type \<Rightarrow> lock_range \<Rightarrow> lock_record \<Rightarrow> bool" where
  "absorbs owner ty req r \<longleftrightarrow> lk_owner r = owner \<and> lk_type r = ty \<and> near (lk_range r) req"

text \<open>The loop invariant: between the request and the request with everything it absorbs.\<close>

definition merge_inv ::
  "lock_owner \<Rightarrow> advisory_lock_type \<Rightarrow> lock_range \<Rightarrow> lock_record list \<Rightarrow> lock_range \<Rightarrow> bool" where
  "merge_inv owner ty req fs m \<longleftrightarrow>
     nonempty m \<and> (\<forall>b. covers req b \<longrightarrow> covers m b) \<and>
     (\<forall>b. covers m b \<longrightarrow> covers req b \<or> (\<exists>r\<in>set fs. absorbs owner ty req r \<and> covers (lk_range r) b))"

lemma near_mono: "near a b \<Longrightarrow> (\<And>x. covers b x \<Longrightarrow> covers c x) \<Longrightarrow> near a c"
  unfolding near_def by blast

lemma merge_inv_absorbs:
  assumes ok: "owner_ok owner fs" and inv: "merge_inv owner ty req fs m"
    and r: "r \<in> set fs" "lk_owner r = owner" "lk_type r = ty" "near (lk_range r) m"
  shows "absorbs owner ty req r"
proof -
  obtain x y where xy: "covers (lk_range r) x" "covers m y" "\<bar>x - y\<bar> \<le> 1"
    using r(4) unfolding near_def by blast
  from inv xy(2) consider "covers req y"
    | s where "s \<in> set fs" "absorbs owner ty req s" "covers (lk_range s) y"
    unfolding merge_inv_def by blast
  then show ?thesis
  proof cases
    case 1
    then show ?thesis using r xy unfolding absorbs_def near_def by blast
  next
    case 2
    then have "near (lk_range r) (lk_range s)" using xy unfolding near_def by blast
    then have "r = s" using owner_okD(4) [OF ok r(1) 2(1)] r 2(2) unfolding absorbs_def by blast
    then show ?thesis using 2 by simp
  qed
qed

lemma merge_inv_union:
  assumes ok: "owner_ok owner fs" and inv: "merge_inv owner ty req fs m"
    and r: "r \<in> set fs" "lk_owner r = owner" "lk_type r = ty" "absorbs owner ty req r"
    and x: "nonempty x" "near m x" "\<And>b. covers x b \<Longrightarrow> covers (lk_range r) b"
  shows "merge_inv owner ty req fs (range_union m x)"
proof -
  have n: "nonempty m" using inv by (simp add: merge_inv_def)
  show ?thesis
    using inv r x(3) nonempty_union [OF n] unfolding merge_inv_def covers_union [OF n x(1,2)] by blast
qed

lemma merge_inv_step:
  assumes "owner_ok owner fs" "merge_inv owner ty req fs m" "r \<in> set fs"
  shows "merge_inv owner ty req fs (coalesce_step owner ty m r)"
proof (cases "lk_owner r = owner \<and> lk_type r = ty \<and> touches_or_overlaps (lk_range r) m")
  case True
  have n: "nonempty (lk_range r)" "nonempty m" using assms by (auto simp: owner_ok_def merge_inv_def)
  have nr: "near (lk_range r) m" using True touches_near [OF n] by blast
  have "merge_inv owner ty req fs (range_union m (lk_range r))"
    using merge_inv_union [OF assms(1,2,3) _ _ _ n(1)] merge_inv_absorbs [OF assms(1,2,3)] True nr
      near_sym by blast
  then show ?thesis using True by (simp add: coalesce_step_def)
next
  case False
  then show ?thesis using assms(2) by (auto simp: coalesce_step_def)
qed

lemma merge_inv_pass:
  assumes "owner_ok owner fs" "merge_inv owner ty req fs m"
  shows "merge_inv owner ty req fs (coalesce_pass owner ty fs m)"
proof -
  have "merge_inv owner ty req fs (foldl (coalesce_step owner ty) m xs)" if "set xs \<subseteq> set fs" for xs
    using that by (induction xs rule: rev_induct) (auto intro: merge_inv_step assms)
  then show ?thesis by (simp add: coalesce_pass_def)
qed

lemma coalesce_fixpoint:
  assumes "owner_ok owner fs" "merge_inv owner ty req fs m"
  shows "merge_inv owner ty req fs (coalesce owner ty fs m) \<and>
    coalesce_pass owner ty fs (coalesce owner ty fs m) = coalesce owner ty fs m"
  using assms
proof (induction owner ty fs m rule: coalesce.induct)
  case (1 owner ty fs m)
  show ?case
  proof (cases "coalesce_pass owner ty fs m = m")
    case True
    then show ?thesis using 1 by (simp add: coalesce.simps [of owner ty fs m])
  next
    case False
    then show ?thesis
      using 1(1) [OF refl False 1(2) merge_inv_pass [OF 1(2,3)]]
      by (simp add: coalesce.simps [of owner ty fs m])
  qed
qed

lemma coalesce_pass_fix_step:
  "coalesce_pass owner ty xs m = m \<Longrightarrow> r \<in> set xs \<Longrightarrow> coalesce_step owner ty m r = m"
proof (induction xs)
  case (Cons x xs)
  let ?m = "coalesce_step owner ty m x"
  have "coalesce_pass owner ty xs ?m = m" using Cons.prems(1) by (simp add: coalesce_pass_def)
  then have "?m = m"
    using coalesce_pass_grows [of owner ty xs ?m] coalesce_step_grows(1) [of owner ty m x]
      coalesce_step_grows(2) [of m owner ty x]
    by (auto intro!: lock_range.expand)
  then show ?case using Cons by (auto simp: coalesce_pass_def)
qed simp

lemma coalesce_covers:
  assumes ok: "owner_ok owner fs" and inv: "merge_inv owner ty req fs m"
  shows "nonempty (coalesce owner ty fs m)"
    and "covers (coalesce owner ty fs m) b \<longleftrightarrow>
      covers req b \<or> (\<exists>r\<in>set fs. absorbs owner ty req r \<and> covers (lk_range r) b)"
proof -
  let ?c = "coalesce owner ty fs m"
  have inv': "merge_inv owner ty req fs ?c" and fp: "coalesce_pass owner ty fs ?c = ?c"
    using coalesce_fixpoint [OF assms] by auto
  show n: "nonempty ?c" using inv' by (simp add: merge_inv_def)
  have "covers ?c b" if "r \<in> set fs" "absorbs owner ty req r" "covers (lk_range r) b" for r
  proof -
    have nr: "nonempty (lk_range r)" using ok that(1) by (auto simp: owner_ok_def)
    have near: "near (lk_range r) ?c"
      using that(2) inv' near_mono unfolding absorbs_def merge_inv_def by blast
    then have "range_union ?c (lk_range r) = ?c"
      using coalesce_pass_fix_step [OF fp that(1)] that(2) touches_near [OF nr n]
      by (simp add: coalesce_step_def absorbs_def)
    then show ?thesis
      using covers_union [OF n nr, of b] that(3) near near_sym by metis
  qed
  then show "covers ?c b \<longleftrightarrow> covers req b \<or> (\<exists>r\<in>set fs. absorbs owner ty req r \<and> covers (lk_range r) b)"
    using inv' unfolding merge_inv_def by blast
qed

lemma split_scan_merge_inv:
  assumes ok: "owner_ok owner fs" and req: "nonempty req"
  shows "merge_inv owner ty req fs (merged_request (split_scan owner (Some ty) req fs))"
proof -
  let ?I = "merge_inv owner ty req fs"
  have step: "?I (merged_request (split_step owner (Some ty) req st r))"
    if I: "?I (merged_request st)" and r: "r \<in> set fs" for st r
  proof (cases "lk_owner r = owner \<and> overlaps (lk_range r) req \<and> lk_type r = ty")
    case False
    then show ?thesis using I
      by (auto simp: split_step_def split_left_def split_right_def Let_def split: lock_range_end.splits)
  next
    case True
    then have ab: "absorbs owner ty req r"
      using ok r req overlaps_covers [of "lk_range r" req] unfolding absorbs_def near_def owner_ok_def
      by (metis abs_zero diff_self zero_le_one)
    have frag: "?I (range_union m (lk_range g))" if g: "fragment_of req r g" and m: "?I m" for g m
    proof (rule merge_inv_union [OF ok m r _ _ ab fragment_nonempty [OF g]])
      show "near m (lk_range g)"
      proof -
        have "touches_or_overlaps req (lk_range g)"
          using g req by (auto simp: fragment_of_def cut_left_def cut_right_def range_defs
              split: lock_range_end.splits)
        then have "near req (lk_range g)" using touches_near [OF req fragment_nonempty [OF g]] by blast
        then show ?thesis using m near_mono near_sym unfolding merge_inv_def by metis
      qed
      show "covers (lk_range r) b" if "covers (lk_range g) b" for b
        using fragment_covers [OF g _ that] True by blast
    qed (use True in auto)
    have L: "?I (merged_request (split_left (Some ty) req r st))"
      using I frag [of "cut_left req r"] True
      by (auto simp: split_left_def fragment_of_def cut_left_def Let_def)
    have "?I (merged_request (split_right (Some ty) req r (split_left (Some ty) req r st)))"
      using L frag [of "cut_right req r"] True
      by (auto simp: split_right_def fragment_of_def cut_right_def Let_def split: lock_range_end.splits)
    then show ?thesis using True by (simp add: split_step_def Let_def)
  qed
  have "?I (merged_request (foldl (split_step owner (Some ty) req) st xs))"
    if "set xs \<subseteq> set fs" "?I (merged_request st)" for st xs
    using that by (induction xs arbitrary: st) (auto intro: step)
  moreover have "?I req" using req by (simp add: merge_inv_def)
  ultimately show ?thesis unfolding split_scan_def by simp
qed

end
