(* ===== verification/Lock_Refinement.thy ===== *)
theory Lock_Refinement
  imports Lock_Scan
begin

text \<open>
  Correctness of the advisory lock manager.  The record vector represents a map from file, owner
  and byte to the lock held there (\<open>lock_at\<close>); the well-formedness invariant \<open>locks_wf\<close> (sorted,
  the records of one owner disjoint and coalesced, no conflict between owners) is preserved, and
  \<open>set_lock\<close> is the pointwise update of the map.
\<close>

section \<open>The invariant and the records after a successful call\<close>

definition locks_wf :: "lock_record list \<Rightarrow> bool" where
  "locks_wf recs \<longleftrightarrow>
     records_sorted recs \<and> distinct recs \<and> length recs \<le> MAX_ADVISORY_LOCK_RECORDS \<and>
     (\<forall>r\<in>set recs. nonempty (lk_range r) \<and> 0 \<le> rstart (lk_range r)) \<and>
     (\<forall>r\<in>set recs. \<forall>s\<in>set recs.
        r \<noteq> s \<and> lk_file r = lk_file s \<and> lk_owner r = lk_owner s \<longrightarrow> apart r s) \<and>
     (\<forall>r\<in>set recs. \<forall>s\<in>set recs.
        lk_file r = lk_file s \<longrightarrow> \<not> blocks r (lk_owner s) (lk_type s) (lk_range s))"

definition merged_range ::
  "lock_record list \<Rightarrow> lock_owner \<Rightarrow> advisory_lock_type option \<Rightarrow> lock_range \<Rightarrow> lock_range" where
  "merged_range fs owner lt req =
     (case lt of Some ty \<Rightarrow> coalesce owner ty fs (merged_request (split_scan owner lt req fs))
               | None \<Rightarrow> merged_request (split_scan owner lt req fs))"

definition new_record ::
  "file_id \<Rightarrow> lock_record list \<Rightarrow> lock_owner \<Rightarrow> advisory_lock_type option \<Rightarrow> lock_range \<Rightarrow> lock_record option" where
  "new_record file fs owner lt req =
     map_option (\<lambda>ty. \<lparr> lk_file = file, lk_owner = owner, lk_type = ty,
                        lk_range = merged_range fs owner lt req \<rparr>) lt"

definition committed ::
  "lock_record list \<Rightarrow> file_id \<Rightarrow> lock_owner \<Rightarrow> advisory_lock_type option \<Rightarrow> lock_range \<Rightarrow> lock_record list" where
  "committed recs file owner lt req =
     (let fs = filter (\<lambda>r. lk_file r = file) recs;
          st = split_scan owner lt req fs;
          rm = should_remove owner lt req (merged_range fs owner lt req)
      in insert_opt (right_fragment st)
           (insert_opt (new_record file fs owner lt req)
             (insert_opt (left_fragment st) (filter (\<lambda>r. \<not> (lk_file r = file \<and> rm r)) recs))))"

definition lock_blocked ::
  "lock_record list \<Rightarrow> file_id \<Rightarrow> lock_owner \<Rightarrow> advisory_lock_type option \<Rightarrow> lock_range \<Rightarrow> bool" where
  "lock_blocked recs file owner lt req \<longleftrightarrow>
     (\<exists>ty r. lt = Some ty \<and> r \<in> set recs \<and> lk_file r = file \<and> blocks r owner ty req)"

lemma owner_ok_file:
  "locks_wf recs \<Longrightarrow> owner_ok owner (filter (\<lambda>r. lk_file r = file) recs)"
  unfolding locks_wf_def owner_ok_def by simp

lemma cuts_removed: "cuts owner lt req r \<Longrightarrow> should_remove owner lt req mg r"
  by (simp add: cuts_def should_remove_def)

lemma ensure_capacity_cases:
  "ensure_capacity reserve m n = (m', x) \<Longrightarrow>
     lock_records m' = lock_records m \<and> (x = Ok () \<or> (x = Err ENOLCK \<and> m' = m))"
  by (auto simp: ensure_capacity_def split: if_splits option.splits)

lemma set_lock_unfold:
  assumes "records_sorted (lock_records m)"
  shows "set_lock reserve m file owner lt req =
    (let recs = lock_records m;
         fs = filter (\<lambda>r. lk_file r = file) recs;
         st = split_scan owner lt req fs;
         rm = should_remove owner lt req (merged_range fs owner lt req);
         new = new_record file fs owner lt req;
         removed = length (filter rm fs);
         pieces = option_count (left_fragment st) + option_count lt + option_count (right_fragment st);
         final_len = length recs - removed + pieces
     in if lock_blocked recs file owner lt req then (m, Err EAGAIN)
        else if removed = 0 \<and> lt = None then (m, Ok lock_mutation_default)
        else if removed = 1 \<and> pieces = 1 \<and> left_fragment st = None \<and> right_fragment st = None \<and>
                new \<noteq> None \<and> List.find rm fs = new then (m, Ok lock_mutation_default)
        else if length recs < removed \<or> USIZE_MAX < final_len then (m, Err ENOLCK)
        else if MAX_ADVISORY_LOCK_RECORDS < final_len then (m, Err ENOLCK)
        else (case ensure_capacity reserve m final_len of
                (m1, Inl err) \<Rightarrow> (m1, Err err)
              | (m1, Inr _) \<Rightarrow>
                  (m1\<lparr> lock_records := committed recs file owner lt req \<rparr>,
                   Ok \<lparr> changed = True,
                        may_unblock = (lt = None \<and> removed \<noteq> 0) \<or> type_changed st \<rparr>)))"
proof -
  obtain s e where b: "file_bounds (lock_records m) file = (s, e)" by fastforce
  note fs = file_bounds_split(4) [OF assms b]
  have blk: "(case lt of Some ty \<Rightarrow> list_ex (\<lambda>r. blocks r owner ty req)
        (filter (\<lambda>r. lk_file r = file) (lock_records m)) | None \<Rightarrow> False)
    = lock_blocked (lock_records m) file owner lt req"
    by (auto simp: lock_blocked_def list_ex_iff split: option.splits)
  show ?thesis
    unfolding set_lock_def Let_def b prod.case fs blk compact_spec [OF assms b] fst_conv
      merged_range_def [symmetric] new_record_def [symmetric]
    unfolding committed_def Let_def
    by (rule refl)
qed

lemma committed_noop_unlock:
  assumes "locks_wf recs" "filter (should_remove owner None req mg) (filter (\<lambda>r. lk_file r = file) recs) = []"
    "mg = merged_range (filter (\<lambda>r. lk_file r = file) recs) owner None req"
  shows "set (committed recs file owner None req) = set recs"
proof -
  let ?fs = "filter (\<lambda>r. lk_file r = file) recs"
  have none: "\<not> should_remove owner None req mg r" if "r \<in> set recs" "lk_file r = file" for r
    using assms(2) that by (auto simp: filter_empty_conv)
  have "set_option (left_fragment (split_scan owner None req ?fs))
      \<union> set_option (right_fragment (split_scan owner None req ?fs)) = {}"
    unfolding split_scan_fragments [OF owner_ok_file [OF assms(1)]] using none cuts_removed by fastforce
  then show ?thesis
    using none by (auto simp: committed_def Let_def insert_opt_facts new_record_def assms(3) [symmetric])
qed

lemma committed_noop_same:
  assumes "length (filter rm fs) = 1" "List.find rm fs = Some new"
    "fs = filter (\<lambda>r. lk_file r = file) recs"
  shows "set (filter (\<lambda>r. \<not> (lk_file r = file \<and> rm r)) recs) \<union> {new} = set recs"
proof -
  obtain x where x: "filter rm fs = [x]" using assms(1) by (metis One_nat_def length_0_conv length_Suc_conv)
  have "new \<in> set (filter rm fs)" using assms(2) by (auto simp: find_Some_iff)
  then have "set (filter rm fs) = {new}" using x by simp
  moreover have "set (filter rm fs) = {r \<in> set recs. lk_file r = file \<and> rm r}"
    unfolding assms(3) by auto
  ultimately have "{r \<in> set recs. lk_file r = file \<and> rm r} = {new}" by simp
  then show ?thesis by auto
qed

lemma committed_length:
  "length (committed recs file owner lt req) =
     length recs - length (filter (should_remove owner lt req
         (merged_range (filter (\<lambda>r. lk_file r = file) recs) owner lt req)) (filter (\<lambda>r. lk_file r = file) recs)) +
     (option_count (left_fragment (split_scan owner lt req (filter (\<lambda>r. lk_file r = file) recs)))
      + option_count lt
      + option_count (right_fragment (split_scan owner lt req (filter (\<lambda>r. lk_file r = file) recs))))"
  (is "_ = length recs - length (filter ?rm ?fs) + _")
proof -
  have "length (filter ?rm ?fs) = length (filter (\<lambda>r. lk_file r = file \<and> ?rm r) recs)"
    by (simp add: conj_commute)
  moreover have "option_count (new_record file ?fs owner lt req) = option_count lt"
    by (simp add: new_record_def option_count_def)
  ultimately show ?thesis
    using sum_length_filter_compl [of "\<lambda>r. lk_file r = file \<and> ?rm r" recs]
    unfolding committed_def Let_def insert_opt_facts by linarith
qed

lemma set_lock_result:
  assumes wf: "locks_wf (lock_records m)"
    and eq: "set_lock reserve m file owner lt req = (m', x)"
  shows "x = Err EAGAIN \<longleftrightarrow> lock_blocked (lock_records m) file owner lt req"
    and "x = Err e \<Longrightarrow> (e = EAGAIN \<or> e = ENOLCK) \<and> m' = m"
    and "x = Ok mu \<Longrightarrow> set (lock_records m') = set (committed (lock_records m) file owner lt req)"
    and "x = Ok mu \<Longrightarrow> lock_records m' = lock_records m \<or>
      lock_records m' = committed (lock_records m) file owner lt req \<and>
      length (lock_records m') \<le> MAX_ADVISORY_LOCK_RECORDS"
    and "x = Ok mu \<Longrightarrow> lock_records m' \<noteq> lock_records m \<Longrightarrow>
      may_unblock mu \<longleftrightarrow>
        (lt = None \<and> filter (should_remove owner lt req
            (merged_range (filter (\<lambda>r. lk_file r = file) (lock_records m)) owner lt req))
          (filter (\<lambda>r. lk_file r = file) (lock_records m)) \<noteq> []) \<or>
        type_changed (split_scan owner lt req (filter (\<lambda>r. lk_file r = file) (lock_records m)))"
proof -
  define recs where "recs = lock_records m"
  define fs where "fs = filter (\<lambda>r. lk_file r = file) recs"
  define st where "st = split_scan owner lt req fs"
  define rm where "rm = should_remove owner lt req (merged_range fs owner lt req)"
  define new where "new = new_record file fs owner lt req"
  define n where "n = length recs - length (filter rm fs) +
    (option_count (left_fragment st) + option_count lt + option_count (right_fragment st))"
  note defs = recs_def fs_def st_def rm_def new_def n_def
  have sorted: "records_sorted (lock_records m)" using wf by (simp add: locks_wf_def)
  have com: "committed recs file owner lt req = insert_opt (right_fragment st) (insert_opt new
      (insert_opt (left_fragment st) (filter (\<lambda>r. \<not> (lk_file r = file \<and> rm r)) recs)))"
    by (simp add: committed_def Let_def st_def rm_def new_def fs_def)
  have len: "length (committed recs file owner lt req) = n"
    unfolding committed_length n_def st_def rm_def fs_def ..
  have unl: "set (committed recs file owner lt req) = set recs" if "filter rm fs = []" "lt = None"
    using committed_noop_unlock [OF wf] that unfolding defs by auto
  have same: "set (committed recs file owner lt req) = set recs"
    if a: "length (filter rm fs) = 1" "left_fragment st = None" "right_fragment st = None"
      "new \<noteq> None" "List.find rm fs = new"
  proof -
    obtain y where y: "new = Some y" using a(4) by blast
    show ?thesis
      using committed_noop_same [of rm fs y "file" recs, OF a(1) _ fs_def] a(5)
      unfolding com insert_opt_facts a(2,3) y by auto
  qed
  note unf = eq [unfolded set_lock_unfold [OF sorted] Let_def, folded recs_def, folded fs_def,
      folded st_def rm_def new_def, folded n_def]
  show "x = Err EAGAIN \<longleftrightarrow> lock_blocked (lock_records m) file owner lt req"
    using unf by (auto simp: recs_def split: if_splits prod.splits sum.splits dest: ensure_capacity_cases)
  show "x = Err e \<Longrightarrow> (e = EAGAIN \<or> e = ENOLCK) \<and> m' = m"
    using unf by (auto simp: recs_def split: if_splits prod.splits sum.splits dest: ensure_capacity_cases)
  show "x = Ok mu \<Longrightarrow> set (lock_records m') = set (committed (lock_records m) file owner lt req)"
    using unf unl same by (auto simp: recs_def split: if_splits prod.splits sum.splits)
  show "x = Ok mu \<Longrightarrow> lock_records m' = lock_records m \<or>
      lock_records m' = committed (lock_records m) file owner lt req \<and>
      length (lock_records m') \<le> MAX_ADVISORY_LOCK_RECORDS"
    using unf len by (auto simp: recs_def split: if_splits prod.splits sum.splits)
  show "x = Ok mu \<Longrightarrow> lock_records m' \<noteq> lock_records m \<Longrightarrow>
      may_unblock mu \<longleftrightarrow>
        (lt = None \<and> filter (should_remove owner lt req
            (merged_range (filter (\<lambda>r. lk_file r = file) (lock_records m)) owner lt req))
          (filter (\<lambda>r. lk_file r = file) (lock_records m)) \<noteq> []) \<or>
        type_changed (split_scan owner lt req (filter (\<lambda>r. lk_file r = file) (lock_records m)))"
    unfolding recs_def [symmetric] unfolding fs_def [symmetric]
    unfolding st_def [symmetric] rm_def [symmetric]
    using unf recs_def by (auto split: if_splits prod.splits sum.splits)
qed

lemma merged_range_covers:
  assumes "owner_ok owner fs" "nonempty req"
  shows "nonempty (merged_range fs owner (Some ty) req)"
    and "covers (merged_range fs owner (Some ty) req) b \<longleftrightarrow>
      covers req b \<or> (\<exists>r\<in>set fs. absorbs owner ty req r \<and> covers (lk_range r) b)"
  unfolding merged_range_def option.case
  by (rule coalesce_covers [OF assms(1) split_scan_merge_inv [OF assms]])+

lemma should_remove_iff:
  assumes ok: "owner_ok owner fs" and req: "nonempty req" and r: "r \<in> set fs"
  shows "should_remove owner lt req (merged_range fs owner lt req) r \<longleftrightarrow>
    lk_owner r = owner \<and> (overlaps (lk_range r) req \<or> (\<exists>ty. lt = Some ty \<and> absorbs owner ty req r))"
proof (cases lt)
  case None
  then show ?thesis by (simp add: should_remove_def)
next
  case (Some ty)
  let ?mg = "merged_range fs owner (Some ty) req"
  have inv: "merge_inv owner ty req fs ?mg"
    using merged_range_covers [OF ok req, of ty] unfolding merge_inv_def by blast
  have n: "nonempty (lk_range r)" "nonempty ?mg"
    using ok r inv by (auto simp: owner_ok_def merge_inv_def)
  have "lk_owner r = owner \<and> lk_type r = ty \<and> touches_or_overlaps (lk_range r) ?mg \<longleftrightarrow> absorbs owner ty req r"
    using merge_inv_absorbs [OF ok inv r] near_mono [of "lk_range r" req ?mg] inv
    unfolding touches_near [OF n] absorbs_def merge_inv_def by blast
  then show ?thesis using Some by (auto simp: should_remove_def)
qed

text \<open>The three parts of the vector after the commit.\<close>

definition kept :: "file_id \<Rightarrow> lock_owner \<Rightarrow> advisory_lock_type option \<Rightarrow> lock_range \<Rightarrow> lock_record \<Rightarrow> bool" where
  "kept file owner lt req r \<longleftrightarrow>
     \<not> (lk_file r = file \<and> lk_owner r = owner \<and>
        (overlaps (lk_range r) req \<or> (\<exists>ty. lt = Some ty \<and> absorbs owner ty req r)))"

definition left_over ::
  "lock_record list \<Rightarrow> file_id \<Rightarrow> lock_owner \<Rightarrow> advisory_lock_type option \<Rightarrow> lock_range \<Rightarrow> lock_record set" where
  "left_over recs file owner lt req =
     {g. \<exists>r\<in>set recs. lk_file r = file \<and> cuts owner lt req r \<and> fragment_of req r g}"

lemma committed_set:
  assumes wf: "locks_wf recs" and req: "nonempty req"
  shows "set (committed recs file owner lt req) =
    {r \<in> set recs. kept file owner lt req r} \<union> left_over recs file owner lt req \<union>
    set_option (new_record file (filter (\<lambda>r. lk_file r = file) recs) owner lt req)"
proof -
  let ?fs = "filter (\<lambda>r. lk_file r = file) recs"
  note ok = owner_ok_file [of recs owner "file", OF wf]
  have "{r \<in> set recs. \<not> (lk_file r = file \<and> should_remove owner lt req (merged_range ?fs owner lt req) r)}
      = {r \<in> set recs. kept file owner lt req r}"
    using should_remove_iff [OF ok req] unfolding kept_def by auto
  moreover have "left_over recs file owner lt req =
      set_option (left_fragment (split_scan owner lt req ?fs)) \<union>
      set_option (right_fragment (split_scan owner lt req ?fs))"
    unfolding split_scan_fragments [OF ok] left_over_def by auto
  ultimately show ?thesis
    unfolding committed_def Let_def insert_opt_facts set_filter by blast
qed

section \<open>Preservation of the invariant\<close>

lemma locks_wfD:
  assumes "locks_wf recs" "r \<in> set recs"
  shows "nonempty (lk_range r)" "0 \<le> rstart (lk_range r)"
    and "s \<in> set recs \<Longrightarrow> lk_file r = lk_file s \<Longrightarrow> lk_owner r = lk_owner s \<Longrightarrow>
      covers (lk_range r) b \<Longrightarrow> covers (lk_range s) b \<Longrightarrow> r = s"
    and "s \<in> set recs \<Longrightarrow> lk_file r = lk_file s \<Longrightarrow> lk_owner r = lk_owner s \<Longrightarrow>
      lk_type r = lk_type s \<Longrightarrow> near (lk_range r) (lk_range s) \<Longrightarrow> r = s"
    and "s \<in> set recs \<Longrightarrow> lk_file r = lk_file s \<Longrightarrow> lk_owner r \<noteq> lk_owner s \<Longrightarrow>
      conflicts_in_namespace (lk_owner r) (lk_owner s) \<Longrightarrow>
      covers (lk_range r) b \<Longrightarrow> covers (lk_range s) b \<Longrightarrow> lk_type r = ReadLock"
proof -
  have ne: "nonempty (lk_range r)" if "r \<in> set recs" for r using assms(1) that by (simp add: locks_wf_def)
  show "nonempty (lk_range r)" "0 \<le> rstart (lk_range r)" using assms by (auto simp: locks_wf_def)
  have ap: "apart r s" if "s \<in> set recs" "lk_file r = lk_file s" "lk_owner r = lk_owner s" "r \<noteq> s"
    using assms that by (simp add: locks_wf_def)
  show "s \<in> set recs \<Longrightarrow> lk_file r = lk_file s \<Longrightarrow> lk_owner r = lk_owner s \<Longrightarrow>
      covers (lk_range r) b \<Longrightarrow> covers (lk_range s) b \<Longrightarrow> r = s"
    using ap overlaps_covers [OF ne [OF assms(2)] ne] unfolding apart_def by blast
  show "s \<in> set recs \<Longrightarrow> lk_file r = lk_file s \<Longrightarrow> lk_owner r = lk_owner s \<Longrightarrow>
      lk_type r = lk_type s \<Longrightarrow> near (lk_range r) (lk_range s) \<Longrightarrow> r = s"
    using ap touches_near [OF ne [OF assms(2)] ne] unfolding apart_def by blast
  have nb: "\<not> blocks r (lk_owner s) (lk_type s) (lk_range s)" if "s \<in> set recs" "lk_file r = lk_file s"
    using assms that by (simp add: locks_wf_def)
  show "s \<in> set recs \<Longrightarrow> lk_file r = lk_file s \<Longrightarrow> lk_owner r \<noteq> lk_owner s \<Longrightarrow>
      conflicts_in_namespace (lk_owner r) (lk_owner s) \<Longrightarrow>
      covers (lk_range r) b \<Longrightarrow> covers (lk_range s) b \<Longrightarrow> lk_type r = ReadLock"
    using nb overlaps_covers [OF ne [OF assms(2)] ne] unfolding blocks_def
    by (cases "lk_type r") blast+
qed

text \<open>Where a record of the committed vector gets a covered byte from.\<close>

lemma committed_origin:
  assumes wf: "locks_wf recs" and req: "nonempty req"
    and x: "x \<in> set (committed recs file owner lt req)" "covers (lk_range x) b"
  obtains (old) r where "r \<in> set recs" "lk_file r = lk_file x" "lk_owner r = lk_owner x"
      "lk_type r = lk_type x" "covers (lk_range r) b"
    | (requested) "lt = Some (lk_type x)" "lk_file x = file" "lk_owner x = owner" "covers req b"
proof -
  let ?fs = "filter (\<lambda>r. lk_file r = file) recs"
  from x(1) consider "x \<in> set recs" | "x \<in> left_over recs file owner lt req"
    | "x \<in> set_option (new_record file ?fs owner lt req)"
    unfolding committed_set [OF wf req] by blast
  then show ?thesis
  proof cases
    case 1
    then show ?thesis using old x(2) by blast
  next
    case 2
    then obtain r where "r \<in> set recs" "cuts owner lt req r" "fragment_of req r x"
      unfolding left_over_def by blast
    then show ?thesis using old x(2) fragment_covers fragment_fields unfolding cuts_def by metis
  next
    case 3
    then obtain ty where ty: "lt = Some ty" and xn: "x = \<lparr> lk_file = file, lk_owner = owner, lk_type = ty,
        lk_range = merged_range ?fs owner (Some ty) req \<rparr>"
      by (auto simp: new_record_def)
    then consider "covers req b" | r where "r \<in> set ?fs" "absorbs owner ty req r" "covers (lk_range r) b"
      using x(2) merged_range_covers(2) [OF owner_ok_file [OF wf] req] by auto
    then show ?thesis using old requested ty xn by cases (auto simp: absorbs_def)
  qed
qed

lemma committed_nonempty:
  assumes wf: "locks_wf recs" and req: "nonempty req" "0 \<le> rstart req"
    and x: "x \<in> set (committed recs file owner lt req)"
  shows "nonempty (lk_range x) \<and> 0 \<le> rstart (lk_range x)"
proof
  show n: "nonempty (lk_range x)"
    using x fragment_nonempty locks_wfD(1) [OF wf] merged_range_covers(1) [OF owner_ok_file [OF wf] req(1)]
    unfolding committed_set [OF wf req(1)] left_over_def new_record_def by auto
  then have c: "covers (lk_range x) (rstart (lk_range x))" by (simp add: nonempty_covers)
  show "0 \<le> rstart (lk_range x)"
  proof (rule committed_origin [OF wf req(1) x c])
    show "0 \<le> rstart (lk_range x)" if "r \<in> set recs" "covers (lk_range r) (rstart (lk_range x))" for r
      using that locks_wfD(2) [OF wf that(1)] by (auto simp: covers_def)
    show "0 \<le> rstart (lk_range x)" if "covers req (rstart (lk_range x))"
      using that req(2) by (auto simp: covers_def)
  qed
qed

lemma committed_no_conflict:
  assumes wf: "locks_wf recs" and req: "nonempty req" "0 \<le> rstart req"
    and nb: "\<not> lock_blocked recs file owner lt req"
    and xy: "x \<in> set (committed recs file owner lt req)" "y \<in> set (committed recs file owner lt req)"
    and f: "lk_file x = lk_file y"
  shows "\<not> blocks x (lk_owner y) (lk_type y) (lk_range y)"
proof
  assume bl: "blocks x (lk_owner y) (lk_type y) (lk_range y)"
  have n: "nonempty (lk_range x)" "nonempty (lk_range y)"
    using committed_nonempty [OF wf req] xy by blast+
  from bl obtain b where b: "covers (lk_range x) b" "covers (lk_range y) b"
    using overlaps_covers [OF n] by (auto simp: blocks_def)
  from bl have o: "lk_owner x \<noteq> lk_owner y" "conflicts_in_namespace (lk_owner x) (lk_owner y)"
    and w: "lk_type x = WriteLock \<or> lk_type y = WriteLock"
    by (auto simp: blocks_def)
  have hit: "lock_blocked recs file owner lt req"
    if "lt = Some ty" "r \<in> set recs" "lk_file r = file" "lk_owner r \<noteq> owner"
      "conflicts_in_namespace (lk_owner r) owner" "covers (lk_range r) b" "covers req b"
      "lk_type r = WriteLock \<or> ty = WriteLock" for r ty
    using that overlaps_covers [OF locks_wfD(1) [OF wf that(2)] req(1)]
    unfolding lock_blocked_def blocks_def by blast
  have sym: "conflicts_in_namespace (lk_owner y) (lk_owner x)"
    using o(2) by (simp add: conflicts_in_namespace_def)
  have clash: False if "r \<in> set recs" "s \<in> set recs" "lk_file r = lk_file x" "lk_file s = lk_file y"
      "lk_owner r = lk_owner x" "lk_owner s = lk_owner y" "lk_type r = lk_type x" "lk_type s = lk_type y"
      "covers (lk_range r) b" "covers (lk_range s) b" for r s
    using locks_wfD(5) [OF wf that(1,2), of b] locks_wfD(5) [OF wf that(2,1), of b] that f o sym w by auto
  show False
    by (rule committed_origin [OF wf req(1) xy(1) b(1)]; rule committed_origin [OF wf req(1) xy(2) b(2)])
      (use clash hit nb f o sym w in metis)+
qed

text \<open>Which pairs of records of the committed vector may share a byte or touch.\<close>

lemma kept_left_over:
  assumes wf: "locks_wf recs" and k: "k \<in> set recs" "kept file owner lt req k"
    "lk_file k = file" "lk_owner k = owner" and g: "g \<in> left_over recs file owner lt req"
  shows "\<not> (covers (lk_range k) b \<and> covers (lk_range g) b)"
    and "lk_type k = lk_type g \<Longrightarrow> \<not> near (lk_range k) (lk_range g)"
proof -
  from g obtain r where r: "r \<in> set recs" "lk_file r = file" "cuts owner lt req r" "fragment_of req r g"
    unfolding left_over_def by blast
  then have ov: "overlaps (lk_range r) req" "lk_owner r = owner" by (auto simp: cuts_def)
  have ne: "k \<noteq> r" using k ov by (auto simp: kept_def)
  have sub: "covers (lk_range g) x \<Longrightarrow> covers (lk_range r) x" for x
    using fragment_covers [OF r(4) ov(1)] by blast
  show "\<not> (covers (lk_range k) b \<and> covers (lk_range g) b)"
    using locks_wfD(3) [OF wf k(1) r(1), of b] k r(2) ov(2) ne sub by auto
  show "lk_type k = lk_type g \<Longrightarrow> \<not> near (lk_range k) (lk_range g)"
    using locks_wfD(4) [OF wf k(1) r(1)] k r(2) ov(2) ne near_mono [OF _ sub] fragment_fields [OF r(4)] by auto
qed

lemma left_over_pair:
  assumes wf: "locks_wf recs" and req: "nonempty req"
    and gh: "g \<in> left_over recs file owner lt req" "h \<in> left_over recs file owner lt req" "g \<noteq> h"
  shows "\<not> (covers (lk_range g) b \<and> covers (lk_range h) b)"
    and "lk_type g = lk_type h \<Longrightarrow> \<not> near (lk_range g) (lk_range h)"
proof -
  from gh obtain r s where r: "r \<in> set recs" "lk_file r = file" "cuts owner lt req r" "fragment_of req r g"
    and s: "s \<in> set recs" "lk_file s = file" "cuts owner lt req s" "fragment_of req s h"
    unfolding left_over_def by blast
  have sg: "covers (lk_range g) x \<Longrightarrow> covers (lk_range r) x" for x
    using fragment_covers [OF r(4)] r(3) by (auto simp: cuts_def)
  have sh: "covers (lk_range h) x \<Longrightarrow> covers (lk_range s) x" for x
    using fragment_covers [OF s(4)] s(3) by (auto simp: cuts_def)
  have ap: "r = s \<Longrightarrow> \<not> near (lk_range g) (lk_range h)"
    by (rule fragment_apart [OF r(4) s(4) gh(3) _ req])
  have own: "lk_owner r = lk_owner s" using r(3) s(3) by (simp add: cuts_def)
  show "\<not> (covers (lk_range g) b \<and> covers (lk_range h) b)"
  proof
    assume b: "covers (lk_range g) b \<and> covers (lk_range h) b"
    then have "near (lk_range g) (lk_range h)" unfolding near_def by (metis abs_zero diff_self zero_le_one)
    then show False using ap locks_wfD(3) [OF wf r(1) s(1), of b] r(2) s(2) own sg sh b by auto
  qed
  show "\<not> near (lk_range g) (lk_range h)" if t: "lk_type g = lk_type h"
  proof
    assume n: "near (lk_range g) (lk_range h)"
    then have "near (lk_range r) (lk_range s)" unfolding near_def using sg sh by blast
    then show False
      using ap n locks_wfD(4) [OF wf r(1) s(1)] r(2) s(2) own t fragment_fields [OF r(4)]
        fragment_fields [OF s(4)] by auto
  qed
qed

lemma new_record_pair:
  assumes wf: "locks_wf recs" and req: "nonempty req"
    and new: "new_record file (filter (\<lambda>r. lk_file r = file) recs) owner lt req = Some n"
  shows "k \<in> set recs \<Longrightarrow> kept file owner lt req k \<Longrightarrow> lk_file k = file \<Longrightarrow> lk_owner k = owner \<Longrightarrow>
      \<not> (covers (lk_range k) b \<and> covers (lk_range n) b)"
    and "k \<in> set recs \<Longrightarrow> kept file owner lt req k \<Longrightarrow> lk_file k = file \<Longrightarrow> lk_owner k = owner \<Longrightarrow>
      lk_type k = lk_type n \<Longrightarrow> \<not> near (lk_range k) (lk_range n)"
    and "g \<in> left_over recs file owner lt req \<Longrightarrow>
      \<not> (covers (lk_range g) b \<and> covers (lk_range n) b) \<and> lk_type g \<noteq> lk_type n"
proof -
  let ?fs = "filter (\<lambda>r. lk_file r = file) recs"
  obtain ty where ty: "lt = Some ty" and n: "lk_type n = ty"
      "lk_range n = merged_range ?fs owner (Some ty) req"
    using new by (auto simp: new_record_def)
  note ok = owner_ok_file [of recs owner "file", OF wf]
  have cov: "covers (lk_range n) x \<longleftrightarrow>
      covers req x \<or> (\<exists>r\<in>set ?fs. absorbs owner ty req r \<and> covers (lk_range r) x)" for x
    using merged_range_covers(2) [OF ok req] n(2) by simp
  have inv: "merge_inv owner ty req ?fs (lk_range n)"
    using merged_range_covers [OF ok req, of ty] n(2) unfolding merge_inv_def by auto
  show "k \<in> set recs \<Longrightarrow> kept file owner lt req k \<Longrightarrow> lk_file k = file \<Longrightarrow> lk_owner k = owner \<Longrightarrow>
      \<not> (covers (lk_range k) b \<and> covers (lk_range n) b)"
  proof
    assume k: "k \<in> set recs" "kept file owner lt req k" "lk_file k = file" "lk_owner k = owner"
      and b: "covers (lk_range k) b \<and> covers (lk_range n) b"
    have nov: "\<not> covers req b"
      using k b overlaps_covers [OF locks_wfD(1) [OF wf k(1)] req] unfolding kept_def by blast
    then obtain s where s: "s \<in> set recs" "lk_file s = file" "absorbs owner ty req s" "covers (lk_range s) b"
      using b cov [of b] by auto
    then have "k = s" using locks_wfD(3) [OF wf k(1) s(1), of b] k b by (simp add: absorbs_def)
    then show False using k s(3) ty unfolding kept_def by blast
  qed
  show "k \<in> set recs \<Longrightarrow> kept file owner lt req k \<Longrightarrow> lk_file k = file \<Longrightarrow> lk_owner k = owner \<Longrightarrow>
      lk_type k = lk_type n \<Longrightarrow> \<not> near (lk_range k) (lk_range n)"
    using merge_inv_absorbs [OF ok inv] ty n(1) unfolding kept_def by auto
  show "\<not> (covers (lk_range g) b \<and> covers (lk_range n) b) \<and> lk_type g \<noteq> lk_type n"
    if g: "g \<in> left_over recs file owner lt req"
  proof -
    from g obtain r where r: "r \<in> set recs" "lk_file r = file" "cuts owner lt req r" "fragment_of req r g"
      unfolding left_over_def by blast
    have t: "lk_type g \<noteq> ty" using r(3) fragment_fields [OF r(4)] ty by (auto simp: cuts_def)
    have "\<not> covers (lk_range n) b" if c: "covers (lk_range g) b"
    proof
      have cr: "covers (lk_range r) b" "\<not> covers req b"
        using fragment_covers [OF r(4) _ c] r(3) by (auto simp: cuts_def)
      assume "covers (lk_range n) b"
      then obtain s where "s \<in> set ?fs" "absorbs owner ty req s" "covers (lk_range s) b"
        using cov cr by blast
      then show False
        using locks_wfD(3) [OF wf r(1), of s b] r cr t fragment_fields [OF r(4)]
        by (auto simp: absorbs_def cuts_def)
    qed
    then show ?thesis using t n(1) by blast
  qed
qed

lemma committed_pair:
  assumes wf: "locks_wf recs" and req: "nonempty req"
    and xy: "x \<in> set (committed recs file owner lt req)" "y \<in> set (committed recs file owner lt req)" "x \<noteq> y"
    and fo: "lk_file x = lk_file y" "lk_owner x = lk_owner y"
  shows "\<not> (covers (lk_range x) b \<and> covers (lk_range y) b)"
    and "lk_type x = lk_type y \<Longrightarrow> \<not> near (lk_range x) (lk_range y)"
proof -
  define P where "P x y \<longleftrightarrow> \<not> (\<exists>b. covers (lk_range x) b \<and> covers (lk_range y) b) \<and>
    (lk_type x = lk_type y \<longrightarrow> \<not> near (lk_range x) (lk_range y))" for x y :: lock_record
  have sym: "P y x \<Longrightarrow> P x y" for x y unfolding P_def using near_sym by metis
  define K where "K = {r \<in> set recs. kept file owner lt req r}"
  define L where "L = left_over recs file owner lt req"
  define N where "N = set_option (new_record file (filter (\<lambda>r. lk_file r = file) recs) owner lt req)"
  have com: "set (committed recs file owner lt req) = K \<union> L \<union> N"
    unfolding committed_set [OF wf req] K_def L_def N_def ..
  have LN: "lk_file g = file \<and> lk_owner g = owner" if "g \<in> L \<union> N" for g
    using that fragment_fields unfolding L_def N_def left_over_def
    by (auto simp: cuts_def new_record_def)
  have KK: "P k l" if "k \<in> K" "l \<in> K" "k \<noteq> l" "lk_file k = lk_file l" "lk_owner k = lk_owner l" for k l
    using locks_wfD(3,4) [OF wf] that unfolding P_def K_def by blast
  have KL: "P k g" if "k \<in> K" "g \<in> L" "lk_file k = lk_file g" "lk_owner k = lk_owner g" for k g
    using kept_left_over [OF wf] LN [of g] that unfolding P_def K_def L_def by auto
  have LL: "P g h" if "g \<in> L" "h \<in> L" "g \<noteq> h" for g h
    using left_over_pair [OF wf req] that unfolding P_def L_def by blast
  have KN: "P k n" if "k \<in> K" "n \<in> N" "lk_file k = lk_file n" "lk_owner k = lk_owner n" for k n
    using new_record_pair(1,2) [OF wf req] LN [of n] that unfolding P_def K_def N_def by auto
  have GN: "P g n" if "g \<in> L" "n \<in> N" for g n
    using new_record_pair(3) [OF wf req] that unfolding P_def L_def N_def by auto
  have NN: "n = n'" if "n \<in> N" "n' \<in> N" for n n' using that unfolding N_def by auto
  have "P x y"
    using xy fo KK KL LL KN GN NN sym unfolding com by (elim UnE) metis+
  then show "\<not> (covers (lk_range x) b \<and> covers (lk_range y) b)"
    "lk_type x = lk_type y \<Longrightarrow> \<not> near (lk_range x) (lk_range y)"
    unfolding P_def by blast+
qed

lemma cut_sides:
  assumes "nonempty req" "cuts owner lt req r" "rstart (lk_range r) < rstart req"
    "cuts owner lt req s" "rend req < rend (lk_range s)"
  shows "cut_left req r \<noteq> cut_right req s"
proof
  assume "cut_left req r = cut_right req s"
  then have "lk_range (cut_left req r) = lk_range (cut_right req s)" by simp
  then show False
    using assms by (auto simp: cut_left_def cut_right_def cuts_def range_defs split: lock_range_end.splits)
qed

lemma nonempty_self: "nonempty (lk_range x) \<Longrightarrow> \<exists>b. covers (lk_range x) b"
  unfolding nonempty_covers by blast

lemma committed_distinct:
  assumes wf: "locks_wf recs" and req: "nonempty req" "0 \<le> rstart req"
  shows "distinct (committed recs file owner lt req)"
proof -
  let ?fs = "filter (\<lambda>r. lk_file r = file) recs"
  let ?st = "split_scan owner lt req ?fs"
  let ?K = "filter (\<lambda>r. \<not> (lk_file r = file \<and> should_remove owner lt req (merged_range ?fs owner lt req) r)) recs"
  note ok = owner_ok_file [of recs owner "file", OF wf]
  have K: "set ?K = {r \<in> set recs. kept file owner lt req r}"
    using should_remove_iff [OF ok req(1)] unfolding kept_def by auto
  have LO: "set_option (left_fragment ?st) \<union> set_option (right_fragment ?st) = left_over recs file owner lt req"
    unfolding split_scan_fragments [OF ok] left_over_def by auto
  have fields: "lk_file g = file \<and> lk_owner g = owner" if "g \<in> left_over recs file owner lt req" for g
    using that fragment_fields unfolding left_over_def by (auto simp: cuts_def)
  have KL: "left_over recs file owner lt req \<inter> set ?K = {}"
    using kept_left_over(1) [OF wf] fields nonempty_self locks_wfD(1) [OF wf] unfolding K by blast
  have KN: "set_option (new_record file ?fs owner lt req) \<inter> set ?K = {}"
  proof -
    have "\<not> kept file owner lt req n" if n: "new_record file ?fs owner lt req = Some n" "n \<in> set recs" for n
      using new_record_pair(1) [OF wf req(1) n(1) n(2)] nonempty_self [OF locks_wfD(1) [OF wf n(2)]] n(1)
      by (auto simp: new_record_def)
    then show ?thesis unfolding K by auto
  qed
  have LN: "left_over recs file owner lt req \<inter> set_option (new_record file ?fs owner lt req) = {}"
  proof -
    have False if "x \<in> left_over recs file owner lt req" "new_record file ?fs owner lt req = Some x" for x
      using new_record_pair(3) [OF wf req(1) that(2,1)] by blast
    then show ?thesis by auto
  qed
  have LR: "set_option (left_fragment ?st) \<inter> set_option (right_fragment ?st) = {}"
    unfolding split_scan_left [OF ok] split_scan_right [OF ok] using cut_sides [OF req(1)] by blast
  have "distinct ?K" using wf by (simp add: locks_wf_def)
  then show ?thesis
    unfolding committed_def Let_def using LO KL KN LN LR
    by (intro distinct_insert_opt) (auto simp: insert_opt_facts)
qed

lemma committed_wf:
  assumes wf: "locks_wf recs" and req: "nonempty req" "0 \<le> rstart req"
    and nb: "\<not> lock_blocked recs file owner lt req"
    and len: "length (committed recs file owner lt req) \<le> MAX_ADVISORY_LOCK_RECORDS"
  shows "locks_wf (committed recs file owner lt req)"
  unfolding locks_wf_def
proof (intro conjI ballI impI)
  show "records_sorted (committed recs file owner lt req)"
    using wf unfolding committed_def Let_def locks_wf_def
    by (intro insert_opt_facts(3) sorted_filter_key) blast
  show "distinct (committed recs file owner lt req)" by (rule committed_distinct [OF wf req])
  show "length (committed recs file owner lt req) \<le> MAX_ADVISORY_LOCK_RECORDS" by (rule len)
next
  fix x assume x: "x \<in> set (committed recs file owner lt req)"
  show "nonempty (lk_range x)" "0 \<le> rstart (lk_range x)"
    using committed_nonempty [OF wf req x] by auto
  fix y assume y: "y \<in> set (committed recs file owner lt req)"
  have n: "nonempty (lk_range x)" "nonempty (lk_range y)"
    using committed_nonempty [OF wf req] x y by auto
  show "apart x y" if "x \<noteq> y \<and> lk_file x = lk_file y \<and> lk_owner x = lk_owner y"
    using committed_pair [OF wf req(1) x y] that overlaps_covers [OF n] touches_near [OF n]
    unfolding apart_def by blast
  show "\<not> blocks x (lk_owner y) (lk_type y) (lk_range y)" if "lk_file x = lk_file y"
    by (rule committed_no_conflict [OF wf req nb x y that])
qed

lemma locks_wf_set:
  assumes "locks_wf recs" "set ys \<subseteq> set recs" "records_sorted ys" "distinct ys" "length ys \<le> length recs"
  shows "locks_wf ys"
  using assms unfolding locks_wf_def by (meson order_trans subsetD)

lemma locks_wf_filter: "locks_wf recs \<Longrightarrow> locks_wf (filter P recs)"
  by (rule locks_wf_set) (auto simp: locks_wf_def sorted_filter_key)

lemma lock_manager_new_wf: "locks_wf (lock_records lock_manager_new)"
  by (simp add: locks_wf_def lock_manager_new_def)

section \<open>Refinement of a map from bytes to locks\<close>

definition lock_at :: "lock_record list \<Rightarrow> file_id \<Rightarrow> lock_owner \<Rightarrow> int \<Rightarrow> advisory_lock_type option" where
  "lock_at recs file owner b =
     map_option lk_type
       (List.find (\<lambda>r. lk_file r = file \<and> lk_owner r = owner \<and> covers (lk_range r) b) recs)"

lemma lock_at_iff:
  assumes "locks_wf recs"
  shows "lock_at recs file owner b = Some t \<longleftrightarrow>
    (\<exists>r\<in>set recs. lk_file r = file \<and> lk_owner r = owner \<and> covers (lk_range r) b \<and> lk_type r = t)"
proof
  assume "lock_at recs file owner b = Some t"
  then show "\<exists>r\<in>set recs. lk_file r = file \<and> lk_owner r = owner \<and> covers (lk_range r) b \<and> lk_type r = t"
    unfolding lock_at_def by (auto simp: find_Some_iff)
next
  assume "\<exists>r\<in>set recs. lk_file r = file \<and> lk_owner r = owner \<and> covers (lk_range r) b \<and> lk_type r = t"
  then obtain r where r: "r \<in> set recs" "lk_file r = file" "lk_owner r = owner" "covers (lk_range r) b"
    "lk_type r = t" by blast
  let ?Q = "\<lambda>r. lk_file r = file \<and> lk_owner r = owner \<and> covers (lk_range r) b"
  obtain s where s: "List.find ?Q recs = Some s" using r by (cases "List.find ?Q recs") (auto simp: find_None_iff)
  then have "s \<in> set recs" "?Q s" by (auto simp: find_Some_iff)
  then have "s = r" using locks_wfD(3) [OF assms] r by metis
  then show "lock_at recs file owner b = Some t" using s r by (simp add: lock_at_def)
qed

lemma lock_at_set_cong:
  assumes "locks_wf xs" "locks_wf ys" "set xs = set ys"
  shows "lock_at xs file owner b = lock_at ys file owner b"
  using lock_at_iff [OF assms(1)] lock_at_iff [OF assms(2)] assms(3) by (metis not_Some_eq)

lemma committed_only:
  assumes wf: "locks_wf recs" and req: "nonempty req"
    and x: "x \<in> set (committed recs file owner lt req)" "lk_file x = file" "lk_owner x = owner"
      "covers (lk_range x) b" "covers req b"
  shows "lt = Some (lk_type x)"
proof -
  have "\<not> (x \<in> set recs \<and> kept file owner lt req x)"
    using x overlaps_covers [OF locks_wfD(1) [OF wf] req] unfolding kept_def by blast
  moreover have "x \<notin> left_over recs file owner lt req"
    using x fragment_covers unfolding left_over_def cuts_def by blast
  ultimately have "x \<in> set_option (new_record file (filter (\<lambda>r. lk_file r = file) recs) owner lt req)"
    using x(1) unfolding committed_set [OF wf req] by blast
  then show ?thesis by (auto simp: new_record_def)
qed

lemma committed_requested:
  assumes wf: "locks_wf recs" and req: "nonempty req" and lt: "lt = Some t"
    and b: "covers req b \<or> (\<exists>r\<in>set recs. lk_file r = file \<and> absorbs owner t req r \<and> covers (lk_range r) b)"
  shows "\<exists>x\<in>set (committed recs file owner lt req).
    lk_file x = file \<and> lk_owner x = owner \<and> covers (lk_range x) b \<and> lk_type x = t"
  using merged_range_covers(2) [OF owner_ok_file [OF wf] req, of "file" owner t b] b lt
  unfolding committed_set [OF wf req] by (auto simp: new_record_def)

lemma committed_keeps:
  assumes wf: "locks_wf recs" and req: "nonempty req"
    and r: "r \<in> set recs" "covers (lk_range r) b"
      "\<not> (lk_file r = file \<and> lk_owner r = owner \<and> covers req b)"
  shows "\<exists>x\<in>set (committed recs file owner lt req).
    lk_file x = lk_file r \<and> lk_owner x = lk_owner r \<and> covers (lk_range x) b \<and> lk_type x = lk_type r"
proof (cases "kept file owner lt req r")
  case True
  then show ?thesis using r unfolding committed_set [OF wf req] by blast
next
  case rm: False
  then have fo: "lk_file r = file" "lk_owner r = owner" by (auto simp: kept_def)
  show ?thesis
  proof (cases "lt = Some (lk_type r)")
    case True
    have "absorbs owner (lk_type r) req r"
      using rm True fo overlaps_covers [OF locks_wfD(1) [OF wf r(1)] req]
      unfolding kept_def absorbs_def near_def by (metis abs_zero diff_self zero_le_one)
    then show ?thesis using committed_requested [OF wf req True, of b "file" owner] r fo by auto
  next
    case F: False
    then have "cuts owner lt req r" using rm by (auto simp: kept_def cuts_def absorbs_def)
    moreover obtain g where "fragment_of req r g" "covers (lk_range g) b"
      using fragment_exists [OF r(2)] r(3) fo by blast
    ultimately show ?thesis
      using r(1) fo fragment_fields unfolding committed_set [OF wf req] left_over_def by blast
  qed
qed

lemma committed_lock_at:
  assumes wf: "locks_wf recs" and req: "nonempty req" and wf': "locks_wf (committed recs file owner lt req)"
  shows "lock_at (committed recs file owner lt req) f' ow' b =
    (if f' = file \<and> ow' = owner \<and> covers req b then lt else lock_at recs f' ow' b)"
proof -
  have "lock_at (committed recs file owner lt req) f' ow' b = Some t \<longleftrightarrow>
    (if f' = file \<and> ow' = owner \<and> covers req b then lt else lock_at recs f' ow' b) = Some t" for t
  proof (cases "f' = file \<and> ow' = owner \<and> covers req b")
    case True
    then show ?thesis
      unfolding lock_at_iff [OF wf']
      using committed_only [OF wf req] committed_requested [OF wf req] by fastforce
  next
    case False
    have "\<exists>r\<in>set recs. lk_file r = f' \<and> lk_owner r = ow' \<and> covers (lk_range r) b \<and> lk_type r = t"
      if x: "x \<in> set (committed recs file owner lt req)" "lk_file x = f'" "lk_owner x = ow'"
        "covers (lk_range x) b" "lk_type x = t" for x
      by (rule committed_origin [OF wf req x(1,4)]) (use x False in auto)
    moreover have "\<exists>x\<in>set (committed recs file owner lt req).
        lk_file x = f' \<and> lk_owner x = ow' \<and> covers (lk_range x) b \<and> lk_type x = t"
      if r: "r \<in> set recs" "lk_file r = f'" "lk_owner r = ow'" "covers (lk_range r) b" "lk_type r = t" for r
      using committed_keeps [OF wf req r(1,4), of "file" owner lt] r False by auto
    ultimately show ?thesis
      using False unfolding lock_at_iff [OF wf'] if_not_P [OF False] lock_at_iff [OF wf] by blast
  qed
  then show ?thesis by (metis not_Some_eq)
qed

lemma set_lock_ok_wf:
  assumes wf: "locks_wf (lock_records m)" and req: "nonempty req" "0 \<le> rstart req"
    and eq: "set_lock reserve m file owner lt req = (m', x)"
  shows "locks_wf (lock_records m')"
proof (cases x)
  case (Inl e)
  then show ?thesis using set_lock_result(2) [OF wf eq] wf by auto
next
  case (Inr mu)
  have nb: "\<not> lock_blocked (lock_records m) file owner lt req"
    using set_lock_result(1) [OF wf eq] Inr by auto
  show ?thesis using set_lock_result(4) [OF wf eq Inr] wf committed_wf [OF wf req nb] by auto
qed

lemma set_lock_ok_lock_at:
  assumes wf: "locks_wf (lock_records m)" and req: "nonempty req" "0 \<le> rstart req"
    and eq: "set_lock reserve m file owner lt req = (m', Ok mu)"
  shows "lock_at (lock_records m') f' ow' b =
    (if f' = file \<and> ow' = owner \<and> covers req b then lt else lock_at (lock_records m) f' ow' b)"
proof -
  note wf' = set_lock_ok_wf [OF wf req eq]
  let ?c = "committed (lock_records m) file owner lt req"
  have st: "set (lock_records m') = set ?c" by (rule set_lock_result(3) [OF wf eq refl])
  have held: "(\<exists>r\<in>set ?c. lk_file r = f' \<and> lk_owner r = ow' \<and> covers (lk_range r) b \<and> lk_type r = t) \<longleftrightarrow>
    lock_at (lock_records m') f' ow' b = Some t" for t
    unfolding lock_at_iff [OF wf'] st ..
  show ?thesis
  proof (cases "lock_records m' = ?c")
    case True
    then show ?thesis using committed_lock_at [OF wf req(1)] wf' by simp
  next
    case False
    then have same: "lock_records m' = lock_records m" using set_lock_result(4) [OF wf eq refl] by blast
    have "lock_at (lock_records m) f' ow' b = lt" if t: "f' = file" "ow' = owner" "covers req b"
    proof (cases lt)
      case None
      then show ?thesis
        using committed_only [OF wf req(1), of _ "file" owner lt b] t held same by (metis not_Some_eq)
    next
      case (Some ty)
      then show ?thesis
        using committed_requested [OF wf req(1), of lt ty b "file" owner] t held same by auto
    qed
    then show ?thesis using same by simp
  qed
qed

lemma lock_blocked_find:
  assumes "locks_wf (lock_records m)"
  shows "lock_blocked (lock_records m) file owner (Some ty) req \<longleftrightarrow>
    get_blocking_lock m file owner ty req \<noteq> None"
  using assms by (auto simp: get_blocking_lock_def file_slice_filter locks_wf_def lock_blocked_def
      find_None_iff)

lemma blocking_lock_at:
  assumes wf: "locks_wf (lock_records m)" and req: "nonempty req"
  shows "get_blocking_lock m file owner ty req \<noteq> None \<longleftrightarrow>
    (\<exists>ow b t. lock_at (lock_records m) file ow b = Some t \<and> ow \<noteq> owner \<and>
       conflicts_in_namespace ow owner \<and> covers req b \<and> (t = WriteLock \<or> ty = WriteLock))"
  unfolding lock_blocked_find [OF wf, symmetric] lock_at_iff [OF wf] lock_blocked_def blocks_def
  using overlaps_covers [OF locks_wfD(1) [OF wf] req] by blast

section \<open>A concrete manager\<close>

definition demo_record :: "pid \<Rightarrow> advisory_lock_type \<Rightarrow> int \<Rightarrow> int \<Rightarrow> lock_record" where
  "demo_record p ty a b = \<lparr> lk_file = HostFile 1 7, lk_owner = ProcessOwner p, lk_type = ty,
     lk_range = LockRange a (OffsetEnd b) \<rparr>"

definition demo_manager :: lock_manager where
  "demo_manager = \<lparr> lock_records = [demo_record 1 WriteLock 0 100], lock_capacity = 4 \<rparr>"

definition demo_unlocked :: lock_manager where
  "demo_unlocked =
     \<lparr> lock_records = [demo_record 1 WriteLock 0 40, demo_record 1 WriteLock 50 100], lock_capacity = 4 \<rparr>"

lemmas lock_eval = file_bounds_def partition_point_def blocks_def conflicts_in_namespace_def range_defs
  demo_record_def demo_manager_def demo_unlocked_def Let_def list_ex_iff

lemmas set_lock_eval = lock_eval set_lock_def split_scan_def split_step_def split_left_def split_right_def
  should_remove_def option_count_def ensure_capacity_def compact_def insert_opt_def insert_record_def
  insert_at_def record_key_def less_lock_range_def MAX_ADVISORY_LOCK_RECORDS_def USIZE_MAX_def

lemma demo_wf: "locks_wf (lock_records demo_manager)"
  by (simp add: lock_eval locks_wf_def apart_def MAX_ADVISORY_LOCK_RECORDS_def)

lemma demo_unlock:
  "set_lock Some demo_manager (HostFile 1 7) (ProcessOwner 1) None (LockRange 40 (OffsetEnd 50)) =
     (demo_unlocked, Ok \<lparr> changed = True, may_unblock = True \<rparr>)"
  by (simp add: set_lock_eval)

lemma demo_range: "nonempty (LockRange 40 (OffsetEnd 50))" "0 \<le> rstart (LockRange 40 (OffsetEnd 50))"
  by (simp_all add: range_defs)

section \<open>The properties of the lock manager\<close>

text \<open>C1. \<^verbatim>\<open>set_lock\<close> is a pointwise update: after a successful call, on the requested file and owner,
  exactly the requested bytes hold the requested lock (or none, for an unlock), and every other
  byte, owner and file keeps the lock it had.  Splitting, coalescing, the no-op paths and the
  compaction of the vector are invisible.\<close>

theorem set_lock_pointwise:
  assumes "locks_wf (lock_records m)" "nonempty req" "0 \<le> rstart req"
    "set_lock reserve m file owner lt req = (m', Ok mu)"
  shows "lock_at (lock_records m') f' ow' b =
    (if f' = file \<and> ow' = owner \<and> covers req b then lt else lock_at (lock_records m) f' ow' b)"
  by (rule set_lock_ok_lock_at [OF assms])

theorem set_lock_pointwise_witness:
  "lock_at (lock_records demo_unlocked) (HostFile 1 7) (ProcessOwner 1) 45 = None \<and>
   lock_at (lock_records demo_unlocked) (HostFile 1 7) (ProcessOwner 1) 60 = Some WriteLock"
  using set_lock_pointwise [OF demo_wf demo_range demo_unlock, of "HostFile 1 7" "ProcessOwner 1" 45]
    set_lock_pointwise [OF demo_wf demo_range demo_unlock, of "HostFile 1 7" "ProcessOwner 1" 60]
  by (simp add: lock_eval lock_at_def)

text \<open>C2. The invariant of the record vector: whatever the outcome of \<^verbatim>\<open>set_lock\<close>, the records stay sorted
  and distinct, at most the record limit, non-empty, one owner's records of a file stay disjoint
  and coalesced, and no two owners of one namespace hold conflicting locks.\<close>

theorem set_lock_preserves_wf:
  assumes "locks_wf (lock_records m)" "nonempty req" "0 \<le> rstart req"
  shows "locks_wf (lock_records (fst (set_lock reserve m file owner lt req)))"
  using set_lock_ok_wf [OF assms prod.collapse [symmetric]] .

theorem set_lock_preserves_wf_witness: "locks_wf (lock_records demo_unlocked)"
  using set_lock_preserves_wf [OF demo_wf demo_range, of Some "HostFile 1 7" "ProcessOwner 1" None]
  unfolding demo_unlock by simp

text \<open>C3. Errors of \<^verbatim>\<open>set_lock\<close>: EAGAIN is returned exactly when \<^verbatim>\<open>get_blocking_lock\<close> reports a blocker for
  the request, never for an unlock; the only other error is ENOLCK; a failed call leaves the
  manager untouched.\<close>

theorem set_lock_errors:
  assumes "locks_wf (lock_records m)"
  shows "(snd (set_lock reserve m file owner (Some ty) req) = Err EAGAIN \<longleftrightarrow>
      get_blocking_lock m file owner ty req \<noteq> None) \<and>
    snd (set_lock reserve m file owner None req) \<noteq> Err EAGAIN \<and>
    (\<forall>e. snd (set_lock reserve m file owner lt req) = Err e \<longrightarrow>
      (e = EAGAIN \<or> e = ENOLCK) \<and> fst (set_lock reserve m file owner lt req) = m)"
  using set_lock_result(1,2) [OF assms prod.collapse [symmetric]] lock_blocked_find [OF assms]
  by (simp add: lock_blocked_def)

theorem set_lock_errors_witness:
  "set_lock Some demo_manager (HostFile 1 7) (ProcessOwner 2) (Some ReadLock) (LockRange 10 (OffsetEnd 20))
     = (demo_manager, Err EAGAIN)"
proof -
  let ?r = "set_lock Some demo_manager (HostFile 1 7) (ProcessOwner 2) (Some ReadLock) (LockRange 10 (OffsetEnd 20))"
  have "get_blocking_lock demo_manager (HostFile 1 7) (ProcessOwner 2) ReadLock (LockRange 10 (OffsetEnd 20)) \<noteq> None"
    by (simp add: lock_eval get_blocking_lock_def file_slice_def)
  then have "snd ?r = Err EAGAIN" "fst ?r = demo_manager"
    using set_lock_errors [OF demo_wf] by blast+
  then show ?thesis by (simp add: prod_eq_iff)
qed

text \<open>C4. No lost wakeup: if some request was blocked before a successful \<^verbatim>\<open>set_lock\<close> and is not blocked
  after it, the returned mutation has \<^verbatim>\<open>may_unblock\<close> set.\<close>

theorem set_lock_no_lost_wakeup:
  assumes wf: "locks_wf (lock_records m)" and req: "nonempty req" "0 \<le> rstart req"
    and eq: "set_lock reserve m file owner lt req = (m', Ok mu)"
    and w: "nonempty wreq" "get_blocking_lock m wfile wowner wty wreq \<noteq> None"
      "get_blocking_lock m' wfile wowner wty wreq = None"
  shows "may_unblock mu"
proof (rule ccontr)
  assume nm: "\<not> may_unblock mu"
  note wf' = set_lock_ok_wf [OF wf req eq]
  from w(2) obtain ow b t where h: "lock_at (lock_records m) wfile ow b = Some t" "ow \<noteq> wowner"
      "conflicts_in_namespace ow wowner" "covers wreq b" "t = WriteLock \<or> wty = WriteLock"
    unfolding blocking_lock_at [OF wf w(1)] by blast
  then have lost: "lock_at (lock_records m') wfile ow b \<noteq> Some t"
    using w(3) blocking_lock_at [OF wf' w(1)] by blast
  then have in_req: "wfile = file" "ow = owner" "covers req b" "lt \<noteq> Some t"
    using h(1) unfolding set_lock_ok_lock_at [OF wf req eq] by (auto split: if_splits)
  from lost h(1) have ne: "lock_records m' \<noteq> lock_records m" by auto
  let ?fs = "filter (\<lambda>r. lk_file r = file) (lock_records m)"
  from h(1) obtain r where r: "r \<in> set ?fs" "lk_owner r = owner" "covers (lk_range r) b" "lk_type r = t"
    unfolding lock_at_iff [OF wf] in_req(1,2) by auto
  then have ov: "overlaps (lk_range r) req"
    using in_req(3) overlaps_covers [OF locks_wfD(1) [OF wf] req(1)] by auto
  have "filter (should_remove owner lt req (merged_range ?fs owner lt req)) ?fs \<noteq> []"
    using r ov by (auto simp: should_remove_def filter_empty_conv)
  moreover have "lt = Some ty \<Longrightarrow> type_changed (split_scan owner lt req ?fs)" for ty
    using r ov in_req(4) split_scan_type_changed by auto
  ultimately show False
    using nm set_lock_result(5) [OF wf eq refl ne] by (cases lt) simp_all
qed

theorem set_lock_no_lost_wakeup_witness:
  "get_blocking_lock demo_manager (HostFile 1 7) (ProcessOwner 2) ReadLock (LockRange 42 (OffsetEnd 43)) \<noteq> None \<and>
   get_blocking_lock demo_unlocked (HostFile 1 7) (ProcessOwner 2) ReadLock (LockRange 42 (OffsetEnd 43)) = None \<and>
   may_unblock \<lparr> changed = True, may_unblock = True \<rparr>"
proof -
  have a: "get_blocking_lock demo_manager (HostFile 1 7) (ProcessOwner 2) ReadLock (LockRange 42 (OffsetEnd 43)) \<noteq> None"
    "get_blocking_lock demo_unlocked (HostFile 1 7) (ProcessOwner 2) ReadLock (LockRange 42 (OffsetEnd 43)) = None"
    by (simp_all add: lock_eval get_blocking_lock_def file_slice_def)
  have n: "nonempty (LockRange 42 (OffsetEnd 43))" by (simp add: range_defs)
  show ?thesis using a set_lock_no_lost_wakeup [OF demo_wf demo_range demo_unlock n a] by blast
qed

lemma lock_at_filter:
  assumes "locks_wf recs"
  shows "lock_at (filter P recs) f ow b = Some t \<longleftrightarrow>
    (\<exists>r\<in>set recs. P r \<and> lk_file r = f \<and> lk_owner r = ow \<and> covers (lk_range r) b \<and> lk_type r = t)"
  unfolding lock_at_iff [OF locks_wf_filter [OF assms]] by auto

lemma lock_at_filter_pred:
  assumes wf: "locks_wf recs" and P: "\<And>r. P r \<longleftrightarrow> Q (lk_file r) (lk_owner r)"
  shows "lock_at (filter P recs) f ow b = (if Q f ow then lock_at recs f ow b else None)"
proof -
  have eq: "lock_at (filter P recs) f ow b = Some t \<longleftrightarrow> Q f ow \<and> lock_at recs f ow b = Some t" for t
    unfolding lock_at_filter [OF wf] lock_at_iff [OF wf] P by auto
  show ?thesis
  proof (cases "lock_at (filter P recs) f ow b")
    case None
    then show ?thesis using eq by (cases "lock_at recs f ow b") auto
  next
    case (Some t)
    then show ?thesis using eq [of t] by simp
  qed
qed

lemma remove_file_owner_filter:
  assumes "locks_wf (lock_records m)"
  shows "lock_records (fst (remove_file_owner m file owner)) =
    filter (\<lambda>r. \<not> (lk_file r = file \<and> lk_owner r = owner)) (lock_records m)"
  using assms unfolding remove_file_owner_def
  by (cases "file_bounds (lock_records m) file") (simp add: locks_wf_def compact_spec)

text \<open>C5. Releasing on close and exit: closing a file in a process drops exactly that process's locks on
  that file, process exit exactly the process's record locks on every file, and the last close of an
  open file description exactly its OFD and flock locks; the invariant is kept.\<close>

theorem remove_locks_exact:
  assumes wf: "locks_wf (lock_records m)"
  shows "locks_wf (lock_records (fst (remove_process_file m p file))) \<and>
    lock_at (lock_records (fst (remove_process_file m p file))) f ow b =
      (if f = file \<and> ow = ProcessOwner p then None else lock_at (lock_records m) f ow b) \<and>
    locks_wf (lock_records (fst (remove_process m p))) \<and>
    lock_at (lock_records (fst (remove_process m p))) f ow b =
      (if ow = ProcessOwner p then None else lock_at (lock_records m) f ow b) \<and>
    locks_wf (lock_records (fst (remove_ofd m oid))) \<and>
    lock_at (lock_records (fst (remove_ofd m oid))) f ow b =
      (if ow = OpenFileDescription oid \<or> ow = Flock oid then None else lock_at (lock_records m) f ow b)"
proof (intro conjI)
  show "locks_wf (lock_records (fst (remove_process_file m p file)))"
    unfolding remove_process_file_def remove_file_owner_filter [OF wf] by (rule locks_wf_filter [OF wf])
  show "lock_at (lock_records (fst (remove_process_file m p file))) f ow b =
      (if f = file \<and> ow = ProcessOwner p then None else lock_at (lock_records m) f ow b)"
    unfolding remove_process_file_def remove_file_owner_filter [OF wf]
    using lock_at_filter_pred [OF wf, of "\<lambda>r. \<not> (lk_file r = file \<and> lk_owner r = ProcessOwner p)"
        "\<lambda>f ow. \<not> (f = file \<and> ow = ProcessOwner p)"]
    by simp
  show "locks_wf (lock_records (fst (remove_process m p)))" "locks_wf (lock_records (fst (remove_ofd m oid)))"
    by (simp_all add: remove_process_def remove_owner_def remove_ofd_def retain_records_def Let_def
        locks_wf_filter [OF wf])
  show "lock_at (lock_records (fst (remove_process m p))) f ow b =
      (if ow = ProcessOwner p then None else lock_at (lock_records m) f ow b)"
    unfolding remove_process_def remove_owner_def retain_records_def Let_def
    using lock_at_filter_pred [OF wf, of "\<lambda>r. lk_owner r \<noteq> ProcessOwner p" "\<lambda>f ow. ow \<noteq> ProcessOwner p"]
    by simp
  show "lock_at (lock_records (fst (remove_ofd m oid))) f ow b =
      (if ow = OpenFileDescription oid \<or> ow = Flock oid then None else lock_at (lock_records m) f ow b)"
    unfolding remove_ofd_def retain_records_def Let_def
    using lock_at_filter_pred [OF wf,
        of "\<lambda>r. \<not> (lk_owner r = OpenFileDescription oid \<or> lk_owner r = Flock oid)"
          "\<lambda>f ow. \<not> (ow = OpenFileDescription oid \<or> ow = Flock oid)"]
    by simp
qed

theorem remove_locks_exact_witness:
  "lock_at (lock_records (fst (remove_process demo_manager 1))) (HostFile 1 7) (ProcessOwner 1) 5 = None \<and>
   lock_at (lock_records (fst (remove_ofd demo_manager 1))) (HostFile 1 7) (ProcessOwner 1) 5 = Some WriteLock"
  using remove_locks_exact [OF demo_wf, of 1 "HostFile 1 7" "HostFile 1 7" "ProcessOwner 1" 5 1]
  by (simp add: lock_eval lock_at_def)

lemma grow_target_enough:
  "required \<le> MAX_ADVISORY_LOCK_RECORDS \<Longrightarrow> 0 < target \<Longrightarrow> required \<le> grow_target target required"
proof (induction target required rule: grow_target.induct)
  case (1 target required)
  then show ?case
    by (subst grow_target.simps) (auto simp: MAX_ADVISORY_LOCK_RECORDS_def USIZE_MAX_def)
qed

lemma ensure_capacity_enough:
  assumes "\<And>n c. reserve n = Some c \<Longrightarrow> n \<le> c" "ensure_capacity reserve m n = (m', Ok u)"
  shows "n \<le> lock_capacity m'"
  using assms grow_target_enough [of n "max (lock_capacity m) 4"]
  by (fastforce simp: ensure_capacity_def split: if_splits option.splits)

definition fits :: "lock_manager \<Rightarrow> bool" where
  "fits m \<longleftrightarrow> length (lock_records m) \<le> lock_capacity m"

lemma commit_fits:
  assumes "\<And>n c. reserve n = Some c \<Longrightarrow> n \<le> c" "fits m" "length recs = n"
  shows "fits (fst (case ensure_capacity reserve m n of
      (m1, Inl err) \<Rightarrow> (m1, Err err) | (m1, Inr _) \<Rightarrow> (m1\<lparr> lock_records := recs \<rparr>, Ok mu)))"
proof (cases "ensure_capacity reserve m n")
  case (Pair m1 x)
  then show ?thesis
    using ensure_capacity_cases [OF Pair] ensure_capacity_enough [of reserve m n m1, OF assms(1)] assms(2,3)
    by (cases x) (auto simp: fits_def)
qed

text \<open>The commit never reallocates: with an allocator that grants at least what it is asked for, a
  manager whose vector fits its capacity still fits it after any \<^verbatim>\<open>set_lock\<close>.\<close>

theorem set_lock_within_capacity:
  assumes "locks_wf (lock_records m)" "\<And>n c. reserve n = Some c \<Longrightarrow> n \<le> c" "fits m"
  shows "fits (fst (set_lock reserve m file owner lt req))"
proof -
  have s: "records_sorted (lock_records m)" using assms(1) by (simp add: locks_wf_def)
  show ?thesis
    unfolding set_lock_unfold [OF s] Let_def committed_length [symmetric]
    by (simp only: if_distrib [of fst] if_distrib [of fits] fst_conv)
      (simp add: assms(3) commit_fits [OF assms(2,3)])
qed

theorem set_lock_within_capacity_witness: "fits demo_unlocked"
  using set_lock_within_capacity [OF demo_wf, of Some "HostFile 1 7" "ProcessOwner 1" None
      "LockRange 40 (OffsetEnd 50)"]
  unfolding demo_unlock by (simp add: fits_def demo_manager_def)

end
