(* ===== verification/Sorted_Vector.thy ===== *)
theory Sorted_Vector
  imports Kandelo_Prelude
begin

text \<open>
  Vectors of key-value pairs kept sorted by key, as the kernel keeps several of its tables.
  A key-value vector with strictly increasing keys is a finite map: a hit of the binary search is
  the entry of the key, and replacing, inserting or removing at the index it reports is the
  corresponding update of the map.
\<close>

abbreviation keys_sorted :: "('k::linorder \<times> 'v) list \<Rightarrow> bool" where
  "keys_sorted xs \<equiv> sorted_wrt (<) (map fst xs)"

lemma keys_sorted_distinct: "keys_sorted xs \<Longrightarrow> distinct (map fst xs)"
  by (induction xs) auto

lemma binary_search_hit:
  "binary_search_key xs k = Inr i \<Longrightarrow> i < length xs \<and> fst (xs ! i) = k"
  by (auto simp: binary_search_key_def Let_def split: if_splits)

lemma binary_search_miss:
  assumes "keys_sorted xs" "binary_search_key xs k = Inl i"
  shows "k \<notin> fst ` set xs" "i = partition_point (\<lambda>p. fst p < k) xs"
proof -
  let ?P = "\<lambda>p. fst p < k"
  show i: "i = partition_point ?P xs"
    using assms(2) by (auto simp: binary_search_key_def Let_def split: if_splits)
  have no: "\<not> (i < length xs \<and> fst (xs ! i) = k)"
    using assms(2) i by (auto simp: binary_search_key_def Let_def split: if_splits)
  show "k \<notin> fst ` set xs"
  proof
    assume "k \<in> fst ` set xs"
    then obtain j where j: "j < length xs" "fst (xs ! j) = k" by (auto simp: in_set_conv_nth)
    have "\<not> j < i"
    proof
      assume "j < i"
      then have "?P (xs ! j)"
        using i by (metis nth_mem partition_point_def set_takeWhileD takeWhile_nth)
      then show False using j by simp
    qed
    moreover have "\<not> i < j"
    proof
      assume "i < j"
      then have "i < length xs" using j by simp
      then have "\<not> ?P (xs ! i)" using i nth_partition_point by blast
      moreover have "fst (xs ! i) < fst (xs ! j)"
        using sorted_wrt_nth_less [OF assms(1), of i j] \<open>i < j\<close> j by simp
      ultimately show False using j by simp
    qed
    ultimately show False using no j by (metis linorder_neqE_nat)
  qed
qed

lemma map_of_nth_update:
  assumes "distinct (map fst xs)" "i < length xs" "fst (xs ! i) = k"
  shows "map_of (xs[i := (k, v)]) = (map_of xs)(k \<mapsto> v)"
proof -
  have xs: "xs = take i xs @ xs ! i # drop (Suc i) xs" using assms(2) by (rule id_take_nth_drop)
  have "distinct (map fst (take i xs @ xs ! i # drop (Suc i) xs))" using assms(1) xs by argo
  then have "k \<notin> fst ` set (take i xs)" using assms(3) by auto
  then have none: "map_of (take i xs) k = None" by (simp add: map_of_eq_None_iff)
  have "map_of (xs[i := (k, v)]) = map_of (take i xs @ (k, v) # drop (Suc i) xs)"
    using assms(2) by (simp add: upd_conv_take_nth_drop)
  also have "\<dots> = (map_of (take i xs @ xs ! i # drop (Suc i) xs))(k \<mapsto> v)"
    using none assms(3) by (cases "xs ! i") (auto simp: map_of_append fun_eq_iff map_add_def split: option.splits)
  finally show ?thesis using xs by simp
qed

lemma map_of_insert_at:
  assumes "k \<notin> fst ` set xs"
  shows "map_of (insert_at i (k, v) xs) = (map_of xs)(k \<mapsto> v)"
proof -
  have "k \<notin> fst ` set (take i xs)" using assms by (auto dest: in_set_takeD)
  then have "map_of (take i xs) k = None" by (simp add: map_of_eq_None_iff)
  then have "map_of (insert_at i (k, v) xs) = (map_of (take i xs @ drop i xs))(k \<mapsto> v)"
    unfolding insert_at_def map_of_append by (auto simp: fun_eq_iff map_add_def split: option.splits)
  then show ?thesis by simp
qed

lemma map_of_remove_at:
  assumes "distinct (map fst xs)" "i < length xs" "fst (xs ! i) = k"
  shows "map_of (remove_at i xs) = (map_of xs)(k := None)"
proof -
  have xs: "xs = take i xs @ xs ! i # drop (Suc i) xs" using assms(2) by (rule id_take_nth_drop)
  have "distinct (map fst (take i xs @ xs ! i # drop (Suc i) xs))" using assms(1) xs by argo
  then have "k \<notin> fst ` set (take i xs)" "k \<notin> fst ` set (drop (Suc i) xs)" using assms(3) by auto
  then have none: "map_of (take i xs) k = None" "map_of (drop (Suc i) xs) k = None"
    by (simp_all add: map_of_eq_None_iff)
  have "map_of (remove_at i xs) = (map_of (take i xs @ xs ! i # drop (Suc i) xs))(k := None)"
    using none assms(3) unfolding remove_at_def
    by (cases "xs ! i") (auto simp: map_of_append fun_eq_iff map_add_def split: option.splits)
  then show ?thesis using xs by simp
qed

lemma keys_sorted_update: "i < length xs \<Longrightarrow> fst (xs ! i) = k \<Longrightarrow> keys_sorted xs \<Longrightarrow> keys_sorted (xs[i := (k, v)])"
  by (simp add: map_update) (metis length_map list_update_id nth_map)

lemma keys_sorted_remove: "keys_sorted xs \<Longrightarrow> keys_sorted (remove_at i xs)"
proof (cases "i < length xs")
  case True
  assume "keys_sorted xs"
  then have "keys_sorted (take i xs @ xs ! i # drop (Suc i) xs)"
    using id_take_nth_drop [OF True] by argo
  then show ?thesis by (simp add: remove_at_def sorted_wrt_append)
qed (simp add: remove_at_def)

lemma keys_sorted_insert:
  assumes s: "keys_sorted xs" and "k \<notin> fst ` set xs" "i = partition_point (\<lambda>p. fst p < k) xs"
  shows "keys_sorted (insert_at i (k, v) xs)"
proof -
  let ?P = "\<lambda>p. fst p < k"
  have eq: "insert_at i (k, v) xs = takeWhile ?P xs @ (k, v) # dropWhile ?P xs"
    by (simp add: insert_at_def assms(3) take_partition_point drop_partition_point)
  have lo: "\<forall>p\<in>set (takeWhile ?P xs). fst p < k" by (auto dest: set_takeWhileD)
  have hi: "\<forall>p\<in>set (dropWhile ?P xs). k < fst p"
    using s assms(2) by (induction xs) (auto dest: set_dropWhileD simp: not_less order.strict_iff_order)
  have "keys_sorted (takeWhile ?P xs @ dropWhile ?P xs)" using s by simp
  then have parts: "keys_sorted (takeWhile ?P xs)" "keys_sorted (dropWhile ?P xs)"
    unfolding map_append sorted_wrt_append by blast+
  show ?thesis unfolding eq using lo hi parts by (force simp: sorted_wrt_append)
qed

section \<open>Ordered maps\<close>

text \<open>
  A \<open>BTreeMap\<close> is such a vector: insertion replaces the value of a key that is present, iteration
  is in key order.
\<close>

definition btree_insert :: "('k::linorder \<times> 'v) list \<Rightarrow> 'k \<Rightarrow> 'v \<Rightarrow> ('k \<times> 'v) list" where
  "btree_insert xs k v =
     (case binary_search_key xs k of
        Inr i \<Rightarrow> xs[i := (k, v)]
      | Inl i \<Rightarrow> insert_at i (k, v) xs)"

definition btree_remove :: "('k \<times> 'v) list \<Rightarrow> 'k \<Rightarrow> ('k \<times> 'v) list" where
  "btree_remove xs k = filter (\<lambda>(k', _). k' \<noteq> k) xs"

definition btree_update :: "('k \<times> 'v) list \<Rightarrow> 'k \<Rightarrow> ('v \<Rightarrow> 'v) \<Rightarrow> ('k \<times> 'v) list" where
  "btree_update xs k f = map (\<lambda>(k', v). (k', if k' = k then f v else v)) xs"

lemma btree_insert_sorted: "keys_sorted xs \<Longrightarrow> keys_sorted (btree_insert xs k v)"
  by (auto simp: btree_insert_def binary_search_miss keys_sorted_insert
      dest: binary_search_hit intro: keys_sorted_update split: sum.splits)

lemma map_of_btree_insert: "keys_sorted xs \<Longrightarrow> map_of (btree_insert xs k v) = (map_of xs)(k \<mapsto> v)"
  by (auto simp: btree_insert_def keys_sorted_distinct map_of_nth_update binary_search_miss map_of_insert_at
      dest: binary_search_hit split: sum.splits)

lemma btree_insert_last:
  assumes "\<forall>p\<in>set xs. fst p < k"
  shows "btree_insert xs k v = xs @ [(k, v)]"
proof -
  have "partition_point (\<lambda>p. fst p < k) xs = length xs"
    unfolding partition_point_def using assms by (metis takeWhile_eq_all_conv)
  then show ?thesis by (simp add: btree_insert_def binary_search_key_def insert_at_def Let_def)
qed

lemma btree_rebuild:
  "keys_sorted (acc @ xs) \<Longrightarrow> foldl (\<lambda>m p. btree_insert m (fst p) (snd p)) acc xs = acc @ xs"
proof (induction xs arbitrary: acc)
  case (Cons p xs)
  have "btree_insert acc (fst p) (snd p) = acc @ [p]"
    using Cons.prems by (intro btree_insert_last [THEN trans]) (auto simp: sorted_wrt_append)
  then show ?case using Cons.IH [of "acc @ [p]"] Cons.prems by simp
qed simp

lemma btree_remove_sorted: "keys_sorted xs \<Longrightarrow> keys_sorted (btree_remove xs k)"
  by (induction xs) (auto simp: btree_remove_def)

lemma map_of_btree_remove: "map_of (btree_remove xs k) = (map_of xs)(k := None)"
  by (induction xs) (auto simp: btree_remove_def fun_eq_iff)

lemma btree_update_keys [simp]: "map fst (btree_update xs k f) = map fst xs"
  by (simp add: btree_update_def case_prod_beta comp_def)

lemma map_of_btree_update: "map_of (btree_update xs k f) = (map_of xs)(k := map_option f (map_of xs k))"
  by (induction xs) (auto simp: btree_update_def fun_eq_iff)

lemma btree_mem: "keys_sorted xs \<Longrightarrow> (k, v) \<in> set xs \<longleftrightarrow> map_of xs k = Some v"
  by (simp add: keys_sorted_distinct)

lemma btree_update_cong:
  "keys_sorted xs \<Longrightarrow> map_of xs k = Some v \<Longrightarrow> f v = g v \<Longrightarrow> btree_update xs k f = btree_update xs k g"
  by (auto simp: btree_update_def btree_mem)

lemmas btree_simps = btree_insert_sorted map_of_btree_insert btree_remove_sorted map_of_btree_remove
  map_of_btree_update

end
