(* ===== verification/Ofd_Table.thy ===== *)
theory Ofd_Table
  imports Lock_Range Sorted_Vector
begin

text \<open>
  Open file descriptions (\<^verbatim>\<open>src/crates/kernel/src/ofd.rs\<close>): the per-process table of
  descriptions with its reference counts, and the three machine-wide counters that outlive a
  process: the last identity handed out, the references held by descriptors in flight over
  SCM_RIGHTS, and the number of processes sharing a host handle.  Aborts of the source (the
  exhausted identity space, the reserved identity 0) are the value \<open>None\<close>.
\<close>

section \<open>Machine-wide state\<close>

definition allocate_ofd_id :: "nat \<Rightarrow> (nat \<times> ofd_id) option" where
  "allocate_ofd_id prev =
     (case checked_add_to U64_MAX prev 1 of
        None \<Rightarrow> None
      | Some n \<Rightarrow> Some (n, prev + 1))"

definition observe_ofd_id :: "nat \<Rightarrow> ofd_id \<Rightarrow> nat option" where
  "observe_ofd_id prev oid = (if oid = 0 then None else Some (max prev oid))"

text \<open>\<open>can_reserve\<close> is whether \<^verbatim>\<open>try_reserve(1)\<close> succeeds.\<close>

definition retain_in_flight_ofd ::
  "bool \<Rightarrow> (ofd_id \<times> nat) list \<Rightarrow> ofd_id \<Rightarrow> (ofd_id \<times> nat) list \<times> unit result" where
  "retain_in_flight_ofd can_reserve refs oid =
     (if oid = 0 then (refs, Err EINVAL)
      else
        (case binary_search_key refs oid of
           Inr i \<Rightarrow>
             (case checked_add_to U32_MAX (snd (refs ! i)) 1 of
                None \<Rightarrow> (refs, Err EOVERFLOW)
              | Some c \<Rightarrow> (refs[i := (fst (refs ! i), c)], Ok ()))
         | Inl i \<Rightarrow>
             if can_reserve then (insert_at i (oid, 1) refs, Ok ()) else (refs, Err ENOMEM)))"

definition release_in_flight_ofd :: "(ofd_id \<times> nat) list \<Rightarrow> ofd_id \<Rightarrow> (ofd_id \<times> nat) list \<times> bool" where
  "release_in_flight_ofd refs oid =
     (case binary_search_key refs oid of
        Inl _ \<Rightarrow> (refs, False)
      | Inr i \<Rightarrow>
          if snd (refs ! i) > 1 then (refs[i := (fst (refs ! i), snd (refs ! i) - 1)], False)
          else (remove_at i refs, True))"

definition has_in_flight_ofd :: "(ofd_id \<times> nat) list \<Rightarrow> ofd_id \<Rightarrow> bool" where
  "has_in_flight_ofd refs oid = (case binary_search_key refs oid of Inl _ \<Rightarrow> False | Inr _ \<Rightarrow> True)"

text \<open>A handle that is not in the table has the implicit count 1.\<close>

type_synonym host_refs = "int \<rightharpoonup> u32"

definition host_handle_fork_ref :: "host_refs \<Rightarrow> int \<Rightarrow> host_refs" where
  "host_handle_fork_ref refs h =
     (let c = (case refs h of None \<Rightarrow> 1 | Some c \<Rightarrow> c) in refs(h \<mapsto> c + 1))"

definition host_handle_close_ref :: "host_refs \<Rightarrow> int \<Rightarrow> host_refs \<times> bool" where
  "host_handle_close_ref refs h =
     (case refs h of
        Some c \<Rightarrow>
          (let c' = c - 1
           in if c' = 0 then (refs(h := None), True) else (refs(h \<mapsto> c'), False))
      | None \<Rightarrow> (refs, True))"

section \<open>Descriptions\<close>

definition O_RDONLY :: u32 where "O_RDONLY = 0"
definition O_WRONLY :: u32 where "O_WRONLY = 1"
definition O_APPEND :: u32 where "O_APPEND = 0x400"
definition O_NONBLOCK :: u32 where "O_NONBLOCK = 0x800"
definition O_PATH :: u32 where "O_PATH = 0x200000"

definition SETFL_MODIFIABLE :: u32 where
  "SETFL_MODIFIABLE = O_APPEND OR O_NONBLOCK"

datatype file_type = Regular | Directory | Pipe | CharDevice | Socket | EventFd | Epoll | TimerFd
  | SignalFd | MemFd | PtyMaster | PtySlave

type_synonym bo_id = nat
type_synonym prime_cookie = nat

record cmdbuf_binding =
  cb_addr :: nat
  cb_len :: nat
  submit_seq :: nat

record gl_state =
  gl_initialized :: bool
  context_id :: "nat option"
  surface_id :: "nat option"
  gl_current :: bool
  cmdbuf :: "cmdbuf_binding option"

record prime_bo_state =
  prime_bo_id :: bo_id
  prime_cookie :: prime_cookie

record dri_fd_state =
  handles :: "(nat \<times> bo_id) list"
  next_handle :: nat
  gl :: "gl_state option"

definition dri_fd_state_default :: dri_fd_state where
  "dri_fd_state_default = \<lparr> handles = [], next_handle = 1, gl = None \<rparr>"

record kms_fb =
  fb_bo_id :: bo_id
  fb_width :: nat
  fb_height :: nat
  pixel_format :: nat
  fb_stride :: nat

record pending_flip =
  flip_crtc_id :: nat
  flip_fb_id :: nat
  user_data :: nat

record kms_fd_state =
  holds_master :: bool
  fbs :: "(nat \<times> kms_fb) list"
  next_fb_id :: nat
  pending_flips :: "pending_flip list"
  event_ring :: "u8 list"

datatype dri_ofd_state =
    PrimeBo prime_bo_state
  | RenderNode dri_fd_state
  | Card dri_fd_state kms_fd_state

record open_file_desc =
  ofd_id :: ofd_id
  ofd_file_id :: "file_id option"
  file_type :: file_type
  status_flags :: u32
  host_handle :: int
  ofd_offset :: int
  ref_count :: u32
  owner_pid :: nat
  ofd_path :: "u8 list"
  dir_host_handle :: int
  dir_synth_state :: nat
  dir_entry_offset :: int
  dri_state :: "dri_ofd_state option"

definition is_path_only :: "open_file_desc \<Rightarrow> bool" where
  "is_path_only f \<longleftrightarrow> status_flags f AND O_PATH \<noteq> 0"

definition ofd_dri :: "open_file_desc \<Rightarrow> dri_fd_state option" where
  "ofd_dri f =
     (case dri_state f of
        Some (RenderNode d) \<Rightarrow> Some d
      | Some (Card d _) \<Rightarrow> Some d
      | _ \<Rightarrow> None)"

definition ofd_dri_mut :: "open_file_desc \<Rightarrow> (dri_fd_state \<Rightarrow> dri_fd_state) \<Rightarrow> open_file_desc" where
  "ofd_dri_mut f upd =
     (case dri_state f of
        Some (RenderNode d) \<Rightarrow> f\<lparr> dri_state := Some (RenderNode (upd d)) \<rparr>
      | Some (Card d k) \<Rightarrow> f\<lparr> dri_state := Some (Card (upd d) k) \<rparr>
      | _ \<Rightarrow> f)"

definition ofd_prime_bo :: "open_file_desc \<Rightarrow> prime_bo_state option" where
  "ofd_prime_bo f = (case dri_state f of Some (PrimeBo p) \<Rightarrow> Some p | _ \<Rightarrow> None)"

definition take_prime_bo :: "open_file_desc \<Rightarrow> open_file_desc \<times> prime_bo_state option" where
  "take_prime_bo f =
     (case dri_state f of
        Some (PrimeBo p) \<Rightarrow> (f\<lparr> dri_state := None \<rparr>, Some p)
      | _ \<Rightarrow> (f, None))"

definition ofd_kms :: "open_file_desc \<Rightarrow> kms_fd_state option" where
  "ofd_kms f = (case dri_state f of Some (Card _ k) \<Rightarrow> Some k | _ \<Rightarrow> None)"

definition ofd_kms_mut :: "open_file_desc \<Rightarrow> (kms_fd_state \<Rightarrow> kms_fd_state) \<Rightarrow> open_file_desc" where
  "ofd_kms_mut f upd =
     (case dri_state f of
        Some (Card d k) \<Rightarrow> f\<lparr> dri_state := Some (Card d (upd k)) \<rparr>
      | _ \<Rightarrow> f)"

section \<open>The table\<close>

type_synonym ofd_table = "open_file_desc option list"

definition ofd_insert :: "ofd_table \<Rightarrow> open_file_desc \<Rightarrow> ofd_table \<times> nat" where
  "ofd_insert t f = slot_insert t f"

definition fresh_ofd :: "ofd_id \<Rightarrow> file_id option \<Rightarrow> file_type \<Rightarrow> u32 \<Rightarrow> int \<Rightarrow> int \<Rightarrow> u8 list \<Rightarrow> open_file_desc" where
  "fresh_ofd oid fid ft flags h off p =
     \<lparr> ofd_id = oid, ofd_file_id = fid, file_type = ft, status_flags = flags, host_handle = h,
       ofd_offset = off, ref_count = 1, owner_pid = 0, ofd_path = p, dir_host_handle = - 1,
       dir_synth_state = 0, dir_entry_offset = 0, dri_state = None \<rparr>"

definition ofd_create ::
  "nat \<Rightarrow> ofd_table \<Rightarrow> file_type \<Rightarrow> u32 \<Rightarrow> int \<Rightarrow> u8 list \<Rightarrow> (nat \<times> ofd_table \<times> nat) option" where
  "ofd_create prev t ft flags h p =
     (case allocate_ofd_id prev of
        None \<Rightarrow> None
      | Some (prev', oid) \<Rightarrow> Some (prev', ofd_insert t (fresh_ofd oid None ft flags h 0 p)))"

definition ofd_create_transferred ::
  "nat \<Rightarrow> ofd_table \<Rightarrow> ofd_id \<Rightarrow> file_id option \<Rightarrow> file_type \<Rightarrow> u32 \<Rightarrow> int \<Rightarrow> int \<Rightarrow> u8 list
   \<Rightarrow> (nat \<times> ofd_table \<times> nat) option" where
  "ofd_create_transferred prev t oid fid ft flags h off p =
     (case observe_ofd_id prev oid of
        None \<Rightarrow> None
      | Some prev' \<Rightarrow> Some (prev', ofd_insert t (fresh_ofd oid fid ft flags h off p)))"

definition ofd_get :: "ofd_table \<Rightarrow> nat \<Rightarrow> open_file_desc option" where
  "ofd_get t i = slot t i"

definition ofd_get_mut :: "ofd_table \<Rightarrow> nat \<Rightarrow> (open_file_desc \<Rightarrow> open_file_desc) \<Rightarrow> ofd_table" where
  "ofd_get_mut t i upd = (case slot t i of None \<Rightarrow> t | Some f \<Rightarrow> t[i := Some (upd f)])"

definition inc_ref :: "ofd_table \<Rightarrow> nat \<Rightarrow> ofd_table" where
  "inc_ref t i = ofd_get_mut t i (\<lambda>f. f\<lparr> ref_count := ref_count f + 1 \<rparr>)"

definition dec_ref :: "ofd_table \<Rightarrow> nat \<Rightarrow> ofd_table \<times> bool" where
  "dec_ref t i =
     (case slot t i of
        None \<Rightarrow> (t, False)
      | Some f \<Rightarrow>
          (let c = ref_count f - 1
           in if c = 0 then (t[i := None], True)
              else (t[i := Some (f\<lparr> ref_count := c \<rparr>)], False)))"

definition ofd_iter :: "ofd_table \<Rightarrow> (nat \<times> open_file_desc) list" where
  "ofd_iter t = List.map_filter (\<lambda>i. map_option (Pair i) (t ! i)) [0..<length t]"

definition ofd_from_raw :: "nat \<Rightarrow> ofd_table \<Rightarrow> (nat \<times> ofd_table) option" where
  "ofd_from_raw prev entries =
     map_option (\<lambda>l. (l, entries))
       (foldl (\<lambda>acc e. case (acc, e) of
                 (None, _) \<Rightarrow> None
               | (Some l, None) \<Rightarrow> Some l
               | (Some l, Some f) \<Rightarrow> observe_ofd_id l (ofd_id f)) (Some prev) entries)"

definition set_status_flags :: "ofd_table \<Rightarrow> nat \<Rightarrow> u32 \<Rightarrow> ofd_table" where
  "set_status_flags t i new_flags =
     ofd_get_mut t i (\<lambda>f. f\<lparr> status_flags :=
       (status_flags f AND NOT SETFL_MODIFIABLE) OR (new_flags AND SETFL_MODIFIABLE) \<rparr>)"

section \<open>Counters and identities\<close>

lemma u32_succ: "unat (c :: u32) < U32_MAX \<Longrightarrow> unat (c + 1) = Suc (unat c)"
  by (simp add: unat_word_ariths U32_MAX_def)

lemma u32_pred: "0 < unat (c :: u32) \<Longrightarrow> unat (c - 1) = unat c - 1"
  by (simp add: unat_sub word_le_nat_alt)

lemma u32_pred_zero: "0 < unat (c :: u32) \<Longrightarrow> c - 1 = 0 \<longleftrightarrow> unat c = 1"
  unfolding word_unat_eq_iff using u32_pred [of c] by auto

definition ofd_count :: "ofd_table \<Rightarrow> nat \<Rightarrow> nat" where
  "ofd_count t i = (case slot t i of None \<Rightarrow> 0 | Some f \<Rightarrow> unat (ref_count f))"

definition host_count :: "host_refs \<Rightarrow> int \<Rightarrow> nat" where
  "host_count r h = (case r h of None \<Rightarrow> 1 | Some c \<Rightarrow> unat c)"

definition host_wf :: "host_refs \<Rightarrow> bool" where
  "host_wf r \<longleftrightarrow> (\<forall>h. r h \<noteq> Some 0)"

definition in_flight_count :: "(ofd_id \<times> nat) list \<Rightarrow> ofd_id \<Rightarrow> nat" where
  "in_flight_count refs oid = (case map_of refs oid of None \<Rightarrow> 0 | Some c \<Rightarrow> c)"

definition in_flight_wf :: "(ofd_id \<times> nat) list \<Rightarrow> bool" where
  "in_flight_wf refs \<longleftrightarrow> keys_sorted refs \<and> (\<forall>(k, c)\<in>set refs. 0 < k \<and> 0 < c)"

text \<open>The table hands out unused slots.\<close>

interpretation ofd_slots: slot_store ofd_get ofd_insert "\<lambda>i f. f" "\<lambda>t. True"
  by unfold_locales
    (auto simp: ofd_get_def ofd_insert_def slot_insert_fresh slot_insert_slot fun_eq_iff)

text \<open>Reference counts of one process's descriptions.\<close>

interpretation ofd_refs: ref_counter ofd_count inc_ref dec_ref "\<lambda>t. True" U32_MAX
proof unfold_locales
  fix t k
  assume pos: "0 < ofd_count t k"
  then obtain f where f: "slot t k = Some f" "0 < unat (ref_count f)" "k < length t"
    by (auto simp: ofd_count_def dest: slot_Some_less split: option.splits)
  show "ofd_count (inc_ref t k) = (ofd_count t)(k := Suc (ofd_count t k))" if "ofd_count t k < U32_MAX"
    using f that u32_succ by (auto simp: inc_ref_def ofd_get_mut_def ofd_count_def slot_update fun_eq_iff)
  show "snd (dec_ref t k) \<longleftrightarrow> ofd_count t k = 1"
    using f u32_pred_zero by (simp add: dec_ref_def ofd_count_def Let_def)
  show "ofd_count (fst (dec_ref t k)) j = ofd_count t j" if "j \<noteq> k" for j
    using f that by (auto simp: dec_ref_def ofd_count_def Let_def slot_update)
next
  fix t k
  assume "1 < ofd_count t k"
  then obtain f where f: "slot t k = Some f" "1 < unat (ref_count f)" "k < length t"
    by (auto simp: ofd_count_def dest: slot_Some_less split: option.splits)
  then show "ofd_count (fst (dec_ref t k)) k = ofd_count t k - 1"
    using u32_pred u32_pred_zero by (auto simp: dec_ref_def ofd_count_def Let_def slot_update)
qed auto

text \<open>Host handles shared over fork.\<close>

interpretation host_handles: ref_counter host_count host_handle_fork_ref host_handle_close_ref host_wf U32_MAX
proof unfold_locales
  fix r k
  assume wf: "host_wf r"
  have pos: "0 < unat c" if "r k = Some c" for c using wf that by (auto simp: host_wf_def unat_gt_0)
  show "host_count (host_handle_fork_ref r k) = (host_count r)(k := Suc (host_count r k))"
    if "host_count r k < U32_MAX"
    using that u32_succ
    by (auto simp: host_count_def host_handle_fork_ref_def fun_eq_iff split: option.splits)
  show "host_wf (host_handle_fork_ref r k)" if "host_count r k < U32_MAX"
    using wf that u32_succ
    by (auto simp: host_wf_def host_count_def host_handle_fork_ref_def Let_def split: option.splits if_splits)
      (metis nat.distinct(1) unat_0)+
  show "snd (host_handle_close_ref r k) \<longleftrightarrow> host_count r k = 1"
    using pos u32_pred_zero
    by (auto simp: host_count_def host_handle_close_ref_def Let_def split: option.splits)
  show "host_count (fst (host_handle_close_ref r k)) k = host_count r k - 1" if "1 < host_count r k"
    using that pos u32_pred u32_pred_zero
    by (auto simp: host_count_def host_handle_close_ref_def Let_def split: option.splits)
  show "host_count (fst (host_handle_close_ref r k)) j = host_count r j" if "j \<noteq> k" for j
    using that by (auto simp: host_count_def host_handle_close_ref_def Let_def split: option.splits)
  show "host_wf (fst (host_handle_close_ref r k))"
    using wf by (auto simp: host_wf_def host_handle_close_ref_def Let_def split: option.splits)
qed

text \<open>Descriptions held by descriptors in flight.\<close>

lemma in_flight_wfD:
  assumes "in_flight_wf refs"
  shows "keys_sorted refs" "distinct (map fst refs)" "(k, c) \<in> set refs \<Longrightarrow> 0 < k \<and> 0 < c"
  using assms keys_sorted_distinct by (auto simp: in_flight_wf_def)

lemma in_flight_hit:
  assumes "in_flight_wf refs" "0 < in_flight_count refs k"
  obtains i where "binary_search_key refs k = Inr i" "i < length refs"
    "refs ! i = (k, in_flight_count refs k)"
proof -
  from assms(2) obtain c where c: "map_of refs k = Some c" "in_flight_count refs k = c"
    by (auto simp: in_flight_count_def split: option.splits)
  then have mem: "(k, c) \<in> set refs" by (auto dest: map_of_SomeD)
  obtain i where i: "binary_search_key refs k = Inr i"
    using binary_search_miss(1) [OF in_flight_wfD(1) [OF assms(1)], of k] mem
    by (cases "binary_search_key refs k") force+
  then have hit: "i < length refs" "fst (refs ! i) = k" using binary_search_hit by blast+
  then have "map_of refs k = Some (snd (refs ! i))"
    using in_flight_wfD(2) [OF assms(1)] by (metis map_of_is_SomeI nth_mem prod.collapse)
  then show ?thesis using that [OF i hit(1)] hit(2) c by (metis option.inject prod.collapse)
qed

lemma retain_in_flight_hit:
  assumes "in_flight_wf refs" "0 < in_flight_count refs k" "in_flight_count refs k < U32_MAX"
  shows "snd (retain_in_flight_ofd b refs k) = Ok ()"
    and "in_flight_count (fst (retain_in_flight_ofd b refs k)) =
      (in_flight_count refs)(k := Suc (in_flight_count refs k))"
    and "in_flight_wf (fst (retain_in_flight_ofd b refs k))"
proof -
  obtain i where i: "binary_search_key refs k = Inr i" "i < length refs"
      "refs ! i = (k, in_flight_count refs k)"
    by (rule in_flight_hit [OF assms(1,2)])
  have k: "0 < k" using in_flight_wfD(3) [OF assms(1)] i by (metis nth_mem)
  have eq: "retain_in_flight_ofd b refs k = (refs[i := (k, Suc (in_flight_count refs k))], Ok ())"
    using i k assms(3) by (simp add: retain_in_flight_ofd_def checked_add_to_def)
  show "snd (retain_in_flight_ofd b refs k) = Ok ()" by (simp add: eq)
  show "in_flight_count (fst (retain_in_flight_ofd b refs k)) =
      (in_flight_count refs)(k := Suc (in_flight_count refs k))"
    using map_of_nth_update [OF in_flight_wfD(2) [OF assms(1)] i(2), of k] i(3)
    by (auto simp: eq in_flight_count_def fun_eq_iff)
  show "in_flight_wf (fst (retain_in_flight_ofd b refs k))"
    using keys_sorted_update [OF i(2) _ in_flight_wfD(1) [OF assms(1)], of k] i(3) k assms(1)
      set_update_subset_insert [of refs i]
    by (fastforce simp: eq in_flight_wf_def)
qed

lemma release_in_flight_hit:
  assumes "in_flight_wf refs" "0 < in_flight_count refs k"
  shows "snd (release_in_flight_ofd refs k) \<longleftrightarrow> in_flight_count refs k = 1"
    and "in_flight_count (fst (release_in_flight_ofd refs k)) =
      (in_flight_count refs)(k := in_flight_count refs k - 1)"
    and "in_flight_wf (fst (release_in_flight_ofd refs k))"
proof -
  obtain i where i: "binary_search_key refs k = Inr i" "i < length refs"
      "refs ! i = (k, in_flight_count refs k)"
    by (rule in_flight_hit [OF assms])
  have k: "0 < k" using in_flight_wfD(3) [OF assms(1)] i by (metis nth_mem)
  have eq: "release_in_flight_ofd refs k =
      (if 1 < in_flight_count refs k then (refs[i := (k, in_flight_count refs k - 1)], False)
       else (remove_at i refs, True))"
    using i by (simp add: release_in_flight_ofd_def)
  show "snd (release_in_flight_ofd refs k) \<longleftrightarrow> in_flight_count refs k = 1"
    using assms(2) by (simp add: eq)
  show "in_flight_count (fst (release_in_flight_ofd refs k)) =
      (in_flight_count refs)(k := in_flight_count refs k - 1)"
    using map_of_nth_update [OF in_flight_wfD(2) [OF assms(1)] i(2), of k]
      map_of_remove_at [OF in_flight_wfD(2) [OF assms(1)] i(2), of k] i(3) assms(2)
    by (auto simp: eq in_flight_count_def fun_eq_iff)
  show "in_flight_wf (fst (release_in_flight_ofd refs k))"
  proof (cases "1 < in_flight_count refs k")
    case True
    then show ?thesis
      using keys_sorted_update [OF i(2) _ in_flight_wfD(1) [OF assms(1)], of k] i(3) k assms(1)
        set_update_subset_insert [of refs i]
      by (fastforce simp: eq in_flight_wf_def)
  next
    case False
    then show ?thesis
      using keys_sorted_remove [OF in_flight_wfD(1) [OF assms(1)]] set_remove_at_subset [of i refs] assms(1)
      by (auto simp: eq in_flight_wf_def)
  qed
qed

interpretation in_flight: ref_counter in_flight_count "\<lambda>refs k. fst (retain_in_flight_ofd True refs k)"
  release_in_flight_ofd in_flight_wf U32_MAX
  by unfold_locales (simp_all add: retain_in_flight_hit release_in_flight_hit)

lemma retain_in_flight_new:
  assumes "in_flight_wf refs" "in_flight_count refs k = 0" "0 < k"
  shows "snd (retain_in_flight_ofd True refs k) = Ok () \<and>
    in_flight_wf (fst (retain_in_flight_ofd True refs k)) \<and>
    in_flight_count (fst (retain_in_flight_ofd True refs k)) = (in_flight_count refs)(k := 1)"
proof -
  have absent: "k \<notin> fst ` set refs"
  proof
    assume "k \<in> fst ` set refs"
    then obtain c where "(k, c) \<in> set refs" by auto
    then have "map_of refs k = Some c \<and> 0 < c"
      using in_flight_wfD [OF assms(1)] by (metis map_of_is_SomeI)
    then show False using assms(2) by (simp add: in_flight_count_def)
  qed
  obtain i where i: "binary_search_key refs k = Inl i"
  proof (cases "binary_search_key refs k")
    case (Inr i)
    then have "i < length refs" "fst (refs ! i) = k" using binary_search_hit by blast+
    then have "k \<in> fst ` set refs" using nth_mem by blast
    then show ?thesis using absent by simp
  qed
  have eq: "retain_in_flight_ofd True refs k = (insert_at i (k, 1) refs, Ok ())"
    using i assms(3) by (simp add: retain_in_flight_ofd_def)
  show ?thesis
    using map_of_insert_at [OF absent, of i 1] keys_sorted_insert [OF in_flight_wfD(1) [OF assms(1)] absent]
      binary_search_miss(2) [OF in_flight_wfD(1) [OF assms(1)] i] assms
    by (auto simp: eq in_flight_wf_def in_flight_count_def fun_eq_iff)
qed

section \<open>The properties of open file descriptions\<close>

text \<open>Every identity in use is nonzero and not above the last one handed out.\<close>

definition ids_known :: "nat \<Rightarrow> ofd_table \<Rightarrow> bool" where
  "ids_known prev t \<longleftrightarrow> (\<forall>i f. slot t i = Some f \<longrightarrow> 0 < ofd_id f \<and> ofd_id f \<le> prev)"

text \<open>C9. A newly created open file description gets an identity that is nonzero, fits 64 bits and
  differs from that of every description already in a table; it lands in an unused slot with
  reference count 1 and leaves the other slots alone.  Creation aborts only when the identity
  space is exhausted.\<close>

theorem ofd_create_fresh:
  assumes "ids_known prev t"
  shows "(ofd_create prev t ft flags h p = None \<longleftrightarrow> U64_MAX \<le> prev) \<and>
    (\<forall>prev' t' i. ofd_create prev t ft flags h p = Some (prev', t', i) \<longrightarrow>
      (\<exists>f. ofd_get t i = None \<and> ofd_get t' = (ofd_get t)(i \<mapsto> f) \<and>
         ref_count f = 1 \<and> file_type f = ft \<and> status_flags f = flags \<and> host_handle f = h \<and> ofd_path f = p \<and>
         0 < ofd_id f \<and> ofd_id f \<le> U64_MAX \<and>
         (\<forall>j g. ofd_get t j = Some g \<longrightarrow> ofd_id g \<noteq> ofd_id f) \<and> ids_known prev' t'))"
proof (intro conjI allI impI)
  show "ofd_create prev t ft flags h p = None \<longleftrightarrow> U64_MAX \<le> prev"
    by (auto simp: ofd_create_def allocate_ofd_id_def split: option.splits)
  fix prev' t' i
  assume eq: "ofd_create prev t ft flags h p = Some (prev', t', i)"
  let ?f = "fresh_ofd (Suc prev) None ft flags h 0 p"
  have lim: "prev' = Suc prev" "Suc prev \<le> U64_MAX" and ins: "ofd_insert t ?f = (t', i)"
    using eq by (auto simp: ofd_create_def allocate_ofd_id_def split: option.splits)
  have fr: "ofd_get t i = None" and up: "ofd_get t' = (ofd_get t)(i \<mapsto> ?f)"
    using ofd_slots.insert_fresh [OF _ ins] ofd_slots.insert_lookup [OF _ ins] by simp_all
  have "ids_known prev' t'"
    using assms up lim(1) unfolding ids_known_def ofd_get_def fun_eq_iff
    by (auto simp: fresh_ofd_def) (metis le_SucI)+
  moreover have "\<forall>j g. ofd_get t j = Some g \<longrightarrow> ofd_id g \<noteq> ofd_id ?f"
    using assms unfolding ids_known_def ofd_get_def by (force simp: fresh_ofd_def)
  ultimately show "\<exists>f. ofd_get t i = None \<and> ofd_get t' = (ofd_get t)(i \<mapsto> f) \<and>
         ref_count f = 1 \<and> file_type f = ft \<and> status_flags f = flags \<and> host_handle f = h \<and> ofd_path f = p \<and>
         0 < ofd_id f \<and> ofd_id f \<le> U64_MAX \<and>
         (\<forall>j g. ofd_get t j = Some g \<longrightarrow> ofd_id g \<noteq> ofd_id f) \<and> ids_known prev' t'"
    using fr up lim(2) by (intro exI [of _ ?f]) (auto simp: fresh_ofd_def)
qed

theorem ofd_create_fresh_witness:
  "\<exists>t' i f. ofd_create 7 [] Regular 0 3 [] = Some (8, t', i) \<and> ofd_get t' i = Some f \<and> ofd_id f = 8"
proof -
  have wf: "ids_known 7 []" by (simp add: ids_known_def)
  have eq: "ofd_create 7 [] Regular 0 3 [] = Some (8, [Some (fresh_ofd 8 None Regular 0 3 0 [])], 0)"
    by (simp add: ofd_create_def allocate_ofd_id_def checked_add_to_def U64_MAX_def ofd_insert_def
        slot_insert_def first_none_def)
  from ofd_create_fresh [OF wf, THEN conjunct2, rule_format, OF eq] obtain f where
    "ofd_get [Some (fresh_ofd 8 None Regular 0 3 0 [])] 0 = Some f" by (auto simp: fun_eq_iff)
  then show ?thesis using eq by (auto simp: ofd_get_def slot_def fresh_ofd_def)
qed

text \<open>The fate of one slot under a sequence of retains and releases.\<close>

lemma inc_ref_get:
  "ofd_get (inc_ref t k) = (ofd_get t)(k := map_option (\<lambda>f. f\<lparr> ref_count := ref_count f + 1 \<rparr>) (ofd_get t k))"
  by (auto simp: inc_ref_def ofd_get_def ofd_get_mut_def slot_update fun_eq_iff dest: slot_Some_less split: option.splits)

lemma dec_ref_get:
  "ofd_get (fst (dec_ref t k)) = (ofd_get t)(k := (case ofd_get t k of None \<Rightarrow> None
     | Some f \<Rightarrow> if ref_count f = 1 then None else Some (f\<lparr> ref_count := ref_count f - 1 \<rparr>)))"
  by (auto simp: dec_ref_def ofd_get_def slot_update fun_eq_iff Let_def dest: slot_Some_less split: option.splits)

definition slot_after :: "nat ref_op list \<Rightarrow> nat \<Rightarrow> open_file_desc option \<Rightarrow> open_file_desc option" where
  "slot_after ops i d =
     (case d of
        None \<Rightarrow> None
      | Some f \<Rightarrow>
          if ref_count f = 0 then Some f
          else (case balance U32_MAX i (unat (ref_count f)) ops of
                  None \<Rightarrow> None
                | Some n \<Rightarrow> if n = 0 then None else Some (f\<lparr> ref_count := of_nat n \<rparr>)))"

lemma ofd_count_get: "ofd_count t i = (case ofd_get t i of None \<Rightarrow> 0 | Some f \<Rightarrow> unat (ref_count f))"
  by (simp add: ofd_count_def ofd_get_def)

lemma dec_ref_count: "0 < ofd_count t k \<Longrightarrow> ofd_count (fst (dec_ref t k)) = (ofd_count t)(k := ofd_count t k - 1)"
  using u32_pred by (auto simp: ofd_count_get dec_ref_get fun_eq_iff split: option.splits)

lemma slot_after_retain:
  assumes "0 < ofd_count t k" "ofd_count t k < U32_MAX"
  shows "slot_after ops i (ofd_get (inc_ref t k) i) = slot_after (Retain k # ops) i (ofd_get t i)"
proof (cases "i = k")
  case True
  obtain f where f: "ofd_get t k = Some f" "0 < unat (ref_count f)" "unat (ref_count f) < U32_MAX"
    using assms by (auto simp: ofd_count_get split: option.splits)
  then have "unat (ref_count f + 1) = Suc (unat (ref_count f))" by (simp add: u32_succ)
  moreover from this have "ref_count f + 1 \<noteq> 0" by (metis nat.distinct(1) unat_0)
  moreover have "ref_count f \<noteq> 0" using f(2) by auto
  ultimately show ?thesis using True f by (simp add: inc_ref_get slot_after_def split: option.split)
qed (simp add: inc_ref_get slot_after_def split: option.split)

lemma slot_after_release:
  assumes "0 < ofd_count t k" "balance U32_MAX k (ofd_count t k) (Release k # ops) \<noteq> None"
  shows "slot_after ops i (ofd_get (fst (dec_ref t k)) i) = slot_after (Release k # ops) i (ofd_get t i)"
proof (cases "i = k")
  case True
  obtain f where f: "ofd_get t k = Some f" "0 < unat (ref_count f)" "ofd_count t k = unat (ref_count f)"
    using assms(1) by (auto simp: ofd_count_get split: option.splits)
  have u: "unat (ref_count f - 1) = unat (ref_count f) - 1" "ref_count f \<noteq> 0" using f(2) u32_pred by auto
  show ?thesis
  proof (cases "ref_count f = 1")
    case one: True
    then have "balance U32_MAX k 0 ops = Some 0" using assms(2) f balance_zero [of U32_MAX k ops] by auto
    then show ?thesis using True f one by (simp add: dec_ref_get slot_after_def)
  next
    case False
    then have "ref_count f - 1 \<noteq> 0" by simp
    then show ?thesis using True f False u by (simp add: dec_ref_get slot_after_def split: option.split)
  qed
qed (simp add: dec_ref_get slot_after_def split: option.split)

lemma balance_bound: "balance lim k n ops = Some m \<Longrightarrow> n \<le> lim \<Longrightarrow> m \<le> lim"
  by (induction lim k n ops rule: balance.induct) (auto split: if_splits)

lemma exec_slot:
  assumes "\<forall>j. balance U32_MAX j (ofd_count t j) ops \<noteq> None"
  shows "ofd_get (fst (ofd_refs.exec t ops)) i = slot_after ops i (ofd_get t i)"
  using assms
proof (induction ops arbitrary: t)
  case Nil
  then show ?case by (simp add: slot_after_def unat_eq_zero split: option.split)
next
  case (Cons op ops)
  show ?case
  proof (cases op)
    case (Retain k)
    have lim: "0 < ofd_count t k" "ofd_count t k < U32_MAX"
      using Cons.prems [rule_format, of k] Retain by (auto split: if_splits)
    have "\<forall>j. balance U32_MAX j (ofd_count (inc_ref t k) j) ops \<noteq> None"
      using Cons.prems Retain ofd_refs.retain_count [OF TrueI lim] by (auto split: if_splits)
    then have "ofd_get (fst (ofd_refs.exec t (op # ops))) i = slot_after ops i (ofd_get (inc_ref t k) i)"
      using Cons.IH Retain by simp
    then show ?thesis using slot_after_retain [OF lim] Retain by simp
  next
    case (Release k)
    have pos: "0 < ofd_count t k" using Cons.prems [rule_format, of k] Release by (auto split: if_splits)
    have "\<forall>j. balance U32_MAX j (ofd_count (fst (dec_ref t k)) j) ops \<noteq> None"
      using Cons.prems Release dec_ref_count [OF pos] by (auto split: if_splits)
    then have "ofd_get (fst (ofd_refs.exec t (op # ops))) i = slot_after ops i (ofd_get (fst (dec_ref t k)) i)"
      using Cons.IH Release by (simp add: case_prod_beta Let_def)
    then show ?thesis using slot_after_release [OF pos, of ops i] Release Cons.prems [rule_format, of k] by simp
  qed
qed

text \<open>C10. Reference counts of a process's open file descriptions: over any sequence of \<^verbatim>\<open>inc_ref\<close> and
  \<^verbatim>\<open>dec_ref\<close> that never uses a freed description and never exceeds 32 bits, a description whose count
  reaches zero is reported freed exactly once and its slot is empty afterwards; any other
  description is never reported, and is still there with its new count and every other field
  unchanged.\<close>

theorem ofd_freed_once:
  assumes "\<forall>j. balance U32_MAX j (ofd_count t j) ops \<noteq> None" "ofd_refs.exec t ops = (t', freed)"
    and "ofd_get t i = Some f" "ref_count f \<noteq> 0"
  shows "\<exists>n. balance U32_MAX i (unat (ref_count f)) ops = Some n \<and>
    (if n = 0 then count_list freed i = 1 \<and> ofd_get t' i = None
     else count_list freed i = 0 \<and> ofd_get t' i = Some (f\<lparr> ref_count := of_nat n \<rparr>) \<and>
       unat (of_nat n :: u32) = n)"
proof -
  have c: "ofd_count t i = unat (ref_count f)" "0 < ofd_count t i"
    using assms(3,4) by (auto simp: ofd_count_get unat_gt_0)
  obtain n where n: "balance U32_MAX i (unat (ref_count f)) ops = Some n" using assms(1) c by (metis option.exhaust)
  have "unat (ref_count f) \<le> U32_MAX" using unsigned_less [where ?'a = nat, of "ref_count f"] by (simp add: U32_MAX_def)
  then have "unat (of_nat n :: u32) = n"
    using balance_bound [OF n] by (simp add: unat_of_nat U32_MAX_def)
  then show ?thesis
    using n c ofd_refs.exec_last_once [OF TrueI assms(1,2), of i] exec_slot [OF assms(1), of i] assms(2-4)
    by (simp add: slot_after_def)
qed

theorem ofd_freed_once_witness:
  "let t = [Some (fresh_ofd 8 None Regular 0 3 0 []), Some (fresh_ofd 9 None Regular 0 4 0 [])];
       (t', freed) = ofd_refs.exec t [Retain 0, Release 0, Retain 1, Release 0]
   in freed = [0] \<and> ofd_get t' 0 = None \<and> map_option ref_count (ofd_get t' 1) = Some 2"
proof -
  define t where "t = [Some (fresh_ofd 8 None Regular 0 3 0 []), Some (fresh_ofd 9 None Regular 0 4 0 [])]"
  let ?ops = "[Retain 0, Release 0, Retain 1, Release (0 :: nat)]"
  have g: "ofd_get t 0 = Some (fresh_ofd 8 None Regular 0 3 0 [])" "ofd_get t 1 = Some (fresh_ofd 9 None Regular 0 4 0 [])"
    by (simp_all add: t_def ofd_get_def slot_def)
  have r: "ref_count (fresh_ofd a None Regular 0 b 0 []) = 1" for a b by (simp add: fresh_ofd_def)
  have c: "ofd_count t j = (if j < 2 then 1 else 0)" for j
    by (auto simp: ofd_count_def slot_def t_def r nth_Cons split: nat.split)
  obtain t' freed where run: "ofd_refs.exec t ?ops = (t', freed)" by fastforce
  have b: "\<forall>j. balance U32_MAX j (ofd_count t j) ?ops \<noteq> None" by (simp add: c U32_MAX_def)
  have "freed = [0]"
    using run by (simp add: t_def inc_ref_def dec_ref_def ofd_get_mut_def slot_def r)
  then show ?thesis
    using ofd_freed_once [OF b run g(1)] ofd_freed_once [OF b run g(2)] run
    unfolding t_def [symmetric] by (simp add: r U32_MAX_def)
qed

text \<open>C11. Host handles shared over fork: over any sequence of forks and closes of live handles, the close
  of the underlying host handle is requested exactly once, by the last process to close it, whether
  or not the handle was ever shared.\<close>

theorem host_handle_closed_once:
  assumes "host_wf r" "\<forall>j. balance U32_MAX j (host_count r j) ops \<noteq> None"
    "host_handles.exec r ops = (r', closed)"
  shows "count_list closed h = (if balance U32_MAX h (host_count r h) ops = Some 0 then 1 else 0)"
proof -
  have "0 < host_count r h"
    using assms(1) by (auto simp: host_count_def host_wf_def unat_gt_0 split: option.splits)
  then show ?thesis using host_handles.exec_last_once [OF assms] by simp
qed

theorem host_handle_closed_once_witness:
  "count_list (snd (host_handles.exec Map.empty [Retain 5, Release 5, Release 5, Release 9])) 5 = 1 \<and>
   count_list (snd (host_handles.exec Map.empty [Retain 5, Release 5, Release 5, Release 9])) 9 = 1"
proof -
  let ?ops = "[Retain 5, Release 5, Release 5, Release (9::int)]"
  have wf: "host_wf Map.empty" by (simp add: host_wf_def)
  have c: "host_count Map.empty j = 1" for j by (simp add: host_count_def)
  obtain r' closed where run: "host_handles.exec Map.empty ?ops = (r', closed)" by fastforce
  have b: "\<forall>j. balance U32_MAX j (host_count Map.empty j) ?ops \<noteq> None"
    by (simp add: c U32_MAX_def)
  show ?thesis
    using host_handle_closed_once [OF wf b run, of 5] host_handle_closed_once [OF wf b run, of 9] run
    by (simp add: c U32_MAX_def)
qed

text \<open>F_SETFL (\<^verbatim>\<open>set_status_flags\<close>): the new status flags have the caller's append and nonblock bits
  and every other bit, the access mode included, from before; nothing else in the table changes.\<close>

theorem set_status_flags_bits:
  assumes "ofd_get t i = Some f"
  shows "\<exists>f'. ofd_get (set_status_flags t i new_flags) = (ofd_get t)(i \<mapsto> f') \<and>
    f' = f\<lparr> status_flags := status_flags f' \<rparr> \<and>
    (\<forall>n. bit (status_flags f') n =
      (if n = 10 \<or> n = 11 then bit new_flags n else bit (status_flags f) n))"
proof (intro exI conjI allI)
  let ?f = "f\<lparr> status_flags := (status_flags f AND NOT SETFL_MODIFIABLE) OR (new_flags AND SETFL_MODIFIABLE) \<rparr>"
  show "ofd_get (set_status_flags t i new_flags) = (ofd_get t)(i \<mapsto> ?f)"
    using assms slot_Some_less [of t i f]
    by (auto simp: ofd_get_def set_status_flags_def ofd_get_mut_def slot_update fun_eq_iff)
  show "?f = f\<lparr> status_flags := status_flags ?f \<rparr>" by simp
  fix n
  have m: "O_APPEND = push_bit 10 1" "O_NONBLOCK = push_bit 11 1"
    by (simp_all add: O_APPEND_def O_NONBLOCK_def push_bit_eq_mult)
  have b: "bit (SETFL_MODIFIABLE :: u32) n \<longleftrightarrow> n = 10 \<or> n = 11"
    unfolding SETFL_MODIFIABLE_def m bit_or_iff bit_push_bit_iff bit_1_iff by (auto simp: possible_bit_def)
  show "bit (status_flags ?f) n = (if n = 10 \<or> n = 11 then bit new_flags n else bit (status_flags f) n)"
    using b bit_imp_le_length [of "status_flags f" n] by (auto simp: bit_simps)
qed

theorem set_status_flags_bits_witness:
  "\<exists>f'. ofd_get (set_status_flags [Some (fresh_ofd 8 None Regular 2 3 0 [])] 0 0x801) 0 = Some f' \<and>
     bit (status_flags f') 11 \<and> \<not> bit (status_flags f') 0"
proof -
  have g: "ofd_get [Some (fresh_ofd 8 None Regular 2 3 0 [])] 0 = Some (fresh_ofd 8 None Regular 2 3 0 [])"
    by (simp add: ofd_get_def slot_def)
  have "bit (0x801 :: u32) 11" "\<not> bit (2 :: u32) 0"
    by (simp_all add: bit_numeral_iff bit_iff_odd)
  then show ?thesis
    using set_status_flags_bits [OF g, of "0x801"] by (auto simp: fresh_ofd_def fun_eq_iff)
qed

end
