(* ===== verification/Memory_Manager.thy ===== *)
theory Memory_Manager
  imports Kernel_Interfaces
begin

text \<open>
  The address-space manager of a process (\<^verbatim>\<open>src/crates/kernel/src/memory.rs\<close>): anonymous mappings,
  host-reserved regions and the program break.  Addresses are naturals below \<open>2 ^ 32\<close> with the
  checked and saturating additions of the source written out.  The lemmas read the table of
  mappings as a map from addresses to protection and flags.
\<close>

section \<open>State\<close>

record mapped_region =
  mr_addr :: nat
  mr_len :: nat
  mr_prot :: nat
  mr_flags :: u32

record reserved_region =
  rr_addr :: nat
  rr_len :: nat

record layout_metadata =
  lm_initial_brk :: nat
  lm_max_addr :: nat
  lm_brk_limit :: nat
  lm_mmap_base :: nat
  lm_reserved_until :: nat

record memory_manager =
  mappings :: "mapped_region list"
  reserved_regions :: "reserved_region list"
  program_break :: nat
  max_addr :: nat
  mmap_base :: nat
  reserved_until :: nat
  brk_limit :: nat
  data_limit :: nat
  initial_brk :: nat

definition MMAP_BASE :: nat where "MMAP_BASE = 0x04000000"
definition INITIAL_BRK :: nat where "INITIAL_BRK = 0x01000000"
definition DEFAULT_MAX_ADDR :: nat where "DEFAULT_MAX_ADDR = 0x40000000"
definition MAP_FIXED :: u32 where "MAP_FIXED = 0x10"
definition MAP_FAILED :: nat where "MAP_FAILED = USIZE_MAX"

definition memory_new :: memory_manager where
  "memory_new = \<lparr> mappings = [], reserved_regions = [], program_break = INITIAL_BRK,
     max_addr = DEFAULT_MAX_ADDR, mmap_base = MMAP_BASE, reserved_until = 0,
     brk_limit = DEFAULT_MAX_ADDR, data_limit = U64_MAX, initial_brk = INITIAL_BRK \<rparr>"

definition set_mappings :: "memory_manager \<Rightarrow> mapped_region list \<Rightarrow> memory_manager" where
  "set_mappings m ms = m\<lparr> mappings := sort_key mr_addr ms \<rparr>"

section \<open>Overlap tests\<close>

definition overlaps_host_control :: "memory_manager \<Rightarrow> nat \<Rightarrow> nat \<Rightarrow> bool" where
  "overlaps_host_control m addr len =
     (if mmap_base m \<le> brk_limit m then False
      else (case checked_add_usize addr len of
              None \<Rightarrow> True
            | Some e \<Rightarrow> addr < mmap_base m \<and> brk_limit m < e))"

definition overlaps_reserved_prefix :: "memory_manager \<Rightarrow> nat \<Rightarrow> nat \<Rightarrow> bool" where
  "overlaps_reserved_prefix m addr len =
     (if reserved_until m = 0 then False
      else (case checked_add_usize addr len of
              None \<Rightarrow> True
            | Some e \<Rightarrow> addr < reserved_until m \<and> addr < e))"

definition overlaps_mappings :: "memory_manager \<Rightarrow> nat \<Rightarrow> nat \<Rightarrow> bool" where
  "overlaps_mappings m addr len =
     (case checked_add_usize addr len of
        None \<Rightarrow> True
      | Some e \<Rightarrow> list_ex (\<lambda>r. addr < saturating_add_usize (mr_addr r) (mr_len r) \<and> mr_addr r < e)
                    (mappings m))"

definition overlaps_reserved_regions :: "memory_manager \<Rightarrow> nat \<Rightarrow> nat \<Rightarrow> bool" where
  "overlaps_reserved_regions m addr len =
     (case checked_add_usize addr len of
        None \<Rightarrow> True
      | Some e \<Rightarrow> list_ex (\<lambda>r. addr < saturating_add_usize (rr_addr r) (rr_len r) \<and> rr_addr r < e)
                    (reserved_regions m))"

definition overlaps_brk_heap :: "memory_manager \<Rightarrow> nat \<Rightarrow> nat \<Rightarrow> bool" where
  "overlaps_brk_heap m addr len =
     (if program_break m \<le> initial_brk m then False
      else (case checked_add_usize addr len of
              None \<Rightarrow> True
            | Some e \<Rightarrow> addr < program_break m \<and> initial_brk m < e))"

definition can_grow_at :: "memory_manager \<Rightarrow> nat \<Rightarrow> nat \<Rightarrow> bool" where
  "can_grow_at m addr len =
     (case checked_add_usize addr len of
        None \<Rightarrow> False
      | Some e \<Rightarrow>
          if max_addr m < e then False
          else if overlaps_host_control m addr len then False
          else if overlaps_reserved_prefix m addr len then False
          else if overlaps_reserved_regions m addr len then False
          else if reserved_until m \<noteq> 0 \<and> overlaps_brk_heap m addr len then False
          else \<not> list_ex (\<lambda>r. addr < saturating_add_usize (mr_addr r) (mr_len r) \<and> mr_addr r < e)
                 (mappings m))"

section \<open>First-fit search\<close>

text \<open>Look at one region: a fitting gap before it (\<open>Inl\<close>), or the cursor moved past it (\<open>Inr\<close>).\<close>

definition gap_visit :: "nat \<Rightarrow> nat \<Rightarrow> nat \<Rightarrow> nat \<Rightarrow> nat + nat" where
  "gap_visit needed cursor addr len =
     (let e = saturating_add_usize addr len;
          moved = (if cursor < e then e else cursor)
      in if addr < cursor then Inr moved
         else if needed \<le> addr - cursor then Inl cursor
         else Inr moved)"

text \<open>The two index cursors of the source are the suffixes still to be read.\<close>

fun gap_scan :: "nat \<Rightarrow> nat \<Rightarrow> nat \<Rightarrow> mapped_region list \<Rightarrow> reserved_region list \<Rightarrow> nat option" where
  "gap_scan lim needed cursor [] [] =
     (if saturating_add_usize cursor needed \<le> lim then Some cursor else None)"
| "gap_scan lim needed cursor (m # ms) [] =
     (case gap_visit needed cursor (mr_addr m) (mr_len m) of
        Inl c \<Rightarrow> Some c
      | Inr c \<Rightarrow> gap_scan lim needed c ms [])"
| "gap_scan lim needed cursor [] (r # rs) =
     (case gap_visit needed cursor (rr_addr r) (rr_len r) of
        Inl c \<Rightarrow> Some c
      | Inr c \<Rightarrow> gap_scan lim needed c [] rs)"
| "gap_scan lim needed cursor (m # ms) (r # rs) =
     (if mr_addr m \<le> rr_addr r then
        (case gap_visit needed cursor (mr_addr m) (mr_len m) of
           Inl c \<Rightarrow> Some c
         | Inr c \<Rightarrow> gap_scan lim needed c ms (r # rs))
      else
        (case gap_visit needed cursor (rr_addr r) (rr_len r) of
           Inl c \<Rightarrow> Some c
         | Inr c \<Rightarrow> gap_scan lim needed c (m # ms) rs))"

definition find_gap :: "memory_manager \<Rightarrow> nat \<Rightarrow> nat option" where
  "find_gap m needed =
     gap_scan (max_addr m) needed (max (mmap_base m) (program_break m)) (mappings m) (reserved_regions m)"

section \<open>Operations\<close>

definition insert_mapping :: "mapped_region \<Rightarrow> mapped_region list \<Rightarrow> mapped_region list" where
  "insert_mapping r ms = insert_at (partition_point (\<lambda>x. mr_addr x < mr_addr r) ms) r ms"

definition mmap_anonymous :: "memory_manager \<Rightarrow> nat \<Rightarrow> nat \<Rightarrow> nat \<Rightarrow> u32 \<Rightarrow> memory_manager \<times> nat" where
  "mmap_anonymous m hint len prot flags =
     (if len = 0 then (m, MAP_FAILED)
      else
        (case checked_add_usize len 0xFFFF of
           None \<Rightarrow> (m, MAP_FAILED)
         | Some v \<Rightarrow>
             (let aligned_len = page_down v;
                  insert_region = (\<lambda>m addr. (m\<lparr> mappings := insert_mapping
                      \<lparr> mr_addr = addr, mr_len = aligned_len, mr_prot = prot, mr_flags = flags \<rparr> (mappings m) \<rparr>, addr))
              in if hint \<noteq> 0 \<and> flags AND MAP_FIXED \<noteq> 0 then
                   (let e = saturating_add_usize hint aligned_len
                    in if max_addr m < e \<or> overlaps_reserved_prefix m hint aligned_len \<or>
                          overlaps_reserved_regions m hint aligned_len \<or>
                          overlaps_host_control m hint aligned_len \<or>
                          reserved_until m \<noteq> 0 \<and> overlaps_brk_heap m hint aligned_len
                       then (m, MAP_FAILED)
                       else insert_region
                         (m\<lparr> mappings := filter (\<lambda>r. saturating_add_usize (mr_addr r) (mr_len r) \<le> hint \<or> e \<le> mr_addr r)
                               (mappings m) \<rparr>) hint)
                 else
                   (let rounded_hint = page_down hint;
                        hinted = (if max (mmap_base m) (program_break m) \<le> rounded_hint \<and>
                                     can_grow_at m rounded_hint aligned_len
                                  then Some rounded_hint else None)
                    in (case (case hinted of Some a \<Rightarrow> Some a | None \<Rightarrow> find_gap m aligned_len) of
                          Some a \<Rightarrow> insert_region m a
                        | None \<Rightarrow> (m, MAP_FAILED))))))"

definition unmap_region :: "nat \<Rightarrow> nat \<Rightarrow> mapped_region \<Rightarrow> mapped_region list" where
  "unmap_region addr unmap_end r =
     (let m_end = saturating_add_usize (mr_addr r) (mr_len r)
      in if m_end \<le> addr \<or> unmap_end \<le> mr_addr r then [r]
         else (if mr_addr r < addr then [r\<lparr> mr_len := addr - mr_addr r \<rparr>] else []) @
              (if unmap_end < m_end then [r\<lparr> mr_addr := unmap_end, mr_len := m_end - unmap_end \<rparr>] else []))"

definition munmap :: "memory_manager \<Rightarrow> nat \<Rightarrow> nat \<Rightarrow> memory_manager \<times> bool" where
  "munmap m addr len =
     (if len = 0 then (m, False)
      else
        (case checked_add_usize len 0xFFFF of
           None \<Rightarrow> (m, False)
         | Some v \<Rightarrow>
             (let unmap_end = saturating_add_usize addr (page_down v)
              in (m\<lparr> mappings := concat (map (unmap_region addr unmap_end) (mappings m)) \<rparr>,
                  list_ex (\<lambda>r. \<not> (saturating_add_usize (mr_addr r) (mr_len r) \<le> addr \<or> unmap_end \<le> mr_addr r))
                    (mappings m)))))"

definition align_page_up :: "nat \<Rightarrow> nat" where
  "align_page_up addr = page_down (saturating_add_usize addr 0xFFFF)"

definition set_brk_base :: "memory_manager \<Rightarrow> nat \<Rightarrow> memory_manager" where
  "set_brk_base m addr =
     (let m1 = m\<lparr> initial_brk := addr, program_break := addr \<rparr>
      in if mmap_base m1 < addr then m1\<lparr> mmap_base := align_page_up addr \<rparr> else m1)"

definition set_brk :: "memory_manager \<Rightarrow> nat \<Rightarrow> memory_manager \<times> nat" where
  "set_brk m new_brk =
     (if new_brk = 0 then (m, program_break m)
      else if new_brk < initial_brk m then (m, program_break m)
      else if max_addr m < new_brk then (m, program_break m)
      else if brk_limit m < new_brk then (m, program_break m)
      else if program_break m < new_brk \<and>
              overlaps_mappings m (program_break m) (new_brk - program_break m) then (m, program_break m)
      else if program_break m < new_brk \<and>
              overlaps_reserved_regions m (program_break m) (new_brk - program_break m) then (m, program_break m)
      else if initial_brk m < new_brk \<and> data_limit m < new_brk - initial_brk m then (m, program_break m)
      else (m\<lparr> program_break := new_brk \<rparr>, new_brk))"

definition set_data_limit :: "memory_manager \<Rightarrow> nat \<Rightarrow> memory_manager" where
  "set_data_limit m lim = m\<lparr> data_limit := lim \<rparr>"

text \<open>\<open>m.addr + m.len\<close> wraps in a release build.\<close>

definition is_mapped :: "memory_manager \<Rightarrow> nat \<Rightarrow> bool" where
  "is_mapped m addr = list_ex (\<lambda>r. mr_addr r \<le> addr \<and> addr < (mr_addr r + mr_len r) mod 2 ^ 32) (mappings m)"

definition insert_reserved :: "reserved_region \<Rightarrow> reserved_region list \<Rightarrow> reserved_region list" where
  "insert_reserved r rs = insert_at (partition_point (\<lambda>x. rr_addr x < rr_addr r) rs) r rs"

definition reserve_host_region :: "memory_manager \<Rightarrow> nat \<Rightarrow> memory_manager \<times> nat" where
  "reserve_host_region m len =
     (if len = 0 then (m, MAP_FAILED)
      else
        (case checked_add_usize len 0xFFFF of
           None \<Rightarrow> (m, MAP_FAILED)
         | Some v \<Rightarrow>
             (case find_gap m (page_down v) of
                None \<Rightarrow> (m, MAP_FAILED)
              | Some addr \<Rightarrow>
                  (m\<lparr> reserved_regions := insert_reserved \<lparr> rr_addr = addr, rr_len = page_down v \<rparr>
                        (reserved_regions m) \<rparr>, addr))))"

definition reserve_host_region_at :: "memory_manager \<Rightarrow> nat \<Rightarrow> nat \<Rightarrow> memory_manager \<times> nat" where
  "reserve_host_region_at m addr len =
     (if len = 0 \<or> addr mod 65536 \<noteq> 0 then (m, MAP_FAILED)
      else
        (case checked_add_usize len 0xFFFF of
           None \<Rightarrow> (m, MAP_FAILED)
         | Some v \<Rightarrow>
             (let aligned_len = page_down v
              in (case checked_add_usize addr aligned_len of
                    None \<Rightarrow> (m, MAP_FAILED)
                  | Some e \<Rightarrow>
                      if max_addr m < e \<or> overlaps_reserved_prefix m addr aligned_len \<or>
                         overlaps_host_control m addr aligned_len \<or> overlaps_mappings m addr aligned_len \<or>
                         overlaps_reserved_regions m addr aligned_len \<or>
                         reserved_until m \<noteq> 0 \<and> overlaps_brk_heap m addr aligned_len
                      then (m, MAP_FAILED)
                      else (m\<lparr> reserved_regions := insert_reserved \<lparr> rr_addr = addr, rr_len = aligned_len \<rparr>
                              (reserved_regions m) \<rparr>, addr)))))"

definition set_max_addr :: "memory_manager \<Rightarrow> nat \<Rightarrow> memory_manager" where
  "set_max_addr m addr = (if addr < max_addr m then m\<lparr> max_addr := addr \<rparr> else m)"

definition set_mmap_base :: "memory_manager \<Rightarrow> nat \<Rightarrow> memory_manager" where
  "set_mmap_base m addr =
     m\<lparr> mmap_base := max (align_page_up addr) (initial_brk m),
        reserved_until := max (reserved_until m) (initial_brk m) \<rparr>"

definition set_brk_limit :: "memory_manager \<Rightarrow> nat \<Rightarrow> memory_manager" where
  "set_brk_limit m addr = (if addr < brk_limit m then m\<lparr> brk_limit := addr \<rparr> else m)"

definition layout_metadata_of :: "memory_manager \<Rightarrow> layout_metadata" where
  "layout_metadata_of m = \<lparr> lm_initial_brk = initial_brk m, lm_max_addr = max_addr m,
     lm_brk_limit = brk_limit m, lm_mmap_base = mmap_base m, lm_reserved_until = reserved_until m \<rparr>"

definition set_layout_metadata :: "memory_manager \<Rightarrow> layout_metadata \<Rightarrow> memory_manager" where
  "set_layout_metadata m d = m\<lparr> initial_brk := lm_initial_brk d, max_addr := lm_max_addr d,
     brk_limit := lm_brk_limit d, mmap_base := lm_mmap_base d, reserved_until := lm_reserved_until d \<rparr>"

fun extend_first :: "nat \<Rightarrow> nat \<Rightarrow> nat \<Rightarrow> mapped_region list \<Rightarrow> mapped_region list \<times> bool" where
  "extend_first addr old_len new_len [] = ([], False)"
| "extend_first addr old_len new_len (r # rs) =
     (if mr_addr r = addr \<and> mr_len r = old_len then (r\<lparr> mr_len := new_len \<rparr> # rs, True)
      else (let (rs', b) = extend_first addr old_len new_len rs in (r # rs', b)))"

definition extend_mapping :: "memory_manager \<Rightarrow> nat \<Rightarrow> nat \<Rightarrow> nat \<Rightarrow> memory_manager \<times> bool" where
  "extend_mapping m addr old_len new_len =
     (let (ms, b) = extend_first addr old_len new_len (mappings m) in (m\<lparr> mappings := ms \<rparr>, b))"

text \<open>
  The \<^verbatim>\<open>mremap\<close> system call on the manager (\<^verbatim>\<open>src/crates/kernel/src/syscalls.rs\<close>); its unchecked additions
  wrap in a release build.
\<close>

definition MREMAP_MAYMOVE :: u32 where "MREMAP_MAYMOVE = 1"
definition MAP_PRIVATE :: u32 where "MAP_PRIVATE = 0x02"
definition MAP_ANONYMOUS :: u32 where "MAP_ANONYMOUS = 0x20"

definition wrap_usize :: "nat \<Rightarrow> nat" where
  "wrap_usize n = n mod 2 ^ 32"

definition sys_mremap :: "memory_manager \<Rightarrow> nat \<Rightarrow> nat \<Rightarrow> nat \<Rightarrow> u32 \<Rightarrow> memory_manager \<times> nat result" where
  "sys_mremap m old_addr old_len new_len flags =
     (if old_len = 0 \<or> new_len = 0 then (m, Err EINVAL)
      else if flags AND NOT MREMAP_MAYMOVE \<noteq> 0 then (m, Err EINVAL)
      else
        let aligned_old = page_down (wrap_usize (old_len + 0xFFFF));
            aligned_new = page_down (wrap_usize (new_len + 0xFFFF))
        in if aligned_new \<le> aligned_old then
             (if aligned_new < aligned_old
              then (fst (munmap m (wrap_usize (old_addr + aligned_new)) (aligned_old - aligned_new)), Ok old_addr)
              else (m, Ok old_addr))
           else if can_grow_at m (wrap_usize (old_addr + aligned_old)) (aligned_new - aligned_old) then
             (case extend_mapping m old_addr aligned_old aligned_new of
                (m', True) \<Rightarrow> (m', Ok old_addr)
              | (m', False) \<Rightarrow> (m', Err EFAULT))
           else if flags AND MREMAP_MAYMOVE \<noteq> 0 then
             (case mmap_anonymous m 0 aligned_new 3 (MAP_PRIVATE OR MAP_ANONYMOUS) of
                (m', new_addr) \<Rightarrow>
                  if new_addr = MAP_FAILED then (m', Err ENOMEM)
                  else (fst (munmap m' old_addr aligned_old), Ok new_addr))
           else (m, Err ENOMEM))"

end
