(* ===== verification/Memory_Safety.thy ===== *)
theory Memory_Safety
  imports Memory_Manager
begin

text \<open>
  Correctness of the address-space manager: the first-fit search finds the lowest free range, the
  mappings and the host-reserved regions stay pairwise disjoint under every operation, unmapping
  removes exactly the requested pages, and the program break respects its limits.
\<close>

section \<open>Regions as sets of addresses\<close>

type_synonym region = "nat \<times> nat"

definition mapping_regions :: "mapped_region list \<Rightarrow> region set" where
  "mapping_regions ms = (\<lambda>r. (mr_addr r, mr_len r)) ` set ms"

definition host_regions :: "reserved_region list \<Rightarrow> region set" where
  "host_regions rs = (\<lambda>r. (rr_addr r, rr_len r)) ` set rs"

text \<open>No region of \<open>R\<close> meets \<open>[a, a + n)\<close>.\<close>

definition free_at :: "region set \<Rightarrow> nat \<Rightarrow> nat \<Rightarrow> bool" where
  "free_at R a n \<longleftrightarrow> (\<forall>(s, l)\<in>R. a + n \<le> s \<or> s + l \<le> a)"

definition proper :: "region set \<Rightarrow> bool" where
  "proper R \<longleftrightarrow> (\<forall>(s, l)\<in>R. 0 < l \<and> s + l \<le> USIZE_MAX)"

lemma regions_simps [simp]:
  "mapping_regions [] = {}" "mapping_regions (r # ms) = insert (mr_addr r, mr_len r) (mapping_regions ms)"
  "host_regions [] = {}" "host_regions (h # rs) = insert (rr_addr h, rr_len h) (host_regions rs)"
  by (simp_all add: mapping_regions_def host_regions_def)

lemma free_at_simps [simp]:
  "free_at {} a n" "free_at (insert (s, l) R) a n \<longleftrightarrow> (a + n \<le> s \<or> s + l \<le> a) \<and> free_at R a n"
  "free_at (R \<union> S) a n \<longleftrightarrow> free_at R a n \<and> free_at S a n"
  by (auto simp: free_at_def)

lemma proper_simps [simp]:
  "proper {}" "proper (insert (s, l) R) \<longleftrightarrow> 0 < l \<and> s + l \<le> USIZE_MAX \<and> proper R"
  "proper (R \<union> S) \<longleftrightarrow> proper R \<and> proper S"
  by (auto simp: proper_def)

lemma free_at_above: "(\<And>s l. (s, l) \<in> R \<Longrightarrow> a + n \<le> s) \<Longrightarrow> free_at R a n"
  by (auto simp: free_at_def)

section \<open>First fit\<close>

lemma gap_visit_Inl: "gap_visit n cur s l = Inl c \<Longrightarrow> c = cur \<and> cur \<le> s \<and> cur + n \<le> s"
  by (auto simp: gap_visit_def Let_def split: if_splits)

lemma gap_visit_Inr:
  assumes "gap_visit n cur s l = Inr c" "0 < l" "s + l \<le> USIZE_MAX" "0 < n"
  shows "cur \<le> c" "cur \<le> a \<Longrightarrow> (a + n \<le> s \<or> s + l \<le> a) \<longleftrightarrow> c \<le> a"
  using assms by (auto simp: gap_visit_def Let_def saturating_add_to_def split: if_splits)

definition gap_spec :: "nat \<Rightarrow> nat \<Rightarrow> nat \<Rightarrow> region set \<Rightarrow> nat option \<Rightarrow> bool" where
  "gap_spec lim n cur R res \<longleftrightarrow>
     (case res of
        Some c \<Rightarrow> cur \<le> c \<and> free_at R c n \<and> (\<forall>a. cur \<le> a \<and> a < c \<longrightarrow> \<not> free_at R a n) \<and>
                  (c + n \<le> lim \<or> (\<exists>(s, l)\<in>R. c + n \<le> s))
      | None \<Rightarrow> (\<forall>a. cur \<le> a \<and> a + n \<le> lim \<longrightarrow> \<not> free_at R a n))"

lemma gap_spec_here:
  assumes "\<And>s' l'. (s', l') \<in> R \<Longrightarrow> s \<le> s'" "cur + n \<le> s"
  shows "gap_spec lim n cur (insert (s, l) R) (Some cur)"
  using assms by (force simp: gap_spec_def intro!: free_at_above)

lemma gap_spec_skip:
  assumes v: "gap_visit n cur s l = Inr c" "0 < l" "s + l \<le> USIZE_MAX" "0 < n"
    and rest: "gap_spec lim n c R res"
  shows "gap_spec lim n cur (insert (s, l) R) res"
proof -
  note g = gap_visit_Inr [OF v]
  have eq: "cur \<le> a \<Longrightarrow> free_at (insert (s, l) R) a n \<longleftrightarrow> c \<le> a \<and> free_at R a n" for a
    using g(2) [of a] by simp
  show ?thesis
  proof (cases res)
    case None
    then show ?thesis using rest g(1) eq by (simp add: gap_spec_def)
  next
    case (Some d)
    then have d: "c \<le> d" "free_at R d n" "\<forall>a. c \<le> a \<and> a < d \<longrightarrow> \<not> free_at R a n"
      "d + n \<le> lim \<or> (\<exists>(s, l)\<in>R. d + n \<le> s)"
      using rest by (auto simp: gap_spec_def)
    have "cur \<le> d" using d(1) g(1) by simp
    then have "free_at (insert (s, l) R) d n" "\<forall>a. cur \<le> a \<and> a < d \<longrightarrow> \<not> free_at (insert (s, l) R) a n"
      using eq d by (blast, metis)
    then show ?thesis using Some \<open>cur \<le> d\<close> d(4) unfolding gap_spec_def by auto
  qed
qed

lemma gap_scan_spec:
  assumes "sorted (map mr_addr ms)" "sorted (map rr_addr rs)"
    "proper (mapping_regions ms \<union> host_regions rs)" "0 < n" "lim < USIZE_MAX"
  shows "gap_spec lim n cur (mapping_regions ms \<union> host_regions rs) (gap_scan lim n cur ms rs)"
  using assms
proof (induction lim n cur ms rs rule: gap_scan.induct)
  case (1 lim n cur)
  then show ?case by (auto simp: gap_spec_def saturating_add_to_def)
next
  case (2 lim n cur m ms)
  have le: "\<And>s' l'. (s', l') \<in> mapping_regions ms \<Longrightarrow> mr_addr m \<le> s'"
    using "2.prems"(1) by (auto simp: mapping_regions_def)
  show ?case
  proof (cases "gap_visit n cur (mr_addr m) (mr_len m)")
    case (Inl c)
    then show ?thesis using gap_spec_here [OF le] gap_visit_Inl [OF Inl] by simp
  next
    case (Inr c)
    then show ?thesis using gap_spec_skip [OF Inr] "2.IH" [OF Inr] "2.prems" by simp
  qed
next
  case (3 lim n cur r rs)
  have le: "\<And>s' l'. (s', l') \<in> host_regions rs \<Longrightarrow> rr_addr r \<le> s'"
    using "3.prems"(2) by (auto simp: host_regions_def)
  show ?case
  proof (cases "gap_visit n cur (rr_addr r) (rr_len r)")
    case (Inl c)
    then show ?thesis using gap_spec_here [OF le] gap_visit_Inl [OF Inl] by simp
  next
    case (Inr c)
    then show ?thesis using gap_spec_skip [OF Inr] "3.IH" [OF Inr] "3.prems" by simp
  qed
next
  case (4 lim n cur m ms r rs)
  have lm: "\<And>s' l'. (s', l') \<in> mapping_regions ms \<Longrightarrow> mr_addr m \<le> s'"
    using "4.prems"(1) by (auto simp: mapping_regions_def)
  have lr: "\<And>s' l'. (s', l') \<in> host_regions rs \<Longrightarrow> rr_addr r \<le> s'"
    using "4.prems"(2) by (auto simp: host_regions_def)
  show ?case
  proof (cases "mr_addr m \<le> rr_addr r")
    case True
    let ?R = "mapping_regions ms \<union> host_regions (r # rs)"
    have split: "mapping_regions (m # ms) \<union> host_regions (r # rs) = insert (mr_addr m, mr_len m) ?R" by auto
    have le: "(s', l') \<in> ?R \<Longrightarrow> mr_addr m \<le> s'" for s' l' using lm lr True by fastforce
    show ?thesis
    proof (cases "gap_visit n cur (mr_addr m) (mr_len m)")
      case (Inl c)
      then show ?thesis
        unfolding split using gap_spec_here [of ?R, OF le] gap_visit_Inl [OF Inl] True
        by (simp del: regions_simps)
    next
      case (Inr c)
      have IH: "gap_spec lim n c ?R (gap_scan lim n c ms (r # rs))"
        using "4.IH"(1) [OF True Inr] "4.prems" by simp
      have "0 < mr_len m" "mr_addr m + mr_len m \<le> USIZE_MAX" using "4.prems"(3) by simp_all
      from gap_spec_skip [OF Inr this "4.prems"(4) IH] show ?thesis
        unfolding split using Inr True by (simp del: regions_simps)
    qed
  next
    case False
    let ?R = "mapping_regions (m # ms) \<union> host_regions rs"
    have split: "mapping_regions (m # ms) \<union> host_regions (r # rs) = insert (rr_addr r, rr_len r) ?R" by auto
    have le: "(s', l') \<in> ?R \<Longrightarrow> rr_addr r \<le> s'" for s' l' using lm lr False by fastforce
    show ?thesis
    proof (cases "gap_visit n cur (rr_addr r) (rr_len r)")
      case (Inl c)
      then show ?thesis
        unfolding split using gap_spec_here [of ?R, OF le] gap_visit_Inl [OF Inl] False
        by (simp del: regions_simps)
    next
      case (Inr c)
      have IH: "gap_spec lim n c ?R (gap_scan lim n c (m # ms) rs)"
        using "4.IH"(2) [OF False Inr] "4.prems" by simp
      have "0 < rr_len r" "rr_addr r + rr_len r \<le> USIZE_MAX" using "4.prems"(3) by simp_all
      from gap_spec_skip [OF Inr this "4.prems"(4) IH] show ?thesis
        unfolding split using Inr False by (simp del: regions_simps)
    qed
  qed
qed

section \<open>The invariant\<close>

definition mreg :: "mapped_region \<Rightarrow> region" where
  "mreg r = (mr_addr r, mr_len r)"

definition hreg :: "reserved_region \<Rightarrow> region" where
  "hreg r = (rr_addr r, rr_len r)"

text \<open>Each region ends before the next one begins.\<close>

definition spaced :: "('a \<Rightarrow> region) \<Rightarrow> 'a list \<Rightarrow> bool" where
  "spaced k xs \<longleftrightarrow> sorted_wrt (\<lambda>x y. fst (k x) + snd (k x) \<le> fst (k y)) xs"

definition mem_wf :: "memory_manager \<Rightarrow> bool" where
  "mem_wf m \<longleftrightarrow>
     spaced mreg (mappings m) \<and> spaced hreg (reserved_regions m) \<and>
     proper (mapping_regions (mappings m)) \<and> proper (host_regions (reserved_regions m)) \<and>
     (\<forall>r\<in>set (mappings m). free_at (host_regions (reserved_regions m)) (mr_addr r) (mr_len r)) \<and>
     max_addr m < USIZE_MAX"

lemma spaced_sorted: "spaced k xs \<Longrightarrow> sorted (map (\<lambda>x. fst (k x)) xs)"
  by (induction xs) (fastforce simp: spaced_def)+

lemma spaced_filter: "spaced k xs \<Longrightarrow> spaced k (filter P xs)"
  by (simp add: spaced_def sorted_wrt_filter)

lemma spaced_insert:
  assumes sp: "spaced k xs" and pos: "\<And>x. x \<in> set xs \<Longrightarrow> 0 < snd (k x)" and n: "0 < snd (k y)"
    and free: "\<And>x. x \<in> set xs \<Longrightarrow>
      fst (k y) + snd (k y) \<le> fst (k x) \<or> fst (k x) + snd (k x) \<le> fst (k y)"
  shows "spaced k (insert_at (partition_point (\<lambda>x. fst (k x) < fst (k y)) xs) y xs)"
proof -
  let ?P = "\<lambda>x. fst (k x) < fst (k y)"
  have eq: "insert_at (partition_point ?P xs) y xs = takeWhile ?P xs @ y # dropWhile ?P xs"
    by (simp add: insert_at_def take_partition_point drop_partition_point)
  have lo: "fst (k x) + snd (k x) \<le> fst (k y)" if "x \<in> set (takeWhile ?P xs)" for x
    using set_takeWhileD [OF that] free [of x] by auto
  have ge: "\<forall>x\<in>set (dropWhile ?P xs). fst (k y) \<le> fst (k x)"
    using spaced_sorted [OF sp] by (induction xs) auto
  have hi: "fst (k y) + snd (k y) \<le> fst (k x)" if x: "x \<in> set (dropWhile ?P xs)" for x
    using ge x free [OF set_dropWhileD [OF x]] pos [OF set_dropWhileD [OF x]] by auto
  have "spaced k (takeWhile ?P xs @ dropWhile ?P xs)" using sp by simp
  then have "spaced k (takeWhile ?P xs)" "spaced k (dropWhile ?P xs)"
    unfolding spaced_def sorted_wrt_append by blast+
  then show ?thesis
    unfolding eq spaced_def sorted_wrt_append using lo hi by fastforce
qed

lemma mem_wfD:
  assumes "mem_wf m"
  shows "sorted (map mr_addr (mappings m))" "sorted (map rr_addr (reserved_regions m))"
    "r \<in> set (mappings m) \<Longrightarrow> 0 < mr_len r \<and> mr_addr r + mr_len r \<le> USIZE_MAX"
    "h \<in> set (reserved_regions m) \<Longrightarrow> 0 < rr_len h \<and> rr_addr h + rr_len h \<le> USIZE_MAX"
    "r \<in> set (mappings m) \<Longrightarrow> saturating_add_usize (mr_addr r) (mr_len r) = mr_addr r + mr_len r"
    "h \<in> set (reserved_regions m) \<Longrightarrow> saturating_add_usize (rr_addr h) (rr_len h) = rr_addr h + rr_len h"
    "max_addr m < USIZE_MAX"
proof -
  show "sorted (map mr_addr (mappings m))" "sorted (map rr_addr (reserved_regions m))"
    using assms spaced_sorted [of mreg "mappings m"] spaced_sorted [of hreg "reserved_regions m"]
    by (auto simp: mem_wf_def mreg_def hreg_def)
  show a: "r \<in> set (mappings m) \<Longrightarrow> 0 < mr_len r \<and> mr_addr r + mr_len r \<le> USIZE_MAX"
    "h \<in> set (reserved_regions m) \<Longrightarrow> 0 < rr_len h \<and> rr_addr h + rr_len h \<le> USIZE_MAX"
    using assms by (auto simp: mem_wf_def proper_def mapping_regions_def host_regions_def)
  show "r \<in> set (mappings m) \<Longrightarrow> saturating_add_usize (mr_addr r) (mr_len r) = mr_addr r + mr_len r"
    "h \<in> set (reserved_regions m) \<Longrightarrow> saturating_add_usize (rr_addr h) (rr_len h) = rr_addr h + rr_len h"
    using a by (simp_all add: saturating_add_to_fits)
  show "max_addr m < USIZE_MAX" using assms by (simp add: mem_wf_def)
qed

lemma find_gap_spec:
  assumes "mem_wf m" "0 < n"
  shows "gap_spec (max_addr m) n (max (mmap_base m) (program_break m))
    (mapping_regions (mappings m) \<union> host_regions (reserved_regions m)) (find_gap m n)"
  unfolding find_gap_def
  by (rule gap_scan_spec) (use assms mem_wfD(1,2) in \<open>auto simp: mem_wf_def\<close>)

lemma overlaps_mappings_free:
  assumes "mem_wf m" "0 < n"
  shows "overlaps_mappings m a n \<longleftrightarrow> USIZE_MAX < a + n \<or> \<not> free_at (mapping_regions (mappings m)) a n"
  using mem_wfD(5) [OF assms(1)]
  by (auto simp: overlaps_mappings_def list_ex_iff free_at_def mapping_regions_def not_le split: option.splits)

lemma overlaps_reserved_free:
  assumes "mem_wf m" "0 < n"
  shows "overlaps_reserved_regions m a n \<longleftrightarrow>
    USIZE_MAX < a + n \<or> \<not> free_at (host_regions (reserved_regions m)) a n"
  using mem_wfD(6) [OF assms(1)]
  by (auto simp: overlaps_reserved_regions_def list_ex_iff free_at_def host_regions_def not_le split: option.splits)

lemma can_grow_at_free:
  assumes "mem_wf m" "can_grow_at m a n" "0 < n"
  shows "a + n \<le> max_addr m" "free_at (mapping_regions (mappings m) \<union> host_regions (reserved_regions m)) a n"
proof -
  from assms(2) show le: "a + n \<le> max_addr m"
    by (auto simp: can_grow_at_def split: option.splits if_splits)
  have "\<not> overlaps_reserved_regions m a n"
    using assms(2) by (auto simp: can_grow_at_def split: option.splits if_splits)
  moreover have "free_at (mapping_regions (mappings m)) a n"
    using assms(2) mem_wfD(5) [OF assms(1)]
    by (auto simp: can_grow_at_def list_ex_iff free_at_def mapping_regions_def not_less
        split: option.splits if_splits)
  ultimately show "free_at (mapping_regions (mappings m) \<union> host_regions (reserved_regions m)) a n"
    using overlaps_reserved_free [OF assms(1,3), of a] by simp
qed

lemma free_at_sym: "free_at R a n \<Longrightarrow> (s, l) \<in> R \<Longrightarrow> a + n \<le> s \<or> s + l \<le> a"
  by (auto simp: free_at_def)

lemma set_insert_mapping [simp]: "set (insert_mapping r ms) = insert r (set ms)"
  by (simp add: insert_mapping_def)

lemma set_insert_reserved [simp]: "set (insert_reserved r rs) = insert r (set rs)"
  by (simp add: insert_reserved_def)

lemma insert_mapping_wf:
  assumes wf: "mem_wf m" and n: "0 < mr_len r" "mr_addr r + mr_len r \<le> USIZE_MAX"
    and free: "free_at (mapping_regions (mappings m)) (mr_addr r) (mr_len r)"
      "free_at (host_regions (reserved_regions m)) (mr_addr r) (mr_len r)"
  shows "mem_wf (m\<lparr> mappings := insert_mapping r (mappings m) \<rparr>)"
proof -
  have "spaced mreg (insert_mapping r (mappings m))"
    unfolding insert_mapping_def
    using spaced_insert [of mreg "mappings m" r] wf n free(1) mem_wfD(3) [OF wf]
      free_at_sym [OF free(1)]
    by (auto simp: mem_wf_def mreg_def mapping_regions_def)
  then show ?thesis
    using wf n free(2) by (auto simp: mem_wf_def mapping_regions_def proper_def)
qed

lemma insert_reserved_wf:
  assumes wf: "mem_wf m" and n: "0 < rr_len h" "rr_addr h + rr_len h \<le> USIZE_MAX"
    and free: "free_at (mapping_regions (mappings m)) (rr_addr h) (rr_len h)"
      "free_at (host_regions (reserved_regions m)) (rr_addr h) (rr_len h)"
  shows "mem_wf (m\<lparr> reserved_regions := insert_reserved h (reserved_regions m) \<rparr>)"
proof -
  have "spaced hreg (insert_reserved h (reserved_regions m))"
    unfolding insert_reserved_def
    using spaced_insert [of hreg "reserved_regions m" h] wf n free(2) mem_wfD(4) [OF wf]
      free_at_sym [OF free(2)]
    by (auto simp: mem_wf_def hreg_def host_regions_def)
  moreover have "\<forall>r\<in>set (mappings m). mr_addr r + mr_len r \<le> rr_addr h \<or> rr_addr h + rr_len h \<le> mr_addr r"
    using free_at_sym [OF free(1)] by (auto simp: mapping_regions_def)
  moreover have "host_regions (insert_reserved h (reserved_regions m)) =
      insert (rr_addr h, rr_len h) (host_regions (reserved_regions m))"
    by (simp add: host_regions_def)
  ultimately show ?thesis
    using wf n by (auto simp: mem_wf_def)
qed

section \<open>Mapping\<close>

definition region_at :: "mapped_region list \<Rightarrow> nat \<Rightarrow> (nat \<times> u32) option" where
  "region_at ms x =
     map_option (\<lambda>r. (mr_prot r, mr_flags r)) (List.find (\<lambda>r. mr_addr r \<le> x \<and> x < mr_addr r + mr_len r) ms)"

definition aligned :: "nat \<Rightarrow> nat" where
  "aligned len = page_down (len + 0xFFFF)"

lemma aligned_bounds: "0 < len \<Longrightarrow> 0 < aligned len \<and> len \<le> aligned len \<and> aligned len \<le> len + 0xFFFF"
  using page_round_up [of len] page_down_le [of "len + 0xFFFF"] by (simp add: aligned_def)

lemma spaced_unique:
  assumes "spaced mreg ms" "proper (mapping_regions ms)" "r \<in> set ms" "q \<in> set ms"
    "mr_addr r \<le> x" "x < mr_addr r + mr_len r" "mr_addr q \<le> x" "x < mr_addr q + mr_len q"
  shows "r = q"
  using assms
proof (induction ms)
  case (Cons a ms)
  have "\<forall>y\<in>set ms. mr_addr a + mr_len a \<le> mr_addr y" using Cons.prems(1) by (auto simp: spaced_def mreg_def)
  then show ?case using Cons by (auto simp: spaced_def)
qed simp

lemma region_at_iff:
  assumes "spaced mreg ms" "proper (mapping_regions ms)"
  shows "region_at ms x = Some (p, f) \<longleftrightarrow>
    (\<exists>r\<in>set ms. mr_addr r \<le> x \<and> x < mr_addr r + mr_len r \<and> mr_prot r = p \<and> mr_flags r = f)"
proof
  assume "region_at ms x = Some (p, f)"
  then show "\<exists>r\<in>set ms. mr_addr r \<le> x \<and> x < mr_addr r + mr_len r \<and> mr_prot r = p \<and> mr_flags r = f"
    by (auto simp: region_at_def find_Some_iff)
next
  let ?Q = "\<lambda>r. mr_addr r \<le> x \<and> x < mr_addr r + mr_len r"
  assume "\<exists>r\<in>set ms. mr_addr r \<le> x \<and> x < mr_addr r + mr_len r \<and> mr_prot r = p \<and> mr_flags r = f"
  then obtain r where r: "r \<in> set ms" "?Q r" "mr_prot r = p" "mr_flags r = f" by blast
  obtain q where q: "List.find ?Q ms = Some q" using r by (cases "List.find ?Q ms") (auto simp: find_None_iff)
  then have "q \<in> set ms" "?Q q" by (auto simp: find_Some_iff)
  then have "q = r" using spaced_unique [OF assms _ r(1)] r(2) by blast
  then show "region_at ms x = Some (p, f)" using q r by (simp add: region_at_def)
qed

lemma region_at_eqI:
  assumes "\<And>p f. a = Some (p, f) \<longleftrightarrow> b = Some (p, f)"
  shows "a = (b :: (nat \<times> u32) option)"
  using assms by (cases a; cases b) auto


text \<open>The placement found for a request without \<^verbatim>\<open>MAP_FIXED\<close>.\<close>

definition place :: "memory_manager \<Rightarrow> nat \<Rightarrow> nat \<Rightarrow> nat option" where
  "place m hint n =
     (if max (mmap_base m) (program_break m) \<le> page_down hint \<and> can_grow_at m (page_down hint) n
      then Some (page_down hint) else find_gap m n)"

lemma mmap_not_fixed:
  assumes "0 < len" "len + 0xFFFF \<le> USIZE_MAX" "hint = 0 \<or> flags AND MAP_FIXED = 0"
  shows "mmap_anonymous m hint len prot flags =
    (case place m hint (aligned len) of
       None \<Rightarrow> (m, MAP_FAILED)
     | Some a \<Rightarrow> (m\<lparr> mappings := insert_mapping \<lparr> mr_addr = a, mr_len = aligned len, mr_prot = prot,
         mr_flags = flags \<rparr> (mappings m) \<rparr>, a))"
  using assms
  by (auto simp: mmap_anonymous_def place_def aligned_def Let_def checked_add_to_def split: option.splits)

lemma find_gap_Some:
  assumes wf: "mem_wf m" and n: "0 < n" and eq: "find_gap m n = Some a"
  shows "free_at (mapping_regions (mappings m) \<union> host_regions (reserved_regions m)) a n"
    "max (mmap_base m) (program_break m) \<le> a" "a + n \<le> USIZE_MAX"
proof -
  let ?R = "mapping_regions (mappings m) \<union> host_regions (reserved_regions m)"
  show "free_at ?R a n" "max (mmap_base m) (program_break m) \<le> a"
    using find_gap_spec [OF wf n] eq by (auto simp: gap_spec_def)
  have b: "a + n \<le> max_addr m \<or> (\<exists>(s, l)\<in>?R. a + n \<le> s)"
    using find_gap_spec [OF wf n] eq by (simp add: gap_spec_def)
  have "s \<le> USIZE_MAX" if "(s, l) \<in> ?R" for s l
    using that mem_wfD(3,4) [OF wf] by (force simp: mapping_regions_def host_regions_def)
  then show "a + n \<le> USIZE_MAX"
    using b mem_wfD(7) [OF wf] by (elim disjE bexE) (auto intro: order_trans)
qed

lemma place_free:
  assumes wf: "mem_wf m" and n: "0 < n" and eq: "place m hint n = Some a"
  shows "free_at (mapping_regions (mappings m) \<union> host_regions (reserved_regions m)) a n"
    "max (mmap_base m) (program_break m) \<le> a" "a + n \<le> USIZE_MAX"
  using eq find_gap_Some [OF wf n] can_grow_at_free [OF wf _ n, of a] mem_wfD(7) [OF wf]
  by (auto simp: place_def split: if_splits)

section \<open>Unmapping\<close>

lemma unmap_region_piece:
  assumes "p \<in> set (unmap_region a e r)" "0 < mr_len r" "mr_addr r + mr_len r \<le> USIZE_MAX"
  shows "mr_addr r \<le> mr_addr p" "mr_addr p + mr_len p \<le> mr_addr r + mr_len r" "0 < mr_len p"
    "mr_prot p = mr_prot r" "mr_flags p = mr_flags r"
  using assms by (auto simp: unmap_region_def Let_def saturating_add_to_fits split: if_splits)

lemma unmap_region_covers:
  assumes "mr_addr r + mr_len r \<le> USIZE_MAX" "a < e"
  shows "(\<exists>p\<in>set (unmap_region a e r). mr_addr p \<le> x \<and> x < mr_addr p + mr_len p) \<longleftrightarrow>
    mr_addr r \<le> x \<and> x < mr_addr r + mr_len r \<and> \<not> (a \<le> x \<and> x < e)"
  using assms by (auto simp: unmap_region_def Let_def saturating_add_to_fits)

lemma unmap_region_spaced:
  "mr_addr r + mr_len r \<le> USIZE_MAX \<Longrightarrow> a < e \<Longrightarrow> spaced mreg (unmap_region a e r)"
  by (auto simp: unmap_region_def Let_def saturating_add_to_fits spaced_def mreg_def)

lemma concat_unmap_spaced:
  assumes "spaced mreg ms" "proper (mapping_regions ms)" "a < e"
  shows "spaced mreg (concat (map (unmap_region a e) ms))"
  using assms
proof (induction ms)
  case (Cons r ms)
  have r: "0 < mr_len r" "mr_addr r + mr_len r \<le> USIZE_MAX" using Cons.prems(2) by auto
  have after: "\<forall>q\<in>set ms. mr_addr r + mr_len r \<le> mr_addr q"
    using Cons.prems(1) by (auto simp: spaced_def mreg_def)
  have "mr_addr p + mr_len p \<le> mr_addr p'"
    if p: "p \<in> set (unmap_region a e r)" and p': "p' \<in> set (unmap_region a e q)" and q: "q \<in> set ms" for p p' q
  proof -
    have "0 < mr_len q" "mr_addr q + mr_len q \<le> USIZE_MAX"
      using Cons.prems(2) q by (auto simp: proper_def mapping_regions_def)
    then show ?thesis
      using unmap_region_piece [OF p r] unmap_region_piece [OF p'] after q by force
  qed
  moreover have "spaced mreg (concat (map (unmap_region a e) ms))"
    using Cons by (auto simp: spaced_def)
  ultimately show ?case
    using unmap_region_spaced [OF r(2) Cons.prems(3)] by (auto simp: spaced_def sorted_wrt_append mreg_def)
qed (simp add: spaced_def)

lemma munmap_eq:
  assumes "0 < len" "len + 0xFFFF \<le> USIZE_MAX"
  shows "munmap m a len =
    (let e = saturating_add_usize a (aligned len)
     in (m\<lparr> mappings := concat (map (unmap_region a e) (mappings m)) \<rparr>,
         list_ex (\<lambda>r. \<not> (saturating_add_usize (mr_addr r) (mr_len r) \<le> a \<or> e \<le> mr_addr r)) (mappings m)))"
  using assms by (simp add: munmap_def aligned_def Let_def checked_add_to_def)

lemma concat_unmap_wf:
  assumes wf: "mem_wf m" and "a < e"
  shows "mem_wf (m\<lparr> mappings := concat (map (unmap_region a e) (mappings m)) \<rparr>)"
proof -
  have pieces: "mr_addr r \<le> mr_addr p \<and> mr_addr p + mr_len p \<le> mr_addr r + mr_len r \<and> 0 < mr_len p"
    if "p \<in> set (unmap_region a e r)" "r \<in> set (mappings m)" for p r
    using unmap_region_piece [OF that(1)] mem_wfD(3) [OF wf that(2)] by auto
  have "proper (mapping_regions (concat (map (unmap_region a e) (mappings m))))"
    using pieces mem_wfD(3) [OF wf] by (force simp: proper_def mapping_regions_def)
  moreover have "free_at (host_regions (reserved_regions m)) (mr_addr p) (mr_len p)"
    if "p \<in> set (unmap_region a e r)" "r \<in> set (mappings m)" for p r
  proof -
    have "free_at (host_regions (reserved_regions m)) (mr_addr r) (mr_len r)"
      using wf that(2) by (auto simp: mem_wf_def)
    then show ?thesis using pieces [OF that] by (fastforce simp: free_at_def)
  qed
  ultimately show ?thesis
    using wf concat_unmap_spaced [of "mappings m" a e] assms(2) by (auto simp: mem_wf_def)
qed

lemma mem_wf_maps:
  "mem_wf m \<Longrightarrow> spaced mreg (mappings m)" "mem_wf m \<Longrightarrow> proper (mapping_regions (mappings m))"
  by (simp_all add: mem_wf_def)

lemma region_at_some:
  assumes "mem_wf m"
  shows "region_at (mappings m) x \<noteq> None \<longleftrightarrow> (\<exists>r\<in>set (mappings m). mr_addr r \<le> x \<and> x < mr_addr r + mr_len r)"
  using region_at_iff [OF mem_wf_maps [OF assms], of x] by auto

lemma region_at_bounded: "mem_wf m \<Longrightarrow> region_at (mappings m) x \<noteq> None \<Longrightarrow> x < USIZE_MAX"
  unfolding region_at_some using mem_wfD(3) [of m] by force

lemma concat_unmap_region_at:
  assumes wf: "mem_wf m" and "a < e"
  shows "region_at (concat (map (unmap_region a e) (mappings m))) x =
    (if a \<le> x \<and> x < e then None else region_at (mappings m) x)"
proof (rule region_at_eqI)
  fix q f
  have wf': "mem_wf (m\<lparr> mappings := concat (map (unmap_region a e) (mappings m)) \<rparr>)"
    by (rule concat_unmap_wf [OF assms])
  have "(\<exists>p\<in>set (unmap_region a e r). mr_addr p \<le> x \<and> x < mr_addr p + mr_len p \<and> mr_prot p = q \<and> mr_flags p = f)
    \<longleftrightarrow> mr_addr r \<le> x \<and> x < mr_addr r + mr_len r \<and> mr_prot r = q \<and> mr_flags r = f \<and> \<not> (a \<le> x \<and> x < e)"
    if r: "r \<in> set (mappings m)" for r
    using unmap_region_covers [of r a e x] unmap_region_piece(4,5) [of _ a e r] mem_wfD(3) [OF wf r] assms(2)
    by metis
  then have "(\<exists>p\<in>set (concat (map (unmap_region a e) (mappings m))).
      mr_addr p \<le> x \<and> x < mr_addr p + mr_len p \<and> mr_prot p = q \<and> mr_flags p = f) \<longleftrightarrow>
    (\<exists>r\<in>set (mappings m). mr_addr r \<le> x \<and> x < mr_addr r + mr_len r \<and> mr_prot r = q \<and> mr_flags r = f) \<and>
      \<not> (a \<le> x \<and> x < e)"
    by auto
  then show "region_at (concat (map (unmap_region a e) (mappings m))) x = Some (q, f) \<longleftrightarrow>
    (if a \<le> x \<and> x < e then None else region_at (mappings m) x) = Some (q, f)"
    using region_at_iff [OF mem_wf_maps [OF wf], of x q f] region_at_iff [OF mem_wf_maps [OF wf'], of x q f]
    by auto
qed

lemma munmap_range:
  assumes "0 < len" "a < USIZE_MAX"
  shows "a < saturating_add_usize a (aligned len)"
    "x < USIZE_MAX \<Longrightarrow> x < saturating_add_usize a (aligned len) \<longleftrightarrow> x < a + aligned len"
  using assms aligned_bounds [OF assms(1)] by (auto simp: saturating_add_to_def)

lemma munmap_region_at:
  assumes wf: "mem_wf m" and len: "0 < len" "len + 0xFFFF \<le> USIZE_MAX" and a: "a < USIZE_MAX"
  shows "region_at (mappings (fst (munmap m a len))) x =
      (if a \<le> x \<and> x < a + aligned len then None else region_at (mappings m) x)"
    and "mem_wf (fst (munmap m a len))"
proof -
  let ?e = "saturating_add_usize a (aligned len)"
  have ms: "fst (munmap m a len) = m\<lparr> mappings := concat (map (unmap_region a ?e) (mappings m)) \<rparr>"
    using munmap_eq [OF len] by (simp add: Let_def)
  show "mem_wf (fst (munmap m a len))" unfolding ms by (rule concat_unmap_wf [OF wf munmap_range(1) [OF len(1) a]])
  show "region_at (mappings (fst (munmap m a len))) x =
      (if a \<le> x \<and> x < a + aligned len then None else region_at (mappings m) x)"
    using concat_unmap_region_at [OF wf munmap_range(1) [OF len(1) a], of x]
      munmap_range(2) [OF len(1) a, of x] region_at_bounded [OF wf, of x]
    unfolding ms by (cases "region_at (mappings m) x") auto
qed

lemma munmap_flag:
  assumes wf: "mem_wf m" and len: "0 < len" "len + 0xFFFF \<le> USIZE_MAX" and a: "a < USIZE_MAX"
  shows "snd (munmap m a len) \<longleftrightarrow> (\<exists>x. a \<le> x \<and> x < a + aligned len \<and> region_at (mappings m) x \<noteq> None)"
proof -
  let ?e = "saturating_add_usize a (aligned len)"
  note range = munmap_range [OF len(1) a]
  have eq: "snd (munmap m a len) \<longleftrightarrow> (\<exists>r\<in>set (mappings m). a < mr_addr r + mr_len r \<and> mr_addr r < ?e)"
    using munmap_eq [OF len, of m a] mem_wfD(5) [OF wf] by (auto simp: Let_def list_ex_iff not_le)
  show ?thesis
  proof
    assume "snd (munmap m a len)"
    then obtain r where r: "r \<in> set (mappings m)" "a < mr_addr r + mr_len r" "mr_addr r < ?e"
      unfolding eq by blast
    define x where "x = max a (mr_addr r)"
    have x: "mr_addr r \<le> x" "x < mr_addr r + mr_len r" "x < ?e" "a \<le> x"
      using r range(1) mem_wfD(3) [OF wf r(1)] by (auto simp: x_def)
    then have "region_at (mappings m) x \<noteq> None" using region_at_some [OF wf] r(1) by blast
    moreover from this have "x < a + aligned len" using range(2) x(3) region_at_bounded [OF wf] by blast
    ultimately show "\<exists>x. a \<le> x \<and> x < a + aligned len \<and> region_at (mappings m) x \<noteq> None" using x(4) by blast
  next
    assume "\<exists>x. a \<le> x \<and> x < a + aligned len \<and> region_at (mappings m) x \<noteq> None"
    then obtain x r where x: "a \<le> x" "x < a + aligned len" "r \<in> set (mappings m)" "mr_addr r \<le> x"
        "x < mr_addr r + mr_len r"
      using region_at_some [OF wf] by blast
    then have "x < ?e" using range(2) mem_wfD(3) [OF wf x(3)] by simp
    then show "snd (munmap m a len)" unfolding eq using x by (intro bexI [of _ r]) auto
  qed
qed

section \<open>Every operation preserves the invariant\<close>

lemma mmap_fixed_eq:
  assumes "0 < len" "len + 0xFFFF \<le> USIZE_MAX" "hint \<noteq> 0" "flags AND MAP_FIXED \<noteq> 0"
  shows "mmap_anonymous m hint len prot flags =
    (let e = saturating_add_usize hint (aligned len)
     in if max_addr m < e \<or> overlaps_reserved_prefix m hint (aligned len) \<or>
           overlaps_reserved_regions m hint (aligned len) \<or> overlaps_host_control m hint (aligned len) \<or>
           reserved_until m \<noteq> 0 \<and> overlaps_brk_heap m hint (aligned len)
        then (m, MAP_FAILED)
        else (m\<lparr> mappings := insert_mapping
                \<lparr> mr_addr = hint, mr_len = aligned len, mr_prot = prot, mr_flags = flags \<rparr>
                (filter (\<lambda>r. saturating_add_usize (mr_addr r) (mr_len r) \<le> hint \<or> e \<le> mr_addr r) (mappings m)) \<rparr>, hint))"
  using assms by (simp add: mmap_anonymous_def aligned_def Let_def checked_add_to_def)

lemma mem_wf_filter: "mem_wf m \<Longrightarrow> mem_wf (m\<lparr> mappings := filter P (mappings m) \<rparr>)"
  by (auto simp: mem_wf_def spaced_filter proper_def mapping_regions_def)

lemma mmap_wf:
  assumes wf: "mem_wf m"
  shows "mem_wf (fst (mmap_anonymous m hint len prot flags))"
proof (cases "len = 0 \<or> USIZE_MAX < len + 0xFFFF")
  case True
  then show ?thesis using wf by (auto simp: mmap_anonymous_def checked_add_to_def)
next
  case False
  then have len: "0 < len" "len + 0xFFFF \<le> USIZE_MAX" by auto
  note al = aligned_bounds [OF len(1)]
  show ?thesis
  proof (cases "hint = 0 \<or> flags AND MAP_FIXED = 0")
    case True
    show ?thesis
    proof (cases "place m hint (aligned len)")
      case None
      then show ?thesis using wf by (simp add: mmap_not_fixed [OF len True])
    next
      case (Some a)
      then show ?thesis
        using place_free [OF wf _ Some] al
          insert_mapping_wf [OF wf, of "\<lparr> mr_addr = a, mr_len = aligned len, mr_prot = prot, mr_flags = flags \<rparr>"]
        by (simp add: mmap_not_fixed [OF len True])
    qed
  next
    case F: False
    let ?e = "saturating_add_usize hint (aligned len)"
    let ?m = "m\<lparr> mappings := filter (\<lambda>r. saturating_add_usize (mr_addr r) (mr_len r) \<le> hint \<or> ?e \<le> mr_addr r) (mappings m) \<rparr>"
    have wf1: "mem_wf ?m" by (rule mem_wf_filter [OF wf])
    have "mem_wf (?m\<lparr> mappings := insert_mapping
        \<lparr> mr_addr = hint, mr_len = aligned len, mr_prot = prot, mr_flags = flags \<rparr> (mappings ?m) \<rparr>)"
      if ok: "\<not> max_addr m < ?e" "\<not> overlaps_reserved_regions m hint (aligned len)"
    proof (rule insert_mapping_wf [OF wf1])
      have e: "?e = hint + aligned len" "hint + aligned len \<le> USIZE_MAX"
        using ok(1) mem_wfD(7) [OF wf] by (auto simp: saturating_add_to_def)
      show "free_at (mapping_regions (mappings ?m)) (mr_addr \<lparr> mr_addr = hint, mr_len = aligned len, mr_prot = prot,
          mr_flags = flags \<rparr>) (mr_len \<lparr> mr_addr = hint, mr_len = aligned len, mr_prot = prot, mr_flags = flags \<rparr>)"
        using mem_wfD(5) [OF wf] e by (auto simp: free_at_def mapping_regions_def)
    qed (use ok al overlaps_reserved_free [OF wf, of "aligned len" hint] in auto)
    then show ?thesis using wf F by (simp add: mmap_fixed_eq [OF len] Let_def)
  qed
qed

lemma munmap_wf: "mem_wf m \<Longrightarrow> mem_wf (fst (munmap m a len))"
proof (cases "len = 0 \<or> USIZE_MAX < len + 0xFFFF")
  case True
  then show "mem_wf m \<Longrightarrow> ?thesis" by (auto simp: munmap_def checked_add_to_def)
next
  case False
  assume wf: "mem_wf m"
  show ?thesis
  proof (cases "a < USIZE_MAX")
    case True
    then show ?thesis using munmap_region_at(2) [OF wf] False by auto
  next
    case F: False
    have "unmap_region a e r = [r]" if "r \<in> set (mappings m)" for r e
      using mem_wfD(3,5) [OF wf that] F by (simp add: unmap_region_def)
    moreover have "concat (map g xs) = xs" if "\<forall>x\<in>set xs. g x = [x]" for g and xs :: "mapped_region list"
      using that by (induction xs) auto
    ultimately have "concat (map (unmap_region a e) (mappings m)) = mappings m" for e by blast
    then show ?thesis using wf munmap_eq [of len m a] False by (simp add: Let_def)
  qed
qed

lemma reserve_wf: "mem_wf m \<Longrightarrow> mem_wf (fst (reserve_host_region m len))"
proof (cases "len = 0 \<or> USIZE_MAX < len + 0xFFFF \<or> find_gap m (aligned len) = None")
  case True
  then show "mem_wf m \<Longrightarrow> ?thesis"
    by (auto simp: reserve_host_region_def checked_add_to_def aligned_def)
next
  case False
  assume wf: "mem_wf m"
  from False obtain a where a: "find_gap m (aligned len) = Some a" by auto
  have n: "0 < aligned len" using False aligned_bounds by auto
  show ?thesis
    using insert_reserved_wf [OF wf, of "\<lparr> rr_addr = a, rr_len = aligned len \<rparr>"] find_gap_Some [OF wf n a]
      n False a
    by (auto simp: reserve_host_region_def checked_add_to_def aligned_def)
qed

lemma reserve_at_wf: "mem_wf m \<Longrightarrow> mem_wf (fst (reserve_host_region_at m a len))"
proof (cases "fst (reserve_host_region_at m a len) = m")
  case False
  assume wf: "mem_wf m"
  have len: "0 < len" "len + 0xFFFF \<le> USIZE_MAX" "a + aligned len \<le> USIZE_MAX"
    and no: "\<not> overlaps_mappings m a (aligned len)" "\<not> overlaps_reserved_regions m a (aligned len)"
    and eq: "fst (reserve_host_region_at m a len) = m\<lparr> reserved_regions :=
        insert_reserved \<lparr> rr_addr = a, rr_len = aligned len \<rparr> (reserved_regions m) \<rparr>"
    using False unfolding reserve_host_region_at_def aligned_def Let_def
    by (auto split: if_splits option.splits)
  have n: "0 < aligned len" using aligned_bounds [OF len(1)] by simp
  show ?thesis
    unfolding eq using insert_reserved_wf [OF wf, of "\<lparr> rr_addr = a, rr_len = aligned len \<rparr>"] n len(3)
      overlaps_mappings_free [OF wf n, of a] overlaps_reserved_free [OF wf n, of a] no by simp
qed simp

lemma extend_first_facts:
  assumes "spaced mreg ms" "proper (mapping_regions ms)" "extend_first a old new ms = (ms', b)" "old < new"
    "a + new \<le> USIZE_MAX" "free_at (mapping_regions ms) (a + old) (new - old)"
  shows "spaced mreg ms' \<and> proper (mapping_regions ms') \<and> map mr_addr ms' = map mr_addr ms \<and>
    (\<forall>r\<in>set ms'. r \<in> set ms \<or> b \<and> mr_addr r = a \<and> mr_len r = new \<and> (\<exists>q\<in>set ms. mr_addr q = a \<and> mr_len q = old))"
  using assms
proof (induction ms arbitrary: ms' b)
  case Nil
  then show ?case by (simp add: spaced_def)
next
  case (Cons r ms)
  have after: "\<forall>q\<in>set ms. mr_addr r + mr_len r \<le> mr_addr q \<and> 0 < mr_len q"
    using Cons.prems(1,2) by (auto simp: spaced_def mreg_def proper_def mapping_regions_def)
  show ?case
  proof (cases "mr_addr r = a \<and> mr_len r = old")
    case True
    then have ms': "ms' = r\<lparr> mr_len := new \<rparr> # ms" and b using Cons.prems(3) by auto
    have "\<forall>q\<in>set ms. a + new \<le> mr_addr q"
    proof
      fix q assume q: "q \<in> set ms"
      then have "a + old + (new - old) \<le> mr_addr q \<or> mr_addr q + mr_len q \<le> a + old"
        using Cons.prems(6) by (auto simp: free_at_def mapping_regions_def)
      moreover have "\<not> mr_addr q + mr_len q \<le> a + old" using after q True by force
      ultimately show "a + new \<le> mr_addr q" using Cons.prems(4) by simp
    qed
    then show ?thesis
      using Cons.prems True ms' \<open>b\<close> by (auto simp: spaced_def mreg_def)
  next
    case False
    obtain ms1 b1 where e: "extend_first a old new ms = (ms1, b1)" by fastforce
    then have ms': "ms' = r # ms1" "b = b1" using Cons.prems(3) False by auto
    have IH: "spaced mreg ms1 \<and> proper (mapping_regions ms1) \<and> map mr_addr ms1 = map mr_addr ms \<and>
      (\<forall>r\<in>set ms1. r \<in> set ms \<or> b1 \<and> mr_addr r = a \<and> mr_len r = new \<and> (\<exists>q\<in>set ms. mr_addr q = a \<and> mr_len q = old))"
      using Cons.IH [OF _ _ e] Cons.prems by (auto simp: spaced_def)
    then have "\<forall>q\<in>set ms1. mr_addr r + mr_len r \<le> mr_addr q"
      using after by (metis (no_types, lifting) image_iff list.set_map)
    then show ?thesis using IH ms' Cons.prems(2) by (auto simp: spaced_def mreg_def)
  qed
qed

lemma extend_wf:
  assumes wf: "mem_wf m" and n: "old < new" and g: "can_grow_at m (wrap_usize (a + old)) (new - old)"
  shows "mem_wf (fst (extend_mapping m a old new))"
proof (cases "\<exists>r\<in>set (mappings m). mr_addr r = a \<and> mr_len r = old")
  case True
  then have no_wrap: "wrap_usize (a + old) = a + old"
    using mem_wfD(3) [OF wf] by (force simp: wrap_usize_def USIZE_MAX_def)
  have d: "0 < new - old" using n by simp
  note f = can_grow_at_free [OF wf g [unfolded no_wrap] d]
  obtain ms' b where e: "extend_first a old new (mappings m) = (ms', b)" by fastforce
  have bound: "a + new \<le> USIZE_MAX" using f(1) n mem_wfD(7) [OF wf] by simp
  have F: "spaced mreg ms' \<and> proper (mapping_regions ms') \<and> map mr_addr ms' = map mr_addr (mappings m) \<and>
    (\<forall>r\<in>set ms'. r \<in> set (mappings m) \<or>
       b \<and> mr_addr r = a \<and> mr_len r = new \<and> (\<exists>q\<in>set (mappings m). mr_addr q = a \<and> mr_len q = old))"
    by (rule extend_first_facts [OF mem_wf_maps [OF wf] e n bound]) (use f(2) in simp)
  have "free_at (host_regions (reserved_regions m)) (mr_addr r) (mr_len r)" if "r \<in> set ms'" for r
  proof -
    have "free_at (host_regions (reserved_regions m)) a new"
      if "q \<in> set (mappings m)" "mr_addr q = a" "mr_len q = old" for q
    proof -
      have old: "free_at (host_regions (reserved_regions m)) a old" using wf that by (auto simp: mem_wf_def)
      have "a + new \<le> s \<or> s + l \<le> a" if sl: "(s, l) \<in> host_regions (reserved_regions m)" for s l
      proof -
        have "0 < l" using sl mem_wfD(4) [OF wf] by (auto simp: host_regions_def)
        moreover have "a + old \<le> s \<or> s + l \<le> a" using free_at_sym [OF old sl] .
        moreover have "a + old + (new - old) \<le> s \<or> s + l \<le> a + old"
          using free_at_sym [OF f(2), of s l] sl by auto
        ultimately show ?thesis using n by auto
      qed
      then show ?thesis by (auto simp: free_at_def)
    qed
    then show ?thesis using F that wf by (auto simp: mem_wf_def)
  qed
  then show ?thesis using wf F e by (simp add: extend_mapping_def mem_wf_def)
next
  case False
  moreover have "extend_first a old new xs = (xs, False)"
    if "\<not> (\<exists>r\<in>set xs. mr_addr r = a \<and> mr_len r = old)" for xs
    using that by (induction xs) auto
  ultimately have "extend_first a old new (mappings m) = (mappings m, False)" by blast
  then show ?thesis using wf by (simp add: extend_mapping_def)
qed

lemma mremap_wf:
  assumes wf: "mem_wf m"
  shows "mem_wf (fst (sys_mremap m old_addr old_len new_len flags))"
proof -
  have ext: "mem_wf m'"
    if "extend_mapping m a old new = (m', b)" "can_grow_at m (wrap_usize (a + old)) (new - old)" "\<not> new \<le> old"
    for m' b a old new
    using extend_wf [OF wf _ that(2)] that(1,3) by simp
  have mv: "mem_wf m'" if "mmap_anonymous m h l q f = (m', r)" for m' r h l q f
    using mmap_wf [OF wf, of h l q f] that by simp
  show ?thesis
    unfolding sys_mremap_def Let_def
    by (auto simp: wf munmap_wf split: prod.splits bool.splits dest: ext mv)
qed

datatype mem_op =
    MMap nat nat nat u32
  | MUnmap nat nat
  | MRemap nat nat nat u32
  | MBrk nat
  | MBrkBase nat
  | MDataLimit nat
  | MReserve nat
  | MReserveAt nat nat
  | MMaxAddr nat
  | MMmapBase nat
  | MBrkLimit nat

fun mem_apply :: "memory_manager \<Rightarrow> mem_op \<Rightarrow> memory_manager" where
  "mem_apply m (MMap hint len prot flags) = fst (mmap_anonymous m hint len prot flags)"
| "mem_apply m (MUnmap a len) = fst (munmap m a len)"
| "mem_apply m (MRemap a old new flags) = fst (sys_mremap m a old new flags)"
| "mem_apply m (MBrk b) = fst (set_brk m b)"
| "mem_apply m (MBrkBase a) = set_brk_base m a"
| "mem_apply m (MDataLimit n) = set_data_limit m n"
| "mem_apply m (MReserve len) = fst (reserve_host_region m len)"
| "mem_apply m (MReserveAt a len) = fst (reserve_host_region_at m a len)"
| "mem_apply m (MMaxAddr a) = set_max_addr m a"
| "mem_apply m (MMmapBase a) = set_mmap_base m a"
| "mem_apply m (MBrkLimit a) = set_brk_limit m a"

lemma mem_apply_wf: "mem_wf m \<Longrightarrow> mem_wf (mem_apply m op)"
proof (cases op)
  case (MBrk b)
  then show "mem_wf m \<Longrightarrow> ?thesis" by (simp add: set_brk_def) (simp add: mem_wf_def)
next
  case (MMaxAddr a)
  then show "mem_wf m \<Longrightarrow> ?thesis" by (auto simp: set_max_addr_def mem_wf_def)
qed (simp_all add: mmap_wf munmap_wf mremap_wf reserve_wf reserve_at_wf,
    simp_all add: mem_wf_def set_brk_base_def set_data_limit_def set_mmap_base_def set_brk_limit_def Let_def)

lemma memory_new_wf: "mem_wf memory_new"
  by (simp add: mem_wf_def memory_new_def spaced_def DEFAULT_MAX_ADDR_def USIZE_MAX_def)

lemma mem_run_wf: "mem_wf m \<Longrightarrow> mem_wf (foldl mem_apply m ops)"
  by (induction ops arbitrary: m) (simp_all add: mem_apply_wf)

text \<open>
  Every region ends at or below \<open>lim\<close>, and so will the next one: the address limit only shrinks, and a gap
  found below an existing region ends below it.
\<close>

definition within :: "nat \<Rightarrow> memory_manager \<Rightarrow> bool" where
  "within lim m \<longleftrightarrow> max_addr m \<le> lim \<and>
     (\<forall>r\<in>set (mappings m). mr_addr r + mr_len r \<le> lim) \<and>
     (\<forall>h\<in>set (reserved_regions m). rr_addr h + rr_len h \<le> lim)"

lemma within_insert:
  "within lim m \<Longrightarrow> mr_addr r + mr_len r \<le> lim \<Longrightarrow>
     within lim (m\<lparr> mappings := insert_mapping r (filter P (mappings m)) \<rparr>)"
  "within lim m \<Longrightarrow> mr_addr r + mr_len r \<le> lim \<Longrightarrow> within lim (m\<lparr> mappings := insert_mapping r (mappings m) \<rparr>)"
  "within lim m \<Longrightarrow> rr_addr h + rr_len h \<le> lim \<Longrightarrow>
     within lim (m\<lparr> reserved_regions := insert_reserved h (reserved_regions m) \<rparr>)"
  by (auto simp: within_def)

lemma find_gap_within:
  assumes "mem_wf m" "within lim m" "0 < n" "find_gap m n = Some a"
  shows "a + n \<le> lim"
proof -
  have "a + n \<le> max_addr m \<or> (\<exists>(s, l)\<in>mapping_regions (mappings m) \<union> host_regions (reserved_regions m). a + n \<le> s)"
    using find_gap_spec [OF assms(1,3)] assms(4) by (simp add: gap_spec_def)
  then show ?thesis using assms(2) by (fastforce simp: within_def mapping_regions_def host_regions_def)
qed

lemma place_within:
  assumes "mem_wf m" "within lim m" "0 < n" "place m hint n = Some a"
  shows "a + n \<le> lim"
  using assms find_gap_within [OF assms(1-3)] can_grow_at_free(1) [OF assms(1) _ assms(3), of a]
  by (fastforce simp: place_def within_def split: if_splits)

lemma mmap_within:
  assumes wf: "mem_wf m" and "within lim m"
  shows "within lim (fst (mmap_anonymous m hint len prot flags))"
proof (cases "len = 0 \<or> USIZE_MAX < len + 0xFFFF")
  case True
  then show ?thesis using assms by (auto simp: mmap_anonymous_def checked_add_to_def)
next
  case False
  then have len: "0 < len" "len + 0xFFFF \<le> USIZE_MAX" by auto
  show ?thesis
  proof (cases "hint = 0 \<or> flags AND MAP_FIXED = 0")
    case True
    then show ?thesis
      using place_within [OF assms, of "aligned len" hint] aligned_bounds [OF len(1)] assms(2)
      by (auto simp: mmap_not_fixed [OF len True] within_insert split: option.split)
  next
    case F: False
    have "hint + aligned len \<le> lim" if "\<not> max_addr m < saturating_add_usize hint (aligned len)"
      using that mem_wfD(7) [OF wf] assms(2) by (auto simp: saturating_add_to_def within_def split: if_splits)
    then show ?thesis using F assms(2) by (simp add: mmap_fixed_eq [OF len] Let_def within_insert(1))
  qed
qed

lemma munmap_within:
  assumes "mem_wf m" "within lim m"
  shows "within lim (fst (munmap m a len))"
proof -
  have "mr_addr p + mr_len p \<le> lim" if "p \<in> set (unmap_region a e r)" "r \<in> set (mappings m)" for p r e
    using unmap_region_piece(2) [OF that(1)] mem_wfD(3) [OF assms(1) that(2)] assms(2) that(2)
    by (force simp: within_def)
  then show ?thesis using assms(2) by (auto simp: munmap_def Let_def within_def split: option.split)
qed

lemma extend_within:
  assumes wf: "mem_wf m" and w: "within lim m" and n: "old < new"
    and g: "can_grow_at m (wrap_usize (a + old)) (new - old)"
  shows "within lim (fst (extend_mapping m a old new))"
proof -
  have *: "\<forall>r\<in>set (fst (extend_first a old new xs)). mr_addr r + mr_len r \<le> lim"
    if "\<forall>r\<in>set xs. mr_addr r + mr_len r \<le> lim" "\<exists>r\<in>set xs. mr_addr r = a \<and> mr_len r = old \<Longrightarrow> a + new \<le> lim" for xs
    using that by (induction xs) (auto split: prod.splits)
  have "a + new \<le> lim" if "\<exists>r\<in>set (mappings m). mr_addr r = a \<and> mr_len r = old"
  proof -
    have no_wrap: "wrap_usize (a + old) = a + old"
      using that mem_wfD(3) [OF wf] by (force simp: wrap_usize_def USIZE_MAX_def)
    show ?thesis using can_grow_at_free(1) [OF wf g [unfolded no_wrap]] n w by (simp add: within_def)
  qed
  then show ?thesis using * [of "mappings m"] w
    by (auto simp: extend_mapping_def within_def split: prod.split)
qed

lemma mremap_within:
  assumes wf: "mem_wf m" and w: "within lim m"
  shows "within lim (fst (sys_mremap m old_addr old_len new_len flags))"
proof -
  have ext: "within lim m'"
    if "extend_mapping m a old new = (m', b)" "can_grow_at m (wrap_usize (a + old)) (new - old)" "\<not> new \<le> old"
    for m' b a old new
    using extend_within [OF wf w _ that(2)] that(1,3) by simp
  have mv: "within lim m'" "within lim (fst (munmap m' b c))" if "mmap_anonymous m h l q f = (m', r)" for m' r h l q f b c
    using mmap_within [OF wf w, of h l q f] mmap_wf [OF wf, of h l q f] munmap_within [of m' lim b c] that by simp_all
  show ?thesis
    unfolding sys_mremap_def Let_def
    by (auto simp: wf w munmap_within split: prod.splits bool.splits dest: ext intro: mv)
qed

lemma reserve_within:
  assumes "mem_wf m" "within lim m"
  shows "within lim (fst (reserve_host_region m len))" "within lim (fst (reserve_host_region_at m a len))"
proof -
  have pos: "len \<noteq> 0 \<Longrightarrow> 0 < page_down (len + 0xFFFF)" using aligned_bounds [of len] by (simp add: aligned_def)
  show "within lim (fst (reserve_host_region m len))"
    using find_gap_within [OF assms pos] assms(2)
    by (auto simp: reserve_host_region_def within_insert(3) split: option.split)
  show "within lim (fst (reserve_host_region_at m a len))"
    using assms(2) unfolding reserve_host_region_at_def Let_def
    by (auto simp: within_insert(3) split: option.split) (auto simp: within_def)
qed

lemma mem_apply_within: "mem_wf m \<Longrightarrow> within lim m \<Longrightarrow> within lim (mem_apply m op)"
  by (cases op) (simp_all add: mmap_within munmap_within mremap_within reserve_within,
    simp_all add: within_def set_brk_def set_brk_base_def set_data_limit_def set_max_addr_def set_mmap_base_def
      set_brk_limit_def Let_def)

lemma mem_run_within: "mem_wf m \<Longrightarrow> within lim m \<Longrightarrow> within lim (foldl mem_apply m ops)"
  by (induction ops arbitrary: m) (simp_all add: mem_apply_wf mem_apply_within)

lemma memory_new_within: "within DEFAULT_MAX_ADDR memory_new"
  by (simp add: within_def memory_new_def)

section \<open>The properties of the address space\<close>

text \<open>C15. From a fresh address space, after any sequence of mmap, munmap, mremap, brk, host reservations
  and changes of its limits, the mappings are pairwise disjoint, the host-reserved regions are pairwise
  disjoint, no mapping meets a host region, and every mapping and every host region is nonempty and ends
  within the 1 GiB address space.\<close>

theorem address_space_disjoint:
  fixes ops :: "mem_op list"
  defines "m \<equiv> foldl mem_apply memory_new ops"
  shows "sorted_wrt (\<lambda>r q. mr_addr r + mr_len r \<le> mr_addr q) (mappings m) \<and>
    sorted_wrt (\<lambda>h k. rr_addr h + rr_len h \<le> rr_addr k) (reserved_regions m) \<and>
    (\<forall>r\<in>set (mappings m). 0 < mr_len r \<and> mr_addr r + mr_len r \<le> DEFAULT_MAX_ADDR) \<and>
    (\<forall>h\<in>set (reserved_regions m). 0 < rr_len h \<and> rr_addr h + rr_len h \<le> DEFAULT_MAX_ADDR) \<and>
    (\<forall>r\<in>set (mappings m). \<forall>h\<in>set (reserved_regions m).
       mr_addr r + mr_len r \<le> rr_addr h \<or> rr_addr h + rr_len h \<le> mr_addr r)"
proof -
  have wf: "mem_wf m" unfolding m_def by (rule mem_run_wf [OF memory_new_wf])
  have "within DEFAULT_MAX_ADDR m" unfolding m_def by (rule mem_run_within [OF memory_new_wf memory_new_within])
  then show ?thesis
    using wf mem_wfD(3,4) [OF wf]
    by (simp add: mem_wf_def within_def spaced_def mreg_def hreg_def free_at_def host_regions_def)
qed


definition demo_space :: memory_manager where
  "demo_space = memory_new\<lparr> mappings :=
     [\<lparr> mr_addr = 0x04000000, mr_len = 0x30000, mr_prot = 3, mr_flags = 0x22 \<rparr>] \<rparr>"

lemma demo_space_wf: "mem_wf demo_space"
  by (simp add: mem_wf_def demo_space_def memory_new_def spaced_def mapping_regions_def proper_def
      host_regions_def DEFAULT_MAX_ADDR_def USIZE_MAX_def)

lemmas space_eval = demo_space_def memory_new_def mmap_anonymous_def find_gap_def gap_visit_def
  saturating_add_to_def checked_add_to_def USIZE_MAX_def MMAP_BASE_def INITIAL_BRK_def
  DEFAULT_MAX_ADDR_def page_down_def insert_mapping_def insert_at_def partition_point_def Let_def


theorem address_space_disjoint_witness:
  "let m = foldl mem_apply memory_new [MMap 0 100 3 0x22, MReserve 1, MMap 0 100 3 0x22, MReserve 1]
   in map mr_addr (mappings m) = [0x4000000, 0x4020000] \<and>
      map (\<lambda>h. (rr_addr h, rr_len h)) (reserved_regions m) = [(0x4010000, 0x10000), (0x4030000, 0x10000)] \<and>
      sorted_wrt (\<lambda>h k. rr_addr h + rr_len h \<le> rr_addr k) (reserved_regions m)"
  using address_space_disjoint [of "[MMap 0 100 3 0x22, MReserve 1, MMap 0 100 3 0x22, MReserve 1]"]
  by (simp add: space_eval reserve_host_region_def insert_reserved_def)

text \<open>C17. munmap removes exactly the page-rounded range: every address in it is unmapped, every other
  address keeps its mapping with the same protection and flags (mappings are trimmed or split as
  needed), and the result says whether anything was mapped there.\<close>

theorem munmap_exact:
  assumes "mem_wf m" "0 < len" "len + 0xFFFF \<le> USIZE_MAX" "a < USIZE_MAX" "munmap m a len = (m', found)"
  shows "(\<forall>x. region_at (mappings m') x =
      (if a \<le> x \<and> x < a + aligned len then None else region_at (mappings m) x)) \<and>
    (found \<longleftrightarrow> (\<exists>x. a \<le> x \<and> x < a + aligned len \<and> region_at (mappings m) x \<noteq> None))"
  using munmap_region_at(1) [OF assms(1-4)] munmap_flag [OF assms(1-4)] assms(5) by simp

theorem munmap_exact_witness:
  "region_at (mappings (fst (munmap demo_space 0x04010000 1))) 0x04010000 = None \<and>
   region_at (mappings (fst (munmap demo_space 0x04010000 1))) 0x04020000 = Some (3, 0x22)"
proof -
  have h: "(0 :: nat) < 1" "(1 :: nat) + 0xFFFF \<le> USIZE_MAX" "(0x04010000 :: nat) < USIZE_MAX"
    by (simp_all add: USIZE_MAX_def)
  have "aligned 1 = 0x10000" by (simp add: aligned_def page_down_def)
  moreover have "region_at (mappings demo_space) 0x04020000 = Some (3, 0x22)"
    by (simp add: region_at_def demo_space_def)
  ultimately show ?thesis
    using munmap_exact [OF demo_space_wf h prod.collapse [symmetric], THEN conjunct1] by simp
qed

text \<open>C18. brk: a request is granted exactly when it is nonzero, not below the initial break, within the
  address limit, the break limit and RLIMIT_DATA, and, when it grows the heap, the added bytes meet
  no mapping and no host region; a refused request changes nothing and the result is always the
  current break.\<close>

theorem set_brk_granted:
  assumes wf: "mem_wf m" and eq: "set_brk m b = (m', r)" and ne: "b \<noteq> program_break m"
  shows "r = program_break m' \<and> m' = m\<lparr> program_break := program_break m' \<rparr> \<and>
    (program_break m' = b \<longleftrightarrow>
      b \<noteq> 0 \<and> initial_brk m \<le> b \<and> b \<le> max_addr m \<and> b \<le> brk_limit m \<and> b - initial_brk m \<le> data_limit m \<and>
      (program_break m < b \<longrightarrow>
        free_at (mapping_regions (mappings m) \<union> host_regions (reserved_regions m))
          (program_break m) (b - program_break m))) \<and>
    (program_break m' \<noteq> b \<longrightarrow> m' = m)"
proof -
  have "b \<le> max_addr m \<Longrightarrow> program_break m < b \<Longrightarrow>
      overlaps_mappings m (program_break m) (b - program_break m) \<longleftrightarrow>
        \<not> free_at (mapping_regions (mappings m)) (program_break m) (b - program_break m)"
    "b \<le> max_addr m \<Longrightarrow> program_break m < b \<Longrightarrow>
      overlaps_reserved_regions m (program_break m) (b - program_break m) \<longleftrightarrow>
        \<not> free_at (host_regions (reserved_regions m)) (program_break m) (b - program_break m)"
    using overlaps_mappings_free [OF wf, of "b - program_break m" "program_break m"]
      overlaps_reserved_free [OF wf, of "b - program_break m" "program_break m"] mem_wfD(7) [OF wf] by simp_all
  then show ?thesis using eq ne unfolding set_brk_def by (auto split: if_splits)
qed

theorem set_brk_granted_witness:
  "snd (set_brk demo_space 0x01000100) = 0x01000100 \<and> snd (set_brk demo_space 0x05000000) = 0x01000000"
proof -
  have e: "mappings demo_space = [\<lparr> mr_addr = 0x04000000, mr_len = 0x30000, mr_prot = 3, mr_flags = 0x22 \<rparr>]"
    "reserved_regions demo_space = []" "program_break demo_space = 0x01000000"
    "initial_brk demo_space = 0x01000000" "max_addr demo_space = 0x40000000"
    "brk_limit demo_space = 0x40000000" "data_limit demo_space = U64_MAX"
    by (simp_all add: demo_space_def memory_new_def INITIAL_BRK_def DEFAULT_MAX_ADDR_def)
  show ?thesis
    using set_brk_granted [OF demo_space_wf prod.collapse [symmetric], of "0x01000100"]
      set_brk_granted [OF demo_space_wf prod.collapse [symmetric], of "0x05000000"]
    by (auto simp: e mapping_regions_def host_regions_def U64_MAX_def)
qed

section \<open>Consequences worth knowing\<close>

text \<open>
  \<^verbatim>\<open>MAP_FIXED\<close> over the middle page of a mapping forgets the pages around it: the next search hands
  out the first page of the old mapping again.
\<close>

lemma map_fixed_forgets_neighbours:
  "region_at (mappings demo_space) 0x04000000 \<noteq> None \<and>
   (let m' = fst (mmap_anonymous demo_space 0x04010000 0x10000 3 0x32)
    in region_at (mappings m') 0x04000000 = None \<and> snd (mmap_anonymous m' 0 0x10000 3 0x22) = 0x04000000)"
proof -
  have f: "(0x32 :: u32) AND 0x10 \<noteq> 0" by simp
  have m': "fst (mmap_anonymous demo_space 0x04010000 0x10000 3 0x32) = demo_space\<lparr> mappings :=
      [\<lparr> mr_addr = 0x04010000, mr_len = 0x10000, mr_prot = 3, mr_flags = 0x32 \<rparr>] \<rparr>"
    using f by (simp add: space_eval MAP_FIXED_def overlaps_reserved_prefix_def overlaps_reserved_regions_def
        overlaps_host_control_def)
  show ?thesis unfolding m' by (simp add: space_eval region_at_def)
qed

text \<open>
  \<^verbatim>\<open>mremap\<close> to a length within a page of the address space wraps its page rounding to 0, unmaps the
  whole old mapping and reports success.
\<close>

lemma mremap_huge_unmaps:
  "sys_mremap demo_space 0x04000000 0x30000 0xFFFFFFFF 1 = (demo_space\<lparr> mappings := [] \<rparr>, Ok 0x04000000)"
  by (simp add: sys_mremap_def wrap_usize_def munmap_def unmap_region_def space_eval MREMAP_MAYMOVE_def)

end
