(* ===== verification/Signal_State.thy ===== *)
theory Signal_State
  imports Kandelo_Prelude "HOL-Library.Multiset"
begin

text \<open>
  Signal dispositions and pending signals (\<^verbatim>\<open>src/crates/kernel/src/signal.rs\<close>).  The
  process-wide \<open>SignalState\<close> and the per-thread \<open>PerThreadSignalState\<close> both
  keep a 64-bit set of pending signal numbers next to a queue of instances with their
  siginfo; the record \<open>pending_queue\<close> is that common part, extended by each of the two.
  The source writes the queue operations twice, once for each struct; here they are one
  definition over the common part.
\<close>

named_theorems signal_numbers \<open>signal numbers as literals\<close>

section \<open>Signal numbers and actions\<close>

definition NSIG :: nat where [signal_numbers]: "NSIG = 65"
definition SIGRTMIN :: nat where [signal_numbers]: "SIGRTMIN = 32"
definition SIGHUP :: nat where [signal_numbers]: "SIGHUP = 1"
definition SIGKILL :: nat where [signal_numbers]: "SIGKILL = 9"
definition SIGALRM :: nat where [signal_numbers]: "SIGALRM = 14"
definition SIGCHLD :: nat where [signal_numbers]: "SIGCHLD = 17"
definition SIGCONT :: nat where [signal_numbers]: "SIGCONT = 18"
definition SIGSTOP :: nat where [signal_numbers]: "SIGSTOP = 19"
definition SIGTSTP :: nat where [signal_numbers]: "SIGTSTP = 20"
definition SIGTTIN :: nat where [signal_numbers]: "SIGTTIN = 21"
definition SIGTTOU :: nat where [signal_numbers]: "SIGTTOU = 22"
definition SIGWINCH :: nat where [signal_numbers]: "SIGWINCH = 28"
definition SA_RESTART :: u32 where "SA_RESTART = 0x10000000"

definition sig_bit :: "nat \<Rightarrow> u64" where
  "sig_bit signum = (if signum = 0 \<or> signum \<ge> 65 then 0 else push_bit (signum - 1) 1)"

datatype signal_handler = Default | Ignore | Handler u32

record signal_action =
  handler :: signal_handler
  sa_flags :: u32
  sa_mask :: u64

definition signal_action_default :: signal_action where
  "signal_action_default = \<lparr> handler = Default, sa_flags = 0, sa_mask = 0 \<rparr>"

datatype default_act = ActTerminate | ActIgnore | ActCoreDump | ActStop | ActContinue

definition default_action :: "nat \<Rightarrow> default_act" where
  "default_action signum =
     (if signum = SIGCHLD \<or> signum = SIGWINCH then ActIgnore
      else if signum = SIGCONT then ActContinue
      else if signum = SIGSTOP \<or> signum = SIGTSTP \<or> signum = SIGTTIN \<or> signum = SIGTTOU
        then ActStop
      else ActTerminate)"

fun should_discard_pending :: "nat \<Rightarrow> signal_handler \<Rightarrow> bool" where
  "should_discard_pending signum Ignore = True"
| "should_discard_pending signum Default = (default_action signum = ActIgnore)"
| "should_discard_pending signum (Handler _) = False"

section \<open>Pending sets with their queue of instances\<close>

record rt_sig_entry =
  signum :: nat
  si_value :: int
  si_code :: int
  timer_id :: "nat option"

record pending_signal_info =
  info_value :: int
  info_code :: int
  info_timer :: "nat option"

definition pending_signal_info_default :: pending_signal_info where
  "pending_signal_info_default = \<lparr> info_value = 0, info_code = 0, info_timer = None \<rparr>"

record pending_queue =
  pending :: u64
  rt_queue :: "rt_sig_entry list"

text \<open>\<open>invalid_signal\<close> is the guard every operation starts with.\<close>

definition invalid_signal :: "nat \<Rightarrow> bool" where
  "invalid_signal n \<longleftrightarrow> n = 0 \<or> n \<ge> NSIG"

definition queued :: "rt_sig_entry list \<Rightarrow> nat \<Rightarrow> bool" where
  "queued q n = list_ex (\<lambda>e. signum e = n) q"

text \<open>\<open>queue.iter().position(..)\<close> followed by \<open>queue.remove(pos)\<close>.\<close>

fun remove_first :: "('a \<Rightarrow> bool) \<Rightarrow> 'a list \<Rightarrow> ('a \<times> 'a list) option" where
  "remove_first P [] = None"
| "remove_first P (x # xs) =
     (if P x then Some (x, xs)
      else (case remove_first P xs of None \<Rightarrow> None | Some (y, ys) \<Rightarrow> Some (y, x # ys)))"

definition consume_pending_info ::
  "('a pending_queue_scheme) \<Rightarrow> nat \<Rightarrow> ('a pending_queue_scheme) \<times> pending_signal_info" where
  "consume_pending_info s n =
     (if invalid_signal n then (s, pending_signal_info_default)
      else
        (let (q, info) =
           (case remove_first (\<lambda>e. signum e = n) (rt_queue s) of
              Some (e, q) \<Rightarrow>
                (q, \<lparr> info_value = si_value e, info_code = si_code e, info_timer = timer_id e \<rparr>)
            | None \<Rightarrow> (rt_queue s, pending_signal_info_default));
           p = (if \<not> queued q n then pending s AND NOT (sig_bit n) else pending s)
         in (s\<lparr> pending := p, rt_queue := q \<rparr>, info)))"

definition remove_timer_info ::
  "('a pending_queue_scheme) \<Rightarrow> nat \<Rightarrow> ('a pending_queue_scheme) \<times> bool" where
  "remove_timer_info s tid =
     (case List.find (\<lambda>e. timer_id e = Some tid) (rt_queue s) of
        None \<Rightarrow> (s, False)
      | Some e \<Rightarrow>
          (let q = filter (\<lambda>e. timer_id e \<noteq> Some tid) (rt_queue s);
             p = (if \<not> queued q (signum e) then pending s AND NOT (sig_bit (signum e))
                  else pending s)
           in (s\<lparr> pending := p, rt_queue := q \<rparr>, True)))"

text \<open>The update in place of the first entry that satisfies a predicate.\<close>

fun update_first :: "('a \<Rightarrow> bool) \<Rightarrow> ('a \<Rightarrow> 'a) \<Rightarrow> 'a list \<Rightarrow> 'a list option" where
  "update_first P f [] = None"
| "update_first P f (x # xs) =
     (if P x then Some (f x # xs) else map_option ((#) x) (update_first P f xs))"

definition overwrite_info :: "int \<Rightarrow> int \<Rightarrow> rt_sig_entry \<Rightarrow> rt_sig_entry" where
  "overwrite_info val code e =
     (if code \<noteq> 0 then e\<lparr> si_value := val, si_code := code \<rparr> else e)"

definition raise_queued ::
  "('a pending_queue_scheme) \<Rightarrow> nat \<Rightarrow> int \<Rightarrow> int \<Rightarrow> 'a pending_queue_scheme" where
  "raise_queued s n val code =
     (let fresh = \<lparr> signum = n, si_value = val, si_code = code, timer_id = None \<rparr>;
        q = (if n \<ge> SIGRTMIN then rt_queue s @ [fresh]
             else
               (case update_first (\<lambda>e. signum e = n \<and> timer_id e = None)
                       (overwrite_info val code) (rt_queue s) of
                  Some q \<Rightarrow> q
                | None \<Rightarrow> rt_queue s @ [fresh]))
      in s\<lparr> pending := pending s OR sig_bit n, rt_queue := q \<rparr>)"

definition raise_timer ::
  "('a pending_queue_scheme) \<Rightarrow> nat \<Rightarrow> int \<Rightarrow> nat \<Rightarrow> ('a pending_queue_scheme) \<times> bool" where
  "raise_timer s n val tid =
     (if invalid_signal n then (s, False)
      else
        (let q = (if n < SIGRTMIN \<and> (pending s AND sig_bit n) \<noteq> 0 \<and> \<not> queued (rt_queue s) n
                  then rt_queue s @ [\<lparr> signum = n, si_value = 0, si_code = 0, timer_id = None \<rparr>]
                  else rt_queue s)
         in (s\<lparr> pending := pending s OR sig_bit n,
                rt_queue := q @ [\<lparr> signum = n, si_value = val, si_code = - 2,
                                   timer_id = Some tid \<rparr>] \<rparr>, True)))"

definition clear_pending :: "('a pending_queue_scheme) \<Rightarrow> nat \<Rightarrow> 'a pending_queue_scheme" where
  "clear_pending s n =
     (if 0 < n \<and> n < NSIG
      then s\<lparr> pending := pending s AND NOT (sig_bit n),
              rt_queue := filter (\<lambda>e. signum e \<noteq> n) (rt_queue s) \<rparr>
      else s)"

definition is_pending :: "('a pending_queue_scheme) \<Rightarrow> nat \<Rightarrow> bool" where
  "is_pending s n \<longleftrightarrow> n > 0 \<and> n < NSIG \<and> (pending s AND sig_bit n) \<noteq> 0"

definition pending_timer_ids :: "('a pending_queue_scheme) \<Rightarrow> nat \<Rightarrow> nat list" where
  "pending_timer_ids s n = List.map_filter timer_id (filter (\<lambda>e. signum e = n) (rt_queue s))"

text \<open>\<open>u64::trailing_zeros\<close>: the number of the lowest bit set, 64 for zero.\<close>

definition trailing_zeros :: "u64 \<Rightarrow> nat" where
  "trailing_zeros w = (case List.find (bit w) [0..<64] of Some i \<Rightarrow> i | None \<Rightarrow> 64)"

section \<open>Per-thread signal state\<close>

record per_thread_signal_state = pending_queue +
  thread_blocked :: u64
  sigsuspend_saved_mask :: "u64 option"

definition per_thread_signal_state_new :: per_thread_signal_state where
  "per_thread_signal_state_new =
     \<lparr> pending = 0, rt_queue = [], thread_blocked = 0, sigsuspend_saved_mask = None \<rparr>"

definition thread_raise_internal ::
  "per_thread_signal_state \<Rightarrow> nat \<Rightarrow> int \<Rightarrow> int \<Rightarrow> per_thread_signal_state \<times> bool" where
  "thread_raise_internal s n val code =
     (if invalid_signal n then (s, False) else (raise_queued s n val code, True))"

definition thread_raise :: "per_thread_signal_state \<Rightarrow> nat \<Rightarrow> per_thread_signal_state \<times> bool" where
  "thread_raise s n = thread_raise_internal s n 0 0"

definition thread_raise_with_value ::
  "per_thread_signal_state \<Rightarrow> nat \<Rightarrow> int \<Rightarrow> per_thread_signal_state \<times> bool" where
  "thread_raise_with_value s n val = thread_raise_internal s n val (- 1)"

definition thread_consume_one ::
  "per_thread_signal_state \<Rightarrow> nat \<Rightarrow> per_thread_signal_state \<times> (int \<times> int) option" where
  "thread_consume_one s n =
     (if n = 0 \<or> n \<ge> NSIG \<or> (pending s AND sig_bit n) = 0 then (s, None)
      else (let (s', info) = consume_pending_info s n
            in (s', Some (info_value info, info_code info))))"

definition thread_is_blocked :: "per_thread_signal_state \<Rightarrow> nat \<Rightarrow> bool" where
  "thread_is_blocked s n = (if n \<ge> NSIG then False else (thread_blocked s AND sig_bit n) \<noteq> 0)"

definition thread_dequeue ::
  "per_thread_signal_state \<Rightarrow> per_thread_signal_state \<times> (nat \<times> int \<times> int) option" where
  "thread_dequeue s =
     (let deliverable = pending s AND NOT (thread_blocked s)
      in if deliverable = 0 then (s, None)
         else
           (let n = trailing_zeros deliverable + 1
            in if n \<ge> NSIG then (s, None)
               else (case thread_consume_one s n of
                       (s', None) \<Rightarrow> (s', None)
                     | (s', Some (val, code)) \<Rightarrow> (s', Some (n, val, code)))))"

section \<open>Process-wide signal state\<close>

record signal_state = pending_queue +
  actions :: "signal_action list"
  blocked :: u64

definition signal_state_new :: signal_state where
  "signal_state_new =
     \<lparr> pending = 0, rt_queue = [], actions = replicate 65 signal_action_default, blocked = 0 \<rparr>"

definition get_action :: "signal_state \<Rightarrow> nat \<Rightarrow> signal_action" where
  "get_action s n = (if n = 0 \<or> n \<ge> 65 then signal_action_default else actions s ! n)"

definition get_handler :: "signal_state \<Rightarrow> nat \<Rightarrow> signal_handler" where
  "get_handler s n = (if n = 0 \<or> n \<ge> 65 then Default else handler (actions s ! n))"

text \<open>The error of \<open>set_handler\<close> and \<open>set_action\<close> carries nothing; it is \<open>None\<close>.\<close>

definition set_handler ::
  "signal_state \<Rightarrow> nat \<Rightarrow> signal_handler \<Rightarrow> signal_state \<times> signal_handler option" where
  "set_handler s n h =
     (if n = 0 \<or> n \<ge> 65 then (s, None)
      else if n = SIGKILL \<or> n = SIGSTOP then (s, None)
      else
        (let old = handler (actions s ! n);
           s1 = s\<lparr> actions := (actions s)[n := (actions s ! n)\<lparr> handler := h \<rparr>] \<rparr>
         in (if should_discard_pending n h then clear_pending s1 n else s1, Some old)))"

definition set_action ::
  "signal_state \<Rightarrow> nat \<Rightarrow> signal_action \<Rightarrow> signal_state \<times> signal_action option" where
  "set_action s n a =
     (if n = 0 \<or> n \<ge> 65 then (s, None)
      else if n = SIGKILL \<or> n = SIGSTOP then (s, None)
      else
        (let old = actions s ! n; s1 = s\<lparr> actions := (actions s)[n := a] \<rparr>
         in (if should_discard_pending n (handler a) then clear_pending s1 n else s1, Some old)))"

definition exec_action :: "signal_action \<Rightarrow> signal_action" where
  "exec_action a =
     \<lparr> handler = (if handler a = Ignore then Ignore else Default), sa_flags = 0, sa_mask = 0 \<rparr>"

definition reset_dispositions_for_exec :: "signal_state \<Rightarrow> signal_state" where
  "reset_dispositions_for_exec s =
     s\<lparr> actions := take 1 (actions s) @ map exec_action (drop 1 (actions s)) \<rparr>"

definition raise_internal ::
  "signal_state \<Rightarrow> nat \<Rightarrow> int \<Rightarrow> int \<Rightarrow> signal_state \<times> bool" where
  "raise_internal s n val code =
     (if n = 0 \<or> n \<ge> 65 then (s, False)
      else if should_discard_pending n (handler (actions s ! n)) then (s, True)
      else (raise_queued s n val code, True))"

definition raise :: "signal_state \<Rightarrow> nat \<Rightarrow> signal_state \<times> bool" where
  "raise s n = raise_internal s n 0 0"

definition raise_with_value :: "signal_state \<Rightarrow> nat \<Rightarrow> int \<Rightarrow> signal_state \<times> bool" where
  "raise_with_value s n val = raise_internal s n val (- 1)"

definition is_blocked :: "signal_state \<Rightarrow> nat \<Rightarrow> bool" where
  "is_blocked s n = (if n \<ge> 65 then False else (blocked s AND sig_bit n) \<noteq> 0)"

definition deliverable :: "signal_state \<Rightarrow> u64" where
  "deliverable s = pending s AND NOT (blocked s)"

definition peek_deliverable :: "signal_state \<Rightarrow> nat option" where
  "peek_deliverable s =
     (let d = pending s AND NOT (blocked s)
      in if d = 0 then None
         else (let n = trailing_zeros d + 1 in if n \<ge> 65 then None else Some n))"

definition dequeue :: "signal_state \<Rightarrow> signal_state \<times> (nat \<times> int \<times> int) option" where
  "dequeue s =
     (let d = pending s AND NOT (blocked s)
      in if d = 0 then (s, None)
         else
           (let n = trailing_zeros d + 1; (s', info) = consume_pending_info s n
            in (s', Some (n, info_value info, info_code info))))"

definition should_restart :: "signal_state \<Rightarrow> bool" where
  "should_restart s =
     (let d = pending s AND NOT (blocked s)
      in if d = 0 then False
         else
           (let n = trailing_zeros d + 1
            in if n \<ge> 65 then False else (sa_flags (actions s ! n) AND SA_RESTART) \<noteq> 0))"

definition from_parts :: "signal_handler list \<Rightarrow> u64 \<Rightarrow> signal_state" where
  "from_parts hs bl =
     \<lparr> pending = 0, rt_queue = [],
       actions = map (\<lambda>h. signal_action_default\<lparr> handler := h \<rparr>) hs, blocked = bl \<rparr>"

definition from_actions :: "signal_action list \<Rightarrow> u64 \<Rightarrow> signal_state" where
  "from_actions as bl = \<lparr> pending = 0, rt_queue = [], actions = as, blocked = bl \<rparr>"

definition from_parts_with_pending :: "signal_handler list \<Rightarrow> u64 \<Rightarrow> u64 \<Rightarrow> signal_state" where
  "from_parts_with_pending hs bl pend =
     \<lparr> pending = pend,
       rt_queue =
         map (\<lambda>n. \<lparr> signum = n, si_value = 0, si_code = 0, timer_id = None \<rparr>)
           (filter (\<lambda>n. (pend AND sig_bit n) \<noteq> 0) [1..<65]),
       actions = map (\<lambda>h. signal_action_default\<lparr> handler := h \<rparr>) hs, blocked = bl \<rparr>"

definition handlers_of :: "signal_state \<Rightarrow> signal_handler list" where
  "handlers_of s = map handler (actions s)"

section \<open>Lemmas\<close>

subsection \<open>Bits of a pending set\<close>

lemma bit_sig_bit: "bit (sig_bit n) i \<longleftrightarrow> \<not> invalid_signal n \<and> n = Suc i"
  by (auto simp: sig_bit_def invalid_signal_def NSIG_def bit_exp_iff)

lemma and_sig_bit: "(w AND sig_bit n) \<noteq> 0 \<longleftrightarrow> \<not> invalid_signal n \<and> bit w (n - 1)"
proof
  assume "(w AND sig_bit n) \<noteq> 0"
  then obtain i where "bit (w AND sig_bit n) i" using bit_eqI [of "w AND sig_bit n" 0] by auto
  then show "\<not> invalid_signal n \<and> bit w (n - 1)" by (auto simp: bit_and_iff bit_sig_bit)
next
  assume "\<not> invalid_signal n \<and> bit w (n - 1)"
  then have "bit (w AND sig_bit n) (n - 1)"
    by (auto simp: bit_and_iff bit_sig_bit invalid_signal_def)
  then show "(w AND sig_bit n) \<noteq> 0" by auto
qed

lemma bit_clear_sig:
  "bit (w AND NOT (sig_bit n)) i \<longleftrightarrow> bit w i \<and> (invalid_signal n \<or> n \<noteq> Suc i)" for w :: u64
  by (auto simp: bit_and_iff bit_not_iff bit_sig_bit dest: bit_imp_le_length)

lemma bit_set_sig:
  "bit (w OR sig_bit n) i \<longleftrightarrow> bit w i \<or> (\<not> invalid_signal n \<and> n = Suc i)" for w :: u64
  by (auto simp: bit_or_iff bit_sig_bit)

lemmas sig_bits = bit_sig_bit bit_clear_sig bit_set_sig

lemma trailing_zeros_lowest:
  assumes "w \<noteq> 0"
  shows "trailing_zeros w < 64" "bit w (trailing_zeros w)" "i < trailing_zeros w \<Longrightarrow> \<not> bit w i"
proof -
  from assms obtain j where j: "bit w j" using bit_eqI [of w 0] by auto
  then have "j < 64" using bit_imp_le_length by fastforce
  with j obtain k where k: "List.find (bit w) [0..<64] = Some k"
    by (cases "List.find (bit w) [0..<64]") (auto simp: find_upt_None)
  then have "trailing_zeros w = k" by (simp add: trailing_zeros_def)
  with k show "trailing_zeros w < 64" "bit w (trailing_zeros w)"
    "i < trailing_zeros w \<Longrightarrow> \<not> bit w i"
    by (auto simp: find_upt_Some)
qed

subsection \<open>Instances of one signal\<close>

text \<open>
  What the queue holds for one signal number, oldest first: the abstract state of a pending
  queue is one such list for each signal.
\<close>

definition instances :: "('a pending_queue_scheme) \<Rightarrow> nat \<Rightarrow> rt_sig_entry list" where
  "instances s n = filter (\<lambda>e. signum e = n) (rt_queue s)"

definition entry_info :: "rt_sig_entry \<Rightarrow> pending_signal_info" where
  "entry_info e = \<lparr> info_value = si_value e, info_code = si_code e, info_timer = timer_id e \<rparr>"

lemma in_instances: "e \<in> set (instances s n) \<longleftrightarrow> e \<in> set (rt_queue s) \<and> signum e = n"
  by (auto simp: instances_def)

lemma queued_instances: "queued (rt_queue s) n \<longleftrightarrow> instances s n \<noteq> []"
  by (auto simp: queued_def instances_def list_ex_iff filter_empty_conv)

lemma queued_iff: "queued q n \<longleftrightarrow> n \<in> signum ` set q"
  by (auto simp: queued_def list_ex_iff)

lemma remove_first_None: "remove_first P xs = None \<longleftrightarrow> filter P xs = []"
  by (induction xs) (auto split: option.splits)

lemma remove_first_Some:
  "remove_first P xs = Some (y, ys) \<Longrightarrow>
     P y \<and> y \<in> set xs \<and> set ys \<subseteq> set xs \<and> length xs = Suc (length ys) \<and> filter P xs = y # filter P ys"
  by (induction xs arbitrary: ys) (auto split: if_splits option.splits)

lemma remove_first_mset: "remove_first P xs = Some (y, ys) \<Longrightarrow> mset xs = add_mset y (mset ys)"
  by (induction xs arbitrary: ys) (auto split: if_splits option.splits)

lemma remove_first_filter_other:
  "remove_first P xs = Some (y, ys) \<Longrightarrow> \<not> Q y \<Longrightarrow> filter Q ys = filter Q xs"
  by (induction xs arbitrary: ys) (auto split: if_splits option.splits)

lemma remove_first_filter_length:
  "remove_first P xs = Some (y, ys) \<Longrightarrow> length (filter Q ys) \<le> length (filter Q xs)"
  by (induction xs arbitrary: ys) (fastforce split: if_splits option.splits)+

lemma update_first_None: "update_first P f xs = None \<longleftrightarrow> filter P xs = []"
  by (induction xs) auto

lemma update_first_map:
  assumes "update_first P f xs = Some ys" and "\<And>x. P x \<Longrightarrow> g (f x) = g x"
  shows "map g ys = map g xs"
  using assms by (induction xs arbitrary: ys) (auto split: if_splits)

lemma update_first_filter_other:
  assumes "update_first P f xs = Some ys" and "\<And>x. P x \<Longrightarrow> \<not> Q x \<and> \<not> Q (f x)"
  shows "filter Q ys = filter Q xs"
  using assms by (induction xs arbitrary: ys) (auto split: if_splits)

lemma update_first_filter_same:
  assumes "update_first P f xs = Some ys" and "\<And>x. P x \<Longrightarrow> Q x \<and> Q (f x)"
  shows "update_first P f (filter Q xs) = Some (filter Q ys)"
  using assms by (induction xs arbitrary: ys) (auto split: if_splits)

subsection \<open>The pending bit says exactly whether an instance is queued\<close>

definition pending_wf :: "('a pending_queue_scheme) \<Rightarrow> bool" where
  "pending_wf s \<longleftrightarrow>
     (\<forall>e \<in> set (rt_queue s). \<not> invalid_signal (signum e)) \<and>
     (\<forall>n. \<not> invalid_signal n \<longrightarrow> (bit (pending s) (n - 1) \<longleftrightarrow> instances s n \<noteq> [])) \<and>
     (\<forall>n < SIGRTMIN. length (filter (\<lambda>e. timer_id e = None) (instances s n)) \<le> 1)"

lemma pending_wfD:
  assumes "pending_wf s"
  shows "e \<in> set (rt_queue s) \<Longrightarrow> \<not> invalid_signal (signum e)"
    and "\<not> invalid_signal n \<Longrightarrow> bit (pending s) (n - 1) \<longleftrightarrow> instances s n \<noteq> []"
    and "n < SIGRTMIN \<Longrightarrow> length (filter (\<lambda>e. timer_id e = None) (instances s n)) \<le> 1"
  using assms by (auto simp: pending_wf_def)

lemma pending_wf_test:
  "pending_wf s \<Longrightarrow> (pending s AND sig_bit n) \<noteq> 0 \<longleftrightarrow> instances s n \<noteq> []"
proof -
  assume wf: "pending_wf s"
  show ?thesis
  proof (cases "invalid_signal n")
    case True
    then have "instances s n = []"
      using pending_wfD(1) [OF wf] by (auto simp: instances_def filter_empty_conv)
    with True show ?thesis by (simp add: and_sig_bit)
  next
    case False
    then show ?thesis using pending_wfD(2) [OF wf False] by (simp add: and_sig_bit)
  qed
qed

lemma is_pending_instances: "pending_wf s \<Longrightarrow> is_pending s n \<longleftrightarrow> instances s n \<noteq> []"
  using pending_wf_test [of s n] by (auto simp: is_pending_def and_sig_bit invalid_signal_def)

lemma pending_wf_empty: "rt_queue s = [] \<Longrightarrow> pending s = 0 \<Longrightarrow> pending_wf s"
  by (simp add: pending_wf_def instances_def)

text \<open>
  The three ways the queue changes: an instance of one signal is taken out, added or
  rewritten, everything else staying.  \<open>pending_wf_replace\<close> covers them all.
\<close>

lemma pending_wf_replace:
  assumes wf: "pending_wf s" and n: "\<not> invalid_signal n"
    and other: "\<And>m. m \<noteq> n \<Longrightarrow> instances s' m = instances s m"
    and bits: "\<And>i. bit (pending s') i \<longleftrightarrow> (if i = n - 1 then instances s' n \<noteq> [] else bit (pending s) i)"
    and single: "n < SIGRTMIN \<Longrightarrow> length (filter (\<lambda>e. timer_id e = None) (instances s' n)) \<le> 1"
  shows "pending_wf s'"
  unfolding pending_wf_def
proof (intro conjI ballI allI impI)
  fix e assume "e \<in> set (rt_queue s')"
  then have "e \<in> set (instances s' (signum e))" by (simp add: in_instances)
  then have "signum e \<noteq> n \<Longrightarrow> e \<in> set (rt_queue s)"
    using other [of "signum e"] by (metis in_instances)
  then show "\<not> invalid_signal (signum e)"
    using pending_wfD(1) [OF wf, of e] n by (cases "signum e = n") simp_all
next
  fix m assume m: "\<not> invalid_signal m"
  then have "m - 1 = n - 1 \<longleftrightarrow> m = n" using n by (auto simp: invalid_signal_def)
  then show "bit (pending s') (m - 1) \<longleftrightarrow> instances s' m \<noteq> []"
    using bits [of "m - 1"] other [of m] pending_wfD(2) [OF wf m] by (cases "m = n") simp_all
next
  fix m assume "m < SIGRTMIN"
  then show "length (filter (\<lambda>e. timer_id e = None) (instances s' m)) \<le> 1"
    using other [of m] single pending_wfD(3) [OF wf] by (cases "m = n") simp_all
qed

lemma consume_parts:
  assumes n: "\<not> invalid_signal n" and c: "consume_pending_info s n = (s', info)"
  shows "pending s' = (if instances s' n = [] then pending s AND NOT (sig_bit n) else pending s)"
    and "remove_first (\<lambda>e. signum e = n) (rt_queue s) = None \<Longrightarrow>
      rt_queue s' = rt_queue s \<and> info = pending_signal_info_default"
    and "remove_first (\<lambda>e. signum e = n) (rt_queue s) = Some (y, q) \<Longrightarrow>
      rt_queue s' = q \<and> info = entry_info y"
  using n c queued_instances [of s' n]
  by (auto simp: consume_pending_info_def entry_info_def Let_def split: option.splits prod.splits)

lemma consume_instances:
  assumes n: "\<not> invalid_signal n" and c: "consume_pending_info s n = (s', info)"
  shows "instances s' n = tl (instances s n)" and "m \<noteq> n \<Longrightarrow> instances s' m = instances s m"
    and "info = (case instances s n of [] \<Rightarrow> pending_signal_info_default | e # _ \<Rightarrow> entry_info e)"
    and "bit (pending s') i \<longleftrightarrow> bit (pending s) i \<and> (i = n - 1 \<longrightarrow> instances s' n \<noteq> [])"
    and "mset (rt_queue s) = mset (take 1 (instances s n)) + mset (rt_queue s')"
proof -
  let ?r = "remove_first (\<lambda>e. signum e = n) (rt_queue s)"
  have "n = Suc i \<longleftrightarrow> i = n - 1" using n by (auto simp: invalid_signal_def)
  then show "bit (pending s') i \<longleftrightarrow> bit (pending s) i \<and> (i = n - 1 \<longrightarrow> instances s' n \<noteq> [])"
    using consume_parts(1) [OF n c] n by (auto simp: bit_clear_sig)
  have none: "rt_queue s' = rt_queue s \<and> info = pending_signal_info_default \<and> instances s n = []"
    if "?r = None"
    using that consume_parts(2) [OF n c] by (auto simp: remove_first_None instances_def)
  have some: "rt_queue s' = q \<and> info = entry_info y \<and> instances s n = y # instances s' n"
    if "?r = Some (y, q)" for y q
    using that consume_parts(3) [OF n c that] remove_first_Some [OF that]
    by (simp add: instances_def)
  show "instances s' n = tl (instances s n)"
  proof (cases ?r)
    case None
    with none [OF None] show ?thesis by (simp add: instances_def)
  next
    case (Some yq)
    with some [of "fst yq" "snd yq"] show ?thesis by simp
  qed
  show "info = (case instances s n of [] \<Rightarrow> pending_signal_info_default | e # _ \<Rightarrow> entry_info e)"
  proof (cases ?r)
    case None
    with none [OF None] show ?thesis by simp
  next
    case (Some yq)
    with some [of "fst yq" "snd yq"] show ?thesis by simp
  qed
  show "instances s' m = instances s m" if "m \<noteq> n"
  proof (cases ?r)
    case None
    with none [OF None] show ?thesis by (simp add: instances_def)
  next
    case (Some yq)
    then have r: "?r = Some (fst yq, snd yq)" by simp
    have "\<not> signum (fst yq) = m" using remove_first_Some [OF r] that by blast
    then have "filter (\<lambda>e. signum e = m) (snd yq) = instances s m"
      unfolding instances_def by (rule remove_first_filter_other [OF r])
    moreover have "rt_queue s' = snd yq" using some [OF r] by blast
    ultimately show ?thesis by (simp only: instances_def)
  qed
  show "mset (rt_queue s) = mset (take 1 (instances s n)) + mset (rt_queue s')"
  proof (cases ?r)
    case None
    with none [OF None] show ?thesis by simp
  next
    case (Some yq)
    then have r: "?r = Some (fst yq, snd yq)" by simp
    have "rt_queue s' = snd yq" "take 1 (instances s n) = [fst yq]" using some [OF r] by simp_all
    then show ?thesis using remove_first_mset [OF r] by simp
  qed
qed

lemma consume_wf:
  assumes "pending_wf s" "consume_pending_info s n = (s', info)"
  shows "pending_wf s'"
proof (cases "invalid_signal n")
  case True
  with assms show ?thesis by (auto simp: consume_pending_info_def)
next
  case False
  note ci = consume_instances [OF False assms(2)]
  show ?thesis
  proof (rule pending_wf_replace [OF assms(1) False])
    fix m assume "m \<noteq> n" then show "instances s' m = instances s m" by (rule ci(2))
  next
    fix i
    show "bit (pending s') i \<longleftrightarrow> (if i = n - 1 then instances s' n \<noteq> [] else bit (pending s) i)"
      using ci(1) ci(4) [of i] pending_wfD(2) [OF assms(1) False] by (cases "instances s n") auto
  next
    assume "n < SIGRTMIN"
    then show "length (filter (\<lambda>e. timer_id e = None) (instances s' n)) \<le> 1"
      using pending_wfD(3) [OF assms(1), of n] ci(1) by (cases "instances s n") (auto split: if_splits)
  qed
qed

lemma clear_pending_instances:
  "instances (clear_pending s n) m = (if m = n \<and> \<not> invalid_signal n then [] else instances s m)"
  "bit (pending (clear_pending s n)) i \<longleftrightarrow> bit (pending s) i \<and> (invalid_signal n \<or> n \<noteq> Suc i)"
  by (auto simp: clear_pending_def instances_def invalid_signal_def bit_clear_sig
      filter_empty_conv intro!: filter_cong)

lemma clear_pending_wf: "pending_wf s \<Longrightarrow> pending_wf (clear_pending s n)"
proof (cases "invalid_signal n")
  case True
  then have "clear_pending s n = s" by (auto simp: clear_pending_def invalid_signal_def)
  then show "pending_wf s \<Longrightarrow> ?thesis" by simp
next
  case False
  assume "pending_wf s"
  then show ?thesis
    by (rule pending_wf_replace [OF _ False])
      (use False in \<open>auto simp: clear_pending_instances invalid_signal_def\<close>)
qed

subsection \<open>Raising\<close>

definition plain_instances :: "('a pending_queue_scheme) \<Rightarrow> nat \<Rightarrow> rt_sig_entry list" where
  "plain_instances s n = filter (\<lambda>e. timer_id e = None) (instances s n)"

definition timer_instances :: "('a pending_queue_scheme) \<Rightarrow> nat \<Rightarrow> rt_sig_entry list" where
  "timer_instances s n = filter (\<lambda>e. timer_id e \<noteq> None) (instances s n)"

definition plain_entry :: "nat \<Rightarrow> int \<Rightarrow> int \<Rightarrow> rt_sig_entry" where
  "plain_entry n val code = \<lparr> signum = n, si_value = val, si_code = code, timer_id = None \<rparr>"

lemma overwrite_info_keeps [simp]:
  "signum (overwrite_info val code e) = signum e" "timer_id (overwrite_info val code e) = timer_id e"
  by (simp_all add: overwrite_info_def)

lemma plain_as_filter:
  "plain_instances s n = filter (\<lambda>e. signum e = n \<and> timer_id e = None) (rt_queue s)"
  by (simp add: plain_instances_def instances_def conj_commute)

lemma timer_as_filter:
  "timer_instances s n = filter (\<lambda>e. signum e = n \<and> timer_id e \<noteq> None) (rt_queue s)"
  by (simp add: timer_instances_def instances_def conj_commute)

lemma plain_at_most_one:
  "pending_wf s \<Longrightarrow> n < SIGRTMIN \<Longrightarrow> plain_instances s n = [] \<or> (\<exists>e. plain_instances s n = [e])"
  using pending_wfD(3) [of s n] by (cases "plain_instances s n") (auto simp: plain_instances_def)

lemma update_first_single:
  "filter P xs = [e] \<Longrightarrow> P (f e) \<Longrightarrow> update_first P f xs = Some ys \<Longrightarrow> filter P ys = [f e]"
  by (induction xs arbitrary: ys) (auto split: if_splits simp: filter_empty_conv)

lemma raise_queued_other: "m \<noteq> n \<Longrightarrow> instances (raise_queued s n val code) m = instances s m"
  by (auto simp: raise_queued_def instances_def Let_def split: option.splits
      intro!: update_first_filter_other)

lemma raise_queued_timers: "timer_instances (raise_queued s n val code) m = timer_instances s m"
  by (auto simp: raise_queued_def timer_as_filter Let_def split: option.splits
      intro!: update_first_filter_other)

lemma raise_queued_rt:
  "n \<ge> SIGRTMIN \<Longrightarrow> instances (raise_queued s n val code) n = instances s n @ [plain_entry n val code]"
  by (simp add: raise_queued_def instances_def plain_entry_def)

lemma raise_queued_plain:
  assumes wf: "pending_wf s" and n: "n < SIGRTMIN"
  shows "plain_instances (raise_queued s n val code) n =
    [if plain_instances s n = [] then plain_entry n val code
     else if code \<noteq> 0 then plain_entry n val code else hd (plain_instances s n)]"
proof -
  let ?P = "\<lambda>e. signum e = n \<and> timer_id e = None"
  let ?f = "overwrite_info val code"
  show ?thesis
  proof (cases "update_first ?P ?f (rt_queue s)")
    case None
    then have "plain_instances s n = []" by (simp add: update_first_None plain_as_filter)
    with None n show ?thesis
      by (simp add: raise_queued_def plain_as_filter plain_entry_def Let_def)
  next
    case (Some q)
    then have "plain_instances s n \<noteq> []"
      using update_first_None [of ?P ?f "rt_queue s"] by (simp add: plain_as_filter)
    then obtain e where e: "plain_instances s n = [e]" using plain_at_most_one [OF wf n] by auto
    then have "e \<in> set (plain_instances s n)" by simp
    then have P: "?P e" by (simp add: plain_as_filter)
    have "filter ?P q = [?f e]"
      using update_first_single [of ?P "rt_queue s" e ?f q] e P Some by (simp add: plain_as_filter)
    moreover have "rt_queue (raise_queued s n val code) = q"
      using Some n by (simp add: raise_queued_def Let_def)
    ultimately show ?thesis using e P
      by (cases e) (simp add: plain_as_filter plain_entry_def overwrite_info_def)
  qed
qed

lemma raise_queued_nonempty: "instances (raise_queued s n val code) n \<noteq> []"
proof (cases "update_first (\<lambda>e. signum e = n \<and> timer_id e = None)
      (overwrite_info val code) (rt_queue s)")
  case None
  then show ?thesis by (simp add: raise_queued_def instances_def Let_def)
next
  case (Some q)
  then have "map signum q = map signum (rt_queue s)" by (rule update_first_map) simp
  then have "set (map signum q) = set (map signum (rt_queue s))" by (rule arg_cong)
  moreover have "filter (\<lambda>e. signum e = n \<and> timer_id e = None) (rt_queue s) \<noteq> []"
    using Some update_first_None by (metis option.distinct(1))
  then have "n \<in> signum ` set (rt_queue s)" by (auto simp: filter_empty_conv)
  ultimately have "queued q n" by (simp add: queued_iff)
  then show ?thesis using Some queued_instances [of "raise_queued s n val code" n]
    by (auto simp: raise_queued_def instances_def Let_def)
qed

lemma raise_queued_wf:
  assumes wf: "pending_wf s" and n: "\<not> invalid_signal n"
  shows "pending_wf (raise_queued s n val code)"
proof (rule pending_wf_replace [OF wf n])
  fix i
  have "pending (raise_queued s n val code) = pending s OR sig_bit n"
    by (simp add: raise_queued_def Let_def)
  then show "bit (pending (raise_queued s n val code)) i \<longleftrightarrow>
     (if i = n - 1 then instances (raise_queued s n val code) n \<noteq> [] else bit (pending s) i)"
    using n raise_queued_nonempty by (auto simp: bit_set_sig invalid_signal_def)
next
  assume "n < SIGRTMIN"
  then show "length (filter (\<lambda>e. timer_id e = None) (instances (raise_queued s n val code) n)) \<le> 1"
    using raise_queued_plain [OF wf] by (simp add: plain_instances_def)
qed (rule raise_queued_other)

lemma raise_timer_instances:
  assumes wf: "pending_wf s" and n: "\<not> invalid_signal n"
  shows "snd (raise_timer s n val t)"
    and "rt_queue (fst (raise_timer s n val t)) =
      rt_queue s @ [\<lparr> signum = n, si_value = val, si_code = - 2, timer_id = Some t \<rparr>]"
    and "pending (fst (raise_timer s n val t)) = pending s OR sig_bit n"
  using n pending_wf_test [OF wf, of n]
  by (auto simp: raise_timer_def Let_def queued_instances)

lemma raise_timer_wf:
  assumes wf: "pending_wf s"
  shows "pending_wf (fst (raise_timer s n val t))"
proof (cases "invalid_signal n")
  case True
  with wf show ?thesis by (simp add: raise_timer_def)
next
  case n: False
  note rt = raise_timer_instances [OF wf n, of val t]
  show ?thesis
    by (rule pending_wf_replace [OF wf n])
      (use rt n pending_wfD(3) [OF wf, of n] in
        \<open>auto simp: instances_def bit_set_sig invalid_signal_def\<close>)
qed

text \<open>
  Removing a timer's notification clears the pending bit of one signal only; that is right as
  long as a timer has instances of one signal only.
\<close>

lemma length_filter3:
  "length (filter P (filter Q (filter R xs))) \<le> length (filter P (filter Q xs))"
  by (induction xs) auto

lemma remove_timer_wf:
  assumes wf: "pending_wf s"
    and same: "\<And>e e'. e \<in> set (rt_queue s) \<Longrightarrow> e' \<in> set (rt_queue s) \<Longrightarrow>
      timer_id e = Some t \<Longrightarrow> timer_id e' = Some t \<Longrightarrow> signum e = signum e'"
  shows "pending_wf (fst (remove_timer_info s t))"
    and "rt_queue (fst (remove_timer_info s t)) =
      filter (\<lambda>e. timer_id e \<noteq> Some t) (rt_queue s)"
    and "snd (remove_timer_info s t) \<longleftrightarrow> (\<exists>e \<in> set (rt_queue s). timer_id e = Some t)"
proof -
  let ?keep = "\<lambda>e. timer_id e \<noteq> Some t"
  show "rt_queue (fst (remove_timer_info s t)) = filter ?keep (rt_queue s)"
    "snd (remove_timer_info s t) \<longleftrightarrow> (\<exists>e \<in> set (rt_queue s). timer_id e = Some t)"
    by (auto simp: remove_timer_info_def Let_def find_None_iff find_Some_iff split: option.splits)
  show "pending_wf (fst (remove_timer_info s t))"
  proof (cases "List.find (\<lambda>e. timer_id e = Some t) (rt_queue s)")
    case None
    then show ?thesis using wf by (simp add: remove_timer_info_def)
  next
    case (Some e)
    then have e: "e \<in> set (rt_queue s)" "timer_id e = Some t"
      by (auto simp: find_Some_iff)
    let ?s' = "fst (remove_timer_info s t)" and ?n = "signum e"
    have q: "rt_queue ?s' = filter ?keep (rt_queue s)"
      using Some by (simp add: remove_timer_info_def Let_def)
    have p: "pending ?s' = (if instances ?s' ?n = [] then pending s AND NOT (sig_bit ?n) else pending s)"
      using Some queued_instances [of ?s' ?n] by (auto simp: remove_timer_info_def Let_def)
    have n: "\<not> invalid_signal ?n" using pending_wfD(1) [OF wf e(1)] .
    have "e \<in> set (instances s ?n)" using e by (simp add: in_instances)
    then have "instances s ?n \<noteq> []" by (metis empty_iff empty_set)
    then have bit_n: "bit (pending s) (?n - 1)" using pending_wfD(2) [OF wf n] by blast
    show ?thesis
    proof (rule pending_wf_replace [OF wf n])
      fix m assume "m \<noteq> ?n"
      then show "instances ?s' m = instances s m"
        unfolding instances_def q filter_filter
        by (intro filter_cong refl) (metis same e)
    next
      fix i
      show "bit (pending ?s') i \<longleftrightarrow>
          (if i = ?n - 1 then instances ?s' ?n \<noteq> [] else bit (pending s) i)"
        using bit_n n unfolding p by (auto simp: bit_clear_sig invalid_signal_def)
    next
      assume "?n < SIGRTMIN"
      have "length (filter (\<lambda>e. timer_id e = None) (instances ?s' ?n)) \<le>
          length (filter (\<lambda>e. timer_id e = None) (instances s ?n))"
        unfolding instances_def q by (rule length_filter3)
      then show "length (filter (\<lambda>e. timer_id e = None) (instances ?s' ?n)) \<le> 1"
        using pending_wfD(3) [OF wf \<open>?n < SIGRTMIN\<close>] by linarith
    qed
  qed
qed

subsection \<open>Delivery order\<close>

lemma bit_deliverable:
  assumes "pending_wf s" and "i < 64"
  shows "bit (pending s AND NOT w) i \<longleftrightarrow> instances s (Suc i) \<noteq> [] \<and> (w AND sig_bit (Suc i)) = 0"
proof -
  have v: "\<not> invalid_signal (Suc i)" using assms(2) by (simp add: invalid_signal_def NSIG_def)
  then have "bit (pending s) i \<longleftrightarrow> instances s (Suc i) \<noteq> []"
    using pending_wfD(2) [OF assms(1) v] by simp
  moreover have "(w AND sig_bit (Suc i)) = 0 \<longleftrightarrow> \<not> bit w i"
    using and_sig_bit [of w "Suc i"] v by auto
  ultimately show ?thesis using assms(2) by (simp add: bit_and_iff bit_not_iff)
qed

lemma deliverable_zero:
  assumes wf: "pending_wf s"
  shows "(pending s AND NOT w) = 0 \<longleftrightarrow> (\<forall>n. (w AND sig_bit n) = 0 \<longrightarrow> instances s n = [])"
proof
  assume z: "(pending s AND NOT w) = 0"
  show "\<forall>n. (w AND sig_bit n) = 0 \<longrightarrow> instances s n = []"
  proof (intro allI impI)
    fix n assume n: "(w AND sig_bit n) = 0"
    show "instances s n = []"
    proof (cases "invalid_signal n")
      case True
      then show ?thesis using pending_wf_test [OF wf, of n] by (auto simp: and_sig_bit)
    next
      case False
      then obtain i where i: "n = Suc i" "i < 64"
        by (cases n) (auto simp: invalid_signal_def NSIG_def)
      then show ?thesis using bit_deliverable [OF wf i(2), of w] z n by simp
    qed
  qed
next
  assume none: "\<forall>n. (w AND sig_bit n) = 0 \<longrightarrow> instances s n = []"
  show "(pending s AND NOT w) = 0"
  proof (rule bit_eqI)
    fix i assume "possible_bit TYPE(64 word) i"
    then have "i < 64" by (simp add: possible_bit_word)
    then show "bit (pending s AND NOT w) i \<longleftrightarrow> bit (0 :: u64) i"
      using bit_deliverable [OF wf, of i w] none by auto
  qed
qed

lemma deliverable_lowest:
  assumes wf: "pending_wf s" and d: "(pending s AND NOT w) \<noteq> 0"
  defines "n \<equiv> trailing_zeros (pending s AND NOT w) + 1"
  shows "\<not> invalid_signal n" "(w AND sig_bit n) = 0" "instances s n \<noteq> []"
    and "m < n \<Longrightarrow> (w AND sig_bit m) = 0 \<Longrightarrow> instances s m = []"
proof -
  note tz = trailing_zeros_lowest [OF d]
  show "\<not> invalid_signal n" using tz(1) by (simp add: n_def invalid_signal_def NSIG_def)
  show "(w AND sig_bit n) = 0" "instances s n \<noteq> []"
    using bit_deliverable [OF wf tz(1), of w] tz(2) by (simp_all add: n_def)
  assume m: "m < n" "(w AND sig_bit m) = 0"
  show "instances s m = []"
  proof (cases m)
    case 0
    then show ?thesis using pending_wf_test [OF wf, of m] by (simp add: and_sig_bit invalid_signal_def)
  next
    case (Suc i)
    then have "i < trailing_zeros (pending s AND NOT w)" using m by (simp add: n_def)
    then have "i < 64" "\<not> bit (pending s AND NOT w) i" using tz(1) tz(3) by simp_all
    then show ?thesis using bit_deliverable [OF wf, of i w] m(2) Suc by blast
  qed
qed

lemma raise_internal_wf: "pending_wf s \<Longrightarrow> pending_wf (fst (raise_internal s n val code))"
  by (auto simp: raise_internal_def invalid_signal_def NSIG_def intro: raise_queued_wf)

lemma signal_state_new_wf: "pending_wf signal_state_new"
  by (simp add: pending_wf_empty signal_state_new_def)

text \<open>C21. \<open>SignalState::dequeue\<close> delivers the oldest instance of the lowest-numbered signal
  that is pending and not blocked, with the siginfo it was raised with; it leaves every other
  instance and the pending invariant in place, and answers \<open>None\<close> only when every
  pending signal is blocked.  The siginfo of a standard signal is returned as well, where the doc comment of
  \<^verbatim>\<open>dequeue\<close> announces zeros (\<open>dequeue_standard_siginfo\<close>).\<close>

theorem dequeue_lowest:
  assumes "pending_wf s" and "dequeue s = (s', r)"
  shows "case r of
      None \<Rightarrow> s' = s \<and> (\<forall>n. \<not> is_blocked s n \<longrightarrow> instances s n = [])
    | Some (n, val, code) \<Rightarrow>
        \<not> invalid_signal n \<and> \<not> is_blocked s n \<and>
        (\<exists>e. instances s n = e # instances s' n \<and> val = si_value e \<and> code = si_code e) \<and>
        (\<forall>m < n. \<not> is_blocked s m \<longrightarrow> instances s m = []) \<and>
        (\<forall>m. m \<noteq> n \<longrightarrow> instances s' m = instances s m) \<and> pending_wf s'"
proof -
  have blocked_iff: "is_blocked s n \<longleftrightarrow> (blocked s AND sig_bit n) \<noteq> 0" for n
    by (auto simp: is_blocked_def sig_bit_def)
  show ?thesis
  proof (cases "(pending s AND NOT (blocked s)) = 0")
    case True
    then have "s' = s \<and> r = None" using assms(2) by (simp add: dequeue_def)
    then show ?thesis
      using True deliverable_zero [OF assms(1), of "blocked s"] by (simp add: blocked_iff)
  next
    case False
    let ?n = "trailing_zeros (pending s AND NOT (blocked s)) + 1"
    note low = deliverable_lowest [OF assms(1) False]
    obtain info where c: "consume_pending_info s ?n = (s', info)"
      and r: "r = Some (?n, info_value info, info_code info)"
      using assms(2) False by (auto simp: dequeue_def Let_def split: prod.splits)
    obtain e rest where e: "instances s ?n = e # rest" using low(3) by (cases "instances s ?n") auto
    note ci = consume_instances [OF low(1) c]
    have "instances s' ?n = rest" "info = entry_info e" using ci(1,3) e by simp_all
    then have "\<exists>e. instances s ?n = e # instances s' ?n \<and> info_value info = si_value e \<and>
        info_code info = si_code e"
      using e by (simp add: entry_info_def)
    with low ci(2) consume_wf [OF assms(1) c] r show ?thesis
      by (simp add: blocked_iff del: One_nat_def)
  qed
qed

text \<open>C22. Raising a signal on the process queue: an ignored signal is dropped; otherwise the
  signal becomes pending, no other signal is touched, a real-time signal adds one instance
  behind those already queued, and a standard signal has exactly one plain instance, which
  carries the new siginfo unless the signal was pending and the new one has none.  Timer
  notifications of the same signal are not affected.\<close>

theorem raise_semantics:
  assumes "pending_wf s" and "\<not> invalid_signal n" and "raise_internal s n val code = (s', ok)"
  shows "ok \<and>
    (if should_discard_pending n (get_handler s n) then s' = s
     else
      pending_wf s' \<and> is_pending s' n \<and> actions s' = actions s \<and> blocked s' = blocked s \<and>
      (\<forall>m. timer_instances s' m = timer_instances s m) \<and>
      (\<forall>m. m \<noteq> n \<longrightarrow> instances s' m = instances s m) \<and>
      (if n \<ge> SIGRTMIN then instances s' n = instances s n @ [plain_entry n val code]
       else plain_instances s' n =
         [if plain_instances s n \<noteq> [] \<and> code = 0 then hd (plain_instances s n)
          else plain_entry n val code]))"
proof -
  have n: "n \<noteq> 0" "\<not> 65 \<le> n" using assms(2) by (auto simp: invalid_signal_def NSIG_def)
  have ok: "ok" and same: "should_discard_pending n (get_handler s n) \<Longrightarrow> s' = s"
    and new: "\<not> should_discard_pending n (get_handler s n) \<Longrightarrow> s' = raise_queued s n val code"
    using assms(3) n by (auto simp: raise_internal_def get_handler_def split: if_splits)
  show ?thesis
  proof (cases "should_discard_pending n (get_handler s n)")
    case True
    with ok same show ?thesis by simp
  next
    case False
    note s' = new [OF False]
    have wf': "pending_wf s'" unfolding s' by (rule raise_queued_wf [OF assms(1,2)])
    have frame: "actions s' = actions s" "blocked s' = blocked s"
      by (simp_all add: s' raise_queued_def Let_def)
    show ?thesis
      using False ok wf' frame is_pending_instances [OF wf', of n]
        raise_queued_nonempty [of s n val code] raise_queued_timers [of s n val code]
        raise_queued_other [of _ n s val code] raise_queued_rt [of n s val code]
        raise_queued_plain [OF assms(1), of n val code]
      unfolding s' by auto
  qed
qed

theorem dequeue_lowest_witness:
  "let s = fst (raise_with_value (fst (raise_with_value (fst (raise signal_state_new 34)) 34 7)) 33 5)
   in dequeue s = (fst (dequeue s), Some (33, 5, - 1)) \<and> pending_wf s \<and>
     instances (fst (dequeue s)) 34 = [plain_entry 34 0 0, plain_entry 34 7 (- 1)]"
proof -
  define s where
    "s = fst (raise_with_value (fst (raise_with_value (fst (raise signal_state_new 34)) 34 7)) 33 5)"
  have s: "s = signal_state_new\<lparr> pending := 0x300000000,
      rt_queue := [plain_entry 34 0 0, plain_entry 34 7 (- 1), plain_entry 33 5 (- 1)] \<rparr>"
    unfolding s_def by code_simp
  have wf: "pending_wf s"
    unfolding s_def raise_def raise_with_value_def
    by (intro raise_internal_wf signal_state_new_wf)
  have d: "dequeue s = (fst (dequeue s), Some (33, 5, - 1))" unfolding s by code_simp
  from dequeue_lowest [OF wf d] have "instances (fst (dequeue s)) 34 = instances s 34" by simp
  also have "instances s 34 = [plain_entry 34 0 0, plain_entry 34 7 (- 1)]"
    by (simp add: s instances_def plain_entry_def)
  finally show ?thesis using wf d unfolding s_def by simp
qed

text \<open>
  A standard signal sent by \<^verbatim>\<open>sigqueue\<close> is delivered with its value and code; the doc comment says both
  are 0 for standard signals.
\<close>

lemma dequeue_standard_siginfo:
  "snd (dequeue (fst (raise_with_value signal_state_new SIGHUP 42))) = Some (SIGHUP, 42, - 1)"
  by code_simp

theorem raise_semantics_witness:
  "let s = fst (raise signal_state_new SIGHUP); s' = fst (raise_internal s SIGHUP 9 (- 1))
   in plain_instances s' SIGHUP = [plain_entry SIGHUP 9 (- 1)] \<and> is_pending s' SIGHUP"
proof -
  define s where "s = fst (raise signal_state_new SIGHUP)"
  have wf: "pending_wf s"
    unfolding s_def raise_def by (intro raise_internal_wf signal_state_new_wf)
  have v: "\<not> invalid_signal SIGHUP" by (simp add: invalid_signal_def signal_numbers)
  have rt: "\<not> SIGRTMIN \<le> SIGHUP" by (simp add: signal_numbers)
  have h: "\<not> should_discard_pending SIGHUP (get_handler s SIGHUP)" unfolding s_def by code_simp
  show ?thesis
    using raise_semantics [OF wf v prod.collapse [symmetric], of 9 "- 1"] h rt
    unfolding Let_def s_def [symmetric] by simp
qed

end
