(* ===== verification/Wakeup.thy ===== *)
theory Wakeup
  imports Kernel_Interfaces
begin

text \<open>
  The buffer of readiness events (\<^verbatim>\<open>src/crates/kernel/src/wakeup.rs\<close>): pipes, listeners,
  datagram sockets, advisory locks and job control push events, the host drains them in
  batches of five-byte records.  The events are the module's global \<open>Vec\<close>, oldest first.
\<close>

section \<open>Events\<close>

definition WAKE_READABLE :: u8 where "WAKE_READABLE = 1"
definition WAKE_WRITABLE :: u8 where "WAKE_WRITABLE = 2"
definition WAKE_ACCEPT :: u8 where "WAKE_ACCEPT = 4"
definition WAKE_DATAGRAM_WRITABLE :: u8 where "WAKE_DATAGRAM_WRITABLE = 8"
definition WAKE_PROCESS_STOPPED :: u8 where "WAKE_PROCESS_STOPPED = 16"
definition WAKE_PROCESS_CONTINUED :: u8 where "WAKE_PROCESS_CONTINUED = 32"
definition WAKE_ADVISORY_LOCK :: u8 where "WAKE_ADVISORY_LOCK = 64"

record wakeup_event =
  wake_idx :: u32
  wake_type :: u8

record wakeup_buffer =
  wake_events :: "wakeup_event list"
  next_accept_idx :: nat

definition alloc_accept_wake_idx :: "wakeup_buffer \<Rightarrow> wakeup_buffer \<times> nat" where
  "alloc_accept_wake_idx b =
     (let idx = (if next_accept_idx b = 0 then 1 else next_accept_idx b)
      in (b\<lparr> next_accept_idx := if idx \<ge> 2 ^ 31 - 1 then 1 else idx + 1 \<rparr>, idx))"

definition push_event :: "wakeup_event list \<Rightarrow> u32 \<Rightarrow> u8 \<Rightarrow> wakeup_event list" where
  "push_event events idx ty = events @ [\<lparr> wake_idx = idx, wake_type = ty \<rparr>]"

definition push_accept :: "wakeup_event list \<Rightarrow> u32 \<Rightarrow> wakeup_event list" where
  "push_accept events idx = push_event events idx WAKE_ACCEPT"

definition push_datagram_writable :: "wakeup_event list \<Rightarrow> wakeup_event list" where
  "push_datagram_writable events = push_event events 0 WAKE_DATAGRAM_WRITABLE"

definition push_advisory_lock :: "wakeup_event list \<Rightarrow> wakeup_event list" where
  "push_advisory_lock events = push_event events 0 WAKE_ADVISORY_LOCK"

section \<open>Draining\<close>

definition write_event :: "u8 list \<Rightarrow> nat \<Rightarrow> wakeup_event \<Rightarrow> u8 list" where
  "write_event out offset ev =
     (let b = u32_to_le_bytes (wake_idx ev)
      in out[offset := b ! 0, offset + 1 := b ! 1, offset + 2 := b ! 2, offset + 3 := b ! 3,
             offset + 4 := wake_type ev])"

definition drain_events ::
  "wakeup_event list \<Rightarrow> u8 list \<Rightarrow> nat \<Rightarrow> wakeup_event list \<times> u8 list \<times> nat" where
  "drain_events events out max_events =
     (let count = min (min (length events) max_events) (length out div 5);
        out' = fold (\<lambda>i out. write_event out (i * 5) (events ! i)) [0..<count] out
      in (drop count events, out', count))"

section \<open>What the host reads\<close>

text \<open>The host's view of a record: four little-endian bytes and the type.\<close>

definition decode_event :: "u8 list \<Rightarrow> wakeup_event" where
  "decode_event bs =
     \<lparr> wake_idx = u32_from_le_bytes (bs ! 0) (bs ! 1) (bs ! 2) (bs ! 3), wake_type = bs ! 4 \<rparr>"

fun decode_events :: "nat \<Rightarrow> u8 list \<Rightarrow> wakeup_event list" where
  "decode_events 0 bs = []"
| "decode_events (Suc n) bs = decode_event (take 5 bs) # decode_events n (drop 5 bs)"

definition encode_event :: "wakeup_event \<Rightarrow> u8 list" where
  "encode_event ev = u32_to_le_bytes (wake_idx ev) @ [wake_type ev]"

lemma length_encode_event [simp]: "length (encode_event ev) = 5"
  by (simp add: encode_event_def)

lemma decode_encode_event: "decode_event (encode_event ev) = ev"
  using u32_le_roundtrip [of "wake_idx ev"]
  by (simp add: decode_event_def encode_event_def nth_append)

lemma decode_events_concat:
  "decode_events (length evs) (concat (map encode_event evs) @ rest) = evs"
  by (induction evs) (simp_all add: decode_encode_event)

lemma write_event_at:
  assumes "length pre = off" and "5 \<le> length rest"
  shows "write_event (pre @ rest) off ev = pre @ encode_event ev @ drop 5 rest"
proof -
  obtain a b c d e r where r: "rest = a # b # c # d # e # r"
    using assms(2) by (auto simp: numeral_eq_Suc Suc_le_length_iff)
  show ?thesis using assms(1)
    by (simp add: r write_event_def encode_event_def list_update_append u32_to_le_bytes_def Let_def)
qed

lemma length_concat_encode [simp]: "length (concat (map encode_event evs)) = 5 * length evs"
  by (induction evs) simp_all

lemma fold_write_events:
  assumes "n \<le> length events" and "5 * n \<le> length out"
  shows "fold (\<lambda>i out. write_event out (i * 5) (events ! i)) [0..<n] out =
    concat (map encode_event (take n events)) @ drop (5 * n) out"
  using assms
proof (induction n)
  case 0
  then show ?case by simp
next
  case (Suc n)
  then have IH: "fold (\<lambda>i out. write_event out (i * 5) (events ! i)) [0..<n] out =
    concat (map encode_event (take n events)) @ drop (5 * n) out" by simp
  have "write_event (concat (map encode_event (take n events)) @ drop (5 * n) out) (n * 5) (events ! n)
      = concat (map encode_event (take n events)) @ encode_event (events ! n) @ drop 5 (drop (5 * n) out)"
    by (rule write_event_at) (use Suc.prems in auto)
  with IH Suc.prems show ?case by (simp add: take_Suc_conv_app_nth add.commute)
qed

lemma drain_events_eq:
  assumes "n = min (min (length events) max_events) (length out div 5)"
  shows "drain_events events out max_events =
    (drop n events, concat (map encode_event (take n events)) @ drop (5 * n) out, n)"
    and "decode_events n (concat (map encode_event (take n events)) @ drop (5 * n) out) = take n events"
proof -
  have n: "n \<le> length events" "5 * n \<le> length out" by (auto simp: assms)
  show "drain_events events out max_events =
    (drop n events, concat (map encode_event (take n events)) @ drop (5 * n) out, n)"
    using fold_write_events [OF n] by (simp add: drain_events_def assms Let_def)
  show "decode_events n (concat (map encode_event (take n events)) @ drop (5 * n) out) = take n events"
    using decode_events_concat [of "take n events" "drop (5 * n) out"] n by (simp add: min_absorb2)
qed

text \<open>C19. The drain hands the host as many of the oldest events as the request and the
  output buffer allow; reading the buffer back gives exactly those events, in order; the events
  that did not fit stay queued and the rest of the buffer is not written.\<close>

theorem drain_events_roundtrip:
  "let (rest, out', n) = drain_events events out max_events
   in n = min (min (length events) max_events) (length out div 5) \<and>
      decode_events n out' @ rest = events \<and> length out' = length out \<and>
      drop (5 * n) out' = drop (5 * n) out"
proof -
  define n where "n = min (min (length events) max_events) (length out div 5)"
  have n: "n \<le> length events" "5 * n \<le> length out" by (auto simp: n_def)
  show ?thesis
    using drain_events_eq [OF n_def] n by (simp add: n_def [symmetric] min_absorb2)
qed

section \<open>The event buffer is a first-in first-out queue\<close>

text \<open>Pushing a batch of events, and one drain into a buffer for \<open>m\<close> events.\<close>

definition push_all :: "wakeup_event list \<Rightarrow> wakeup_event list \<Rightarrow> wakeup_event list \<times> nat" where
  "push_all events new =
     (fold (\<lambda>ev events. push_event events (wake_idx ev) (wake_type ev)) new events, length new)"

definition drain_batch :: "wakeup_event list \<Rightarrow> nat \<Rightarrow> wakeup_event list \<times> wakeup_event list" where
  "drain_batch events m =
     (let (rest, out, n) = drain_events events (replicate (5 * m) 0) m
      in (rest, decode_events n out))"

lemma push_all_append: "fst (push_all events new) = events @ new"
  by (induction new arbitrary: events) (simp_all add: push_all_def push_event_def)

lemma drain_batch_eq: "drain_batch events m = (drop m events, take m events)"
proof -
  have n: "min m (length events) = min (min (length events) m) (length (replicate (5 * m) 0) div 5)"
    by simp
  show ?thesis using drain_events_eq [OF n] by (simp add: drain_batch_def min_def)
qed

interpretation wakeups: fifo_queue "\<lambda>events. events" push_all drain_batch "\<lambda>_. True"
proof unfold_locales
  fix q xs q' n assume "push_all q xs = (q', n)"
  then show "q' = q @ take n xs" using push_all_append [of q xs] by (auto simp: push_all_def)
qed (auto simp: drain_batch_eq)

text \<open>A run of pushes and drains: the final buffer, the events pushed and the events the
  host received.\<close>

fun wakeup_run ::
  "wakeup_event list \<Rightarrow> wakeup_event queue_op list \<Rightarrow>
     wakeup_event list \<times> wakeup_event list \<times> wakeup_event list" where
  "wakeup_run events [] = (events, [], [])"
| "wakeup_run events (Put xs # ops) =
     (let (e1, n) = push_all events xs; (e2, acc, del) = wakeup_run e1 ops
      in (e2, take n xs @ acc, del))"
| "wakeup_run events (Get m # ops) =
     (let (e1, out) = drain_batch events m; (e2, acc, del) = wakeup_run e1 ops
      in (e2, acc, out @ del))"

lemma wakeup_run_eq: "wakeup_run events ops = wakeups.run events ops"
  by (induction events ops rule: wakeup_run.induct) (simp_all split: prod.splits)

text \<open>C20. However pushes and drains are interleaved, the host sees every event exactly once
  and in the order pushed: what was buffered and pushed is what was drained and what is left.\<close>

theorem wakeups_not_lost:
  "wakeup_run events ops = (events', pushed, drained) \<Longrightarrow> events @ pushed = drained @ events'"
  using wakeups.run_conserves unfolding wakeup_run_eq by blast

theorem wakeups_not_lost_witness:
  "wakeup_run []
     [Put [\<lparr> wake_idx = 7, wake_type = 1 \<rparr>, \<lparr> wake_idx = 8, wake_type = 2 \<rparr>], Get 1, Get 5] =
   ([], [\<lparr> wake_idx = 7, wake_type = 1 \<rparr>, \<lparr> wake_idx = 8, wake_type = 2 \<rparr>],
    [\<lparr> wake_idx = 7, wake_type = 1 \<rparr>, \<lparr> wake_idx = 8, wake_type = 2 \<rparr>])"
proof -
  let ?evs = "[\<lparr> wake_idx = 7, wake_type = 1 \<rparr>, \<lparr> wake_idx = 8, wake_type = 2 \<rparr>] :: wakeup_event list"
  have r: "wakeup_run [] [Put ?evs, Get 1, Get 5] = ([], ?evs, ?evs)"
    by (simp add: push_all_def push_event_def drain_batch_eq)
  from wakeups_not_lost [OF this] have "[] @ ?evs = ?evs @ []" .
  with r show ?thesis by simp
qed

text \<open>An accept token is never zero and fits an \<open>i32\<close>.\<close>

lemma accept_idx_range:
  "next_accept_idx b < 2 ^ 31 \<Longrightarrow> alloc_accept_wake_idx b = (b', idx) \<Longrightarrow>
     0 < idx \<and> idx < 2 ^ 31 \<and> 0 < next_accept_idx b' \<and> next_accept_idx b' < 2 ^ 31"
  by (auto simp: alloc_accept_wake_idx_def Let_def split: if_splits)

end
