(* ===== verification/Process_Signals.thy ===== *)
theory Process_Signals
  imports Signal_State Wakeup
begin

text \<open>
  A process as signals see it: threads, dispositions, the shared and the directed pending
  queues, POSIX timers and the life cycle
  (\<^verbatim>\<open>src/crates/kernel/src/process.rs\<close>), the delivery loop of
  \<^verbatim>\<open>signal.rs\<close> and \<^verbatim>\<open>wasm_api.rs\<close>, and the signal system calls of
  \<^verbatim>\<open>syscalls.rs\<close>.  The record holds the fields of \<open>Process\<close> those functions
  touch, and in \<open>wakes\<close> the events the process pushes into the global wakeup buffer.  The
  descriptors, mappings and locks released at exit are in the theories of those tables.
\<close>

section \<open>Threads, timers and the process\<close>

record thread_info =
  tid :: nat
  ctid_ptr :: nat
  stack_ptr :: nat
  tls_ptr :: nat
  tidptr :: nat
  thread_signals :: per_thread_signal_state

definition thread_info_new :: "nat \<Rightarrow> nat \<Rightarrow> nat \<Rightarrow> nat \<Rightarrow> thread_info" where
  "thread_info_new t ctid stack tls =
     \<lparr> tid = t, ctid_ptr = ctid, stack_ptr = stack, tls_ptr = tls, tidptr = 0,
       thread_signals = per_thread_signal_state_new \<rparr>"

datatype process_state = Running | Stopped | Exited | Limbo

record child_wait_event =
  event_mask :: nat
  wait_status :: int
  event_code :: int
  event_status :: int
  child_uid :: nat

record posix_timer_state =
  clock_id :: nat
  sigev_signo :: nat
  sigev_value :: int
  sigev_notify :: nat
  sigev_tid :: nat
  interval_sec :: int
  interval_nsec :: int
  value_sec :: int
  value_nsec :: int
  notification_pending :: bool
  overrun_current :: int
  overrun_last :: int

record process =
  pid :: nat
  uid :: nat
  pstate :: process_state
  exit_status :: int
  exit_signal :: nat
  wait_event :: "child_wait_event option"
  signals :: signal_state
  main_thread_signals :: per_thread_signal_state
  proc_saved_mask :: "u64 option"
  threads :: "thread_info list"
  next_tid :: nat
  posix_timers :: "posix_timer_state option list"
  alt_stack_sp :: nat
  alt_stack_flags :: u32
  alt_stack_size :: nat
  alt_stack_depth :: nat
  wakes :: "wakeup_event list"

definition process_new :: "nat \<Rightarrow> process" where
  "process_new p =
     \<lparr> pid = p, uid = 0, pstate = Running, exit_status = 0, exit_signal = 0, wait_event = None,
       signals = signal_state_new, main_thread_signals = per_thread_signal_state_new,
       proc_saved_mask = None, threads = [], next_tid = 0, posix_timers = [],
       alt_stack_sp = 0, alt_stack_flags = 2, alt_stack_size = 0, alt_stack_depth = 0,
       wakes = [] \<rparr>"

definition SIGEV_SIGNAL :: nat where "SIGEV_SIGNAL = 0"
definition SIGEV_NONE :: nat where "SIGEV_NONE = 1"
definition SIGEV_THREAD_ID :: nat where "SIGEV_THREAD_ID = 4"

definition normalize_posix_timer_signo :: "nat \<Rightarrow> nat \<Rightarrow> nat result" where
  "normalize_posix_timer_signo notify signo =
     (if notify = SIGEV_NONE then Ok 0
      else if notify = SIGEV_SIGNAL \<and> 1 \<le> signo \<and> signo \<le> 64 then Ok signo
      else if notify = SIGEV_THREAD_ID \<and> 1 \<le> signo \<and> signo \<le> 64 then Ok signo
      else Err EINVAL)"

section \<open>Life cycle\<close>

definition set_wait_event :: "process \<Rightarrow> nat \<Rightarrow> int \<Rightarrow> int \<Rightarrow> int \<Rightarrow> process" where
  "set_wait_event p ev status code sistatus =
     p\<lparr> wait_event := Some \<lparr> event_mask = ev, wait_status = status, event_code = code,
          event_status = sistatus, child_uid = uid p \<rparr> \<rparr>"

definition EVENT_EXITED :: nat where "EVENT_EXITED = 1"
definition EVENT_STOPPED :: nat where "EVENT_STOPPED = 2"
definition EVENT_CONTINUED :: nat where "EVENT_CONTINUED = 4"
definition CLD_EXITED :: int where "CLD_EXITED = 1"
definition CLD_KILLED :: int where "CLD_KILLED = 2"
definition CLD_STOPPED :: int where "CLD_STOPPED = 5"
definition CLD_CONTINUED :: int where "CLD_CONTINUED = 6"

definition push_wake :: "process \<Rightarrow> u8 \<Rightarrow> process" where
  "push_wake p ty = p\<lparr> wakes := push_event (wakes p) (of_nat (pid p)) ty \<rparr>"

definition record_stop :: "process \<Rightarrow> nat \<Rightarrow> process \<times> bool" where
  "record_stop p n =
     (if pstate p \<noteq> Running then (p, False)
      else (push_wake
              (set_wait_event (p\<lparr> pstate := Stopped \<rparr>) EVENT_STOPPED (int n * 256 + 0x7f)
                 CLD_STOPPED (int n))
              WAKE_PROCESS_STOPPED, True))"

definition record_continue :: "process \<Rightarrow> process \<times> bool" where
  "record_continue p =
     (if pstate p \<noteq> Stopped then (p, False)
      else (push_wake
              (set_wait_event (p\<lparr> pstate := Running \<rparr>) EVENT_CONTINUED 0xffff
                 CLD_CONTINUED (int SIGCONT))
              WAKE_PROCESS_CONTINUED, True))"

definition record_normal_exit :: "process \<Rightarrow> int \<Rightarrow> process \<times> bool" where
  "record_normal_exit p status =
     (if pstate p = Exited \<or> pstate p = Limbo then (p, False)
      else
        (let st = status mod 256
         in (set_wait_event (p\<lparr> pstate := Exited, exit_status := st, exit_signal := 0 \<rparr>)
               EVENT_EXITED (st * 256) CLD_EXITED st, True)))"

definition record_signal_exit :: "process \<Rightarrow> nat \<Rightarrow> process \<times> bool" where
  "record_signal_exit p n =
     (if pstate p = Exited \<or> pstate p = Limbo then (p, False)
      else
        (let sg = n mod 128
         in (set_wait_event (p\<lparr> pstate := Exited, exit_status := 0, exit_signal := sg \<rparr>)
               EVENT_EXITED (int sg) CLD_KILLED (int sg), True)))"

section \<open>Threads\<close>

definition alloc_tid :: "process \<Rightarrow> process \<times> nat" where
  "alloc_tid p =
     (let t = (if next_tid p = 0 then (pid p + 1) mod 2 ^ 32 else next_tid p)
      in (p\<lparr> next_tid := (t + 1) mod 2 ^ 32 \<rparr>, t))"

definition add_thread :: "process \<Rightarrow> thread_info \<Rightarrow> process" where
  "add_thread p info = p\<lparr> threads := threads p @ [info] \<rparr>"

definition swap_remove :: "nat \<Rightarrow> 'a list \<Rightarrow> 'a list" where
  "swap_remove i xs = (if i + 1 = length xs then butlast xs else butlast (xs[i := List.last xs]))"

definition thread_position :: "process \<Rightarrow> nat \<Rightarrow> nat option" where
  "thread_position p t = List.find (\<lambda>i. tid (threads p ! i) = t) [0..<length (threads p)]"

definition remove_thread :: "process \<Rightarrow> nat \<Rightarrow> process \<times> thread_info option" where
  "remove_thread p t =
     (case thread_position p t of
        Some i \<Rightarrow> (p\<lparr> threads := swap_remove i (threads p) \<rparr>, Some (threads p ! i))
      | None \<Rightarrow> (p, None))"

definition get_thread :: "process \<Rightarrow> nat \<Rightarrow> thread_info option" where
  "get_thread p t = List.find (\<lambda>i. tid i = t) (threads p)"

text \<open>\<open>get_thread_mut\<close> with the update made through it; \<open>None\<close> when there is no such thread.\<close>

definition update_thread ::
  "process \<Rightarrow> nat \<Rightarrow> (per_thread_signal_state \<Rightarrow> per_thread_signal_state) \<Rightarrow> process" where
  "update_thread p t f =
     (case update_first (\<lambda>i. tid i = t)
             (\<lambda>i. i\<lparr> thread_signals := f (thread_signals i) \<rparr>) (threads p) of
        Some ts \<Rightarrow> p\<lparr> threads := ts \<rparr>
      | None \<Rightarrow> p)"

definition is_main_thread :: "process \<Rightarrow> nat \<Rightarrow> bool" where
  "is_main_thread p t \<longleftrightarrow> t = 0 \<or> t = pid p"

definition is_live_explicit_tid :: "process \<Rightarrow> nat \<Rightarrow> bool" where
  "is_live_explicit_tid p t \<longleftrightarrow> t \<noteq> 0 \<and> (t = pid p \<or> get_thread p t \<noteq> None)"

section \<open>Masks\<close>

definition blocked_for :: "process \<Rightarrow> nat \<Rightarrow> u64" where
  "blocked_for p t =
     (if is_main_thread p t then blocked (signals p)
      else (case get_thread p t of
              Some i \<Rightarrow> thread_blocked (thread_signals i)
            | None \<Rightarrow> blocked (signals p)))"

definition set_blocked_for :: "process \<Rightarrow> nat \<Rightarrow> u64 \<Rightarrow> process \<times> u64" where
  "set_blocked_for p t w =
     (if is_main_thread p t
      then (p\<lparr> signals := (signals p)\<lparr> blocked := w \<rparr> \<rparr>, blocked (signals p))
      else (case get_thread p t of
              Some i \<Rightarrow> (update_thread p t (\<lambda>s. s\<lparr> thread_blocked := w \<rparr>),
                         thread_blocked (thread_signals i))
            | None \<Rightarrow> (p\<lparr> signals := (signals p)\<lparr> blocked := w \<rparr> \<rparr>, blocked (signals p))))"

definition sigsuspend_saved_mask_for :: "process \<Rightarrow> nat \<Rightarrow> u64 option" where
  "sigsuspend_saved_mask_for p t =
     (if is_main_thread p t then proc_saved_mask p
      else (case get_thread p t of
              Some i \<Rightarrow> sigsuspend_saved_mask (thread_signals i)
            | None \<Rightarrow> None))"

definition set_sigsuspend_saved_mask_for :: "process \<Rightarrow> nat \<Rightarrow> u64 option \<Rightarrow> process" where
  "set_sigsuspend_saved_mask_for p t m =
     (if is_main_thread p t then p\<lparr> proc_saved_mask := m \<rparr>
      else update_thread p t (\<lambda>s. s\<lparr> sigsuspend_saved_mask := m \<rparr>))"

definition take_sigsuspend_saved_mask_for :: "process \<Rightarrow> nat \<Rightarrow> process \<times> u64 option" where
  "take_sigsuspend_saved_mask_for p t =
     (set_sigsuspend_saved_mask_for p t None, sigsuspend_saved_mask_for p t)"

section \<open>Pending signals\<close>

definition pending_for :: "process \<Rightarrow> nat \<Rightarrow> u64" where
  "pending_for p t =
     (if is_main_thread p t then pending (signals p) OR pending (main_thread_signals p)
      else pending (signals p) OR
        (case get_thread p t of Some i \<Rightarrow> pending (thread_signals i) | None \<Rightarrow> 0))"

definition signal_pending_for :: "process \<Rightarrow> nat \<Rightarrow> nat \<Rightarrow> bool" where
  "signal_pending_for p t n =
     (if invalid_signal n then False
      else
        (let shared = (pending (signals p) AND sig_bit n) \<noteq> 0
         in if is_main_thread p t
            then shared \<or> (pending (main_thread_signals p) AND sig_bit n) \<noteq> 0
            else shared \<or>
              (case get_thread p t of
                 Some i \<Rightarrow> (pending (thread_signals i) AND sig_bit n) \<noteq> 0
               | None \<Rightarrow> False)))"

definition signal_pending_anywhere :: "process \<Rightarrow> nat \<Rightarrow> bool" where
  "signal_pending_anywhere p n =
     (if invalid_signal n then False
      else (pending (signals p) AND sig_bit n) \<noteq> 0 \<or>
        (pending (main_thread_signals p) AND sig_bit n) \<noteq> 0 \<or>
        list_ex (\<lambda>i. (pending (thread_signals i) AND sig_bit n) \<noteq> 0) (threads p))"

definition pick_thread_for_shared_signal :: "process \<Rightarrow> nat \<Rightarrow> nat option" where
  "pick_thread_for_shared_signal p n =
     (if invalid_signal n then None
      else if (blocked (signals p) AND sig_bit n) = 0 then Some (pid p)
      else map_option tid
        (List.find (\<lambda>i. (thread_blocked (thread_signals i) AND sig_bit n) = 0) (threads p)))"

definition tids_accepting :: "process \<Rightarrow> nat \<Rightarrow> nat list" where
  "tids_accepting p n =
     (if invalid_signal n then []
      else (if (blocked (signals p) AND sig_bit n) = 0 then [pid p] else []) @
        map tid (filter (\<lambda>i. (thread_blocked (thread_signals i) AND sig_bit n) = 0) (threads p)))"

definition deliverable_for :: "process \<Rightarrow> nat \<Rightarrow> u64" where
  "deliverable_for p t = pending_for p t AND NOT (blocked_for p t)"

definition next_deliverable_signal :: "process \<Rightarrow> nat \<Rightarrow> nat option" where
  "next_deliverable_signal p t =
     (if pstate p = Stopped
      then (if signal_pending_anywhere p SIGKILL then Some SIGKILL else None)
      else
        (let d = deliverable_for p t
         in if d = 0 then None
            else (let n = trailing_zeros d + 1 in if n < NSIG then Some n else None)))"

definition should_restart_for :: "process \<Rightarrow> nat \<Rightarrow> bool" where
  "should_restart_for p t =
     (let d = deliverable_for p t
      in if d = 0 then False
         else
           (let n = trailing_zeros d + 1
            in if n \<ge> NSIG then False
               else (sa_flags (get_action (signals p) n) AND SA_RESTART) \<noteq> 0))"

section \<open>Generating signals\<close>

definition clear_directed_signal :: "process \<Rightarrow> nat \<Rightarrow> process" where
  "clear_directed_signal p n =
     p\<lparr> main_thread_signals := clear_pending (main_thread_signals p) n,
        threads := map (\<lambda>i. i\<lparr> thread_signals := clear_pending (thread_signals i) n \<rparr>) (threads p) \<rparr>"

definition clear_signal_everywhere :: "process \<Rightarrow> nat \<Rightarrow> process" where
  "clear_signal_everywhere p n =
     clear_directed_signal (p\<lparr> signals := clear_pending (signals p) n \<rparr>) n"

definition prepare_signal_generation :: "process \<Rightarrow> nat \<Rightarrow> process" where
  "prepare_signal_generation p n =
     (if invalid_signal n then p
      else if n = SIGCONT
        then fst (record_continue
               (fold (\<lambda>stop p. clear_signal_everywhere p stop) [SIGSTOP, SIGTSTP, SIGTTIN, SIGTTOU] p))
      else if n \<in> {SIGSTOP, SIGTSTP, SIGTTIN, SIGTTOU} then clear_signal_everywhere p SIGCONT
      else p)"

text \<open>An operation on the shared queue that also returns a value.\<close>

definition on_signals :: "(signal_state \<Rightarrow> signal_state \<times> 'r) \<Rightarrow> process \<Rightarrow> process \<times> 'r" where
  "on_signals f p = (let (s, r) = f (signals p) in (p\<lparr> signals := s \<rparr>, r))"

definition raise_signal :: "process \<Rightarrow> nat \<Rightarrow> process \<times> bool" where
  "raise_signal p n = on_signals (\<lambda>s. raise s n) (prepare_signal_generation p n)"

definition raise_signal_with_value :: "process \<Rightarrow> nat \<Rightarrow> int \<Rightarrow> process \<times> bool" where
  "raise_signal_with_value p n val =
     on_signals (\<lambda>s. raise_with_value s n val) (prepare_signal_generation p n)"

text \<open>
  An operation on the queue of one exact thread: the main thread's directed queue, or the
  worker's, or nothing (\<open>None\<close>) when the thread is gone.
\<close>

definition on_directed ::
  "process \<Rightarrow> nat \<Rightarrow> (per_thread_signal_state \<Rightarrow> per_thread_signal_state \<times> 'r)
     \<Rightarrow> process \<times> 'r option" where
  "on_directed p t f =
     (if is_main_thread p t
      then (let (s, r) = f (main_thread_signals p) in (p\<lparr> main_thread_signals := s \<rparr>, Some r))
      else
        (case get_thread p t of
           Some i \<Rightarrow>
             (update_thread p t (\<lambda>s. fst (f s)), Some (snd (f (thread_signals i))))
         | None \<Rightarrow> (p, None)))"

definition raise_directed ::
  "process \<Rightarrow> nat \<Rightarrow> nat \<Rightarrow>
     (per_thread_signal_state \<Rightarrow> per_thread_signal_state \<times> bool) \<Rightarrow> process \<times> bool" where
  "raise_directed p t n f =
     (let p1 = prepare_signal_generation p n
      in if invalid_signal n then (p1, False)
         else if should_discard_pending n (get_handler (signals p1) n) then (p1, True)
         else (let (p2, r) = on_directed p1 t f
               in (p2, case r of Some b \<Rightarrow> b | None \<Rightarrow> False)))"

definition raise_for_thread :: "process \<Rightarrow> nat \<Rightarrow> nat \<Rightarrow> process \<times> bool" where
  "raise_for_thread p t n = raise_directed p t n (\<lambda>s. thread_raise s n)"

definition raise_for_thread_with_value :: "process \<Rightarrow> nat \<Rightarrow> nat \<Rightarrow> int \<Rightarrow> process \<times> bool" where
  "raise_for_thread_with_value p t n val = raise_directed p t n (\<lambda>s. thread_raise_with_value s n val)"

definition raise_timer_for_thread :: "process \<Rightarrow> nat \<Rightarrow> nat \<Rightarrow> int \<Rightarrow> nat \<Rightarrow> process \<times> bool" where
  "raise_timer_for_thread p t n val tmr = raise_directed p t n (\<lambda>s. raise_timer s n val tmr)"

section \<open>Accepting signals\<close>

definition consume_if_pending ::
  "nat \<Rightarrow> per_thread_signal_state \<Rightarrow> per_thread_signal_state \<times> pending_signal_info option" where
  "consume_if_pending n s =
     (if is_pending s n
      then (let (s', info) = consume_pending_info s n in (s', Some info))
      else (s, None))"

definition consume_signal_for :: "process \<Rightarrow> nat \<Rightarrow> nat \<Rightarrow> process \<times> pending_signal_info option" where
  "consume_signal_for p t n =
     (case on_directed p t (consume_if_pending n) of
        (p', Some (Some info)) \<Rightarrow> (p', Some info)
      | _ \<Rightarrow>
          if (pending (signals p) AND sig_bit n) = 0 then (p, None)
          else (let (p', info) = on_signals (\<lambda>s. consume_pending_info s n) p in (p', Some info)))"

definition I32_MAX :: int where "I32_MAX = 2 ^ 31 - 1"

definition accept_posix_timer_notification :: "process \<Rightarrow> nat \<Rightarrow> process \<times> int option" where
  "accept_posix_timer_notification p tmr =
     (case slot (posix_timers p) tmr of
        None \<Rightarrow> (p, None)
      | Some tm \<Rightarrow>
          if \<not> notification_pending tm then (p, None)
          else
            (let tm' = tm\<lparr> notification_pending := False, overrun_last := overrun_current tm,
                           overrun_current := 0 \<rparr>
             in (p\<lparr> posix_timers := (posix_timers p)[tmr := Some tm'] \<rparr>, Some (overrun_last tm'))))"

definition note_legacy_posix_timer_interval_fire :: "process \<Rightarrow> nat \<Rightarrow> process \<times> bool" where
  "note_legacy_posix_timer_interval_fire p tmr =
     (case slot (posix_timers p) tmr of
        None \<Rightarrow> (p, False)
      | Some tm \<Rightarrow>
          if invalid_signal (sigev_signo tm) then (p, False)
          else
            (let pend = (pending (signals p) AND sig_bit (sigev_signo tm)) \<noteq> 0;
               tm' = tm\<lparr> overrun_last := if pend then min (overrun_last tm + 1) I32_MAX else 0 \<rparr>
             in (p\<lparr> posix_timers := (posix_timers p)[tmr := Some tm'] \<rparr>, pend)))"

definition discard_pending_signal :: "process \<Rightarrow> nat \<Rightarrow> process" where
  "discard_pending_signal p n =
     (let ids = pending_timer_ids (signals p) n @ pending_timer_ids (main_thread_signals p) n @
            concat (map (\<lambda>i. pending_timer_ids (thread_signals i) n) (threads p))
      in fold (\<lambda>tmr p. fst (accept_posix_timer_notification p tmr)) ids
           (clear_signal_everywhere p n))"

definition remove_posix_timer_notification :: "process \<Rightarrow> nat \<Rightarrow> process \<times> bool" where
  "remove_posix_timer_notification p tmr =
     (let rs = remove_timer_info (signals p) tmr;
        rm = remove_timer_info (main_thread_signals p) tmr;
        rt = map (\<lambda>i. remove_timer_info (thread_signals i) tmr) (threads p)
      in (p\<lparr> signals := fst rs, main_thread_signals := fst rm,
             threads := map (\<lambda>i. i\<lparr> thread_signals := fst (remove_timer_info (thread_signals i) tmr) \<rparr>)
                          (threads p) \<rparr>,
          snd rs \<or> snd rm \<or> list_ex snd rt))"

section \<open>Default actions and the delivery loop\<close>

datatype default_signal_outcome = OutContinue | OutStopped | OutExited

definition sys_exit :: "process \<Rightarrow> int \<Rightarrow> process" where
  "sys_exit p status =
     (if pstate p = Exited \<or> pstate p = Limbo then p else fst (record_normal_exit p status))"

definition sys_exit_by_signal :: "process \<Rightarrow> nat \<Rightarrow> process" where
  "sys_exit_by_signal p n =
     (if pstate p = Exited \<or> pstate p = Limbo then p else fst (record_signal_exit p n))"

definition terminate_process_by_signal :: "process \<Rightarrow> nat \<Rightarrow> process" where
  "terminate_process_by_signal p n =
     sys_exit_by_signal
       (p\<lparr> proc_saved_mask := None,
           threads := map (\<lambda>i. i\<lparr> thread_signals :=
               (thread_signals i)\<lparr> sigsuspend_saved_mask := None \<rparr> \<rparr>) (threads p) \<rparr>) n"

definition apply_default_signal_action :: "process \<Rightarrow> nat \<Rightarrow> process \<times> default_signal_outcome" where
  "apply_default_signal_action p n =
     (case default_action n of
        ActTerminate \<Rightarrow> (terminate_process_by_signal p n, OutExited)
      | ActCoreDump \<Rightarrow> (terminate_process_by_signal p n, OutExited)
      | ActStop \<Rightarrow>
          (let (p', stopped) = record_stop p n in (p', if stopped then OutStopped else OutContinue))
      | ActContinue \<Rightarrow> (p, OutContinue)
      | ActIgnore \<Rightarrow> (p, OutContinue))"

definition siginfo_words :: "process \<Rightarrow> pending_signal_info \<Rightarrow> process \<times> int \<times> int" where
  "siginfo_words p info =
     (case info_timer info of
        Some tmr \<Rightarrow>
          (let (p', r) = accept_posix_timer_notification p tmr
           in (p', as_i32 tmr, case r of Some n \<Rightarrow> n | None \<Rightarrow> 0))
      | None \<Rightarrow> (p, as_i32 (pid p), as_i32 (uid p)))"

type_synonym siginfo = "nat \<times> int \<times> int \<times> int \<times> int"

definition dequeue_signal_for :: "process \<Rightarrow> nat \<Rightarrow> nat \<Rightarrow> process \<times> siginfo" where
  "dequeue_signal_for p t n =
     (if pstate p = Stopped \<and> n = SIGKILL
      then (clear_signal_everywhere p n, n, 0, 0, as_i32 (pid p), as_i32 (uid p))
      else
        (let (p1, r) = consume_signal_for p t n;
           info = (case r of Some i \<Rightarrow> i | None \<Rightarrow> pending_signal_info_default);
           (p2, w1, w2) = siginfo_words p1 info
         in (p2, n, info_value info, info_code info, w1, w2)))"

subsection \<open>What is left to deliver\<close>

text \<open>The instances and pending bits of one queue, and of the process: each turn of the delivery
  loop takes at least one of them away.\<close>

definition queue_load :: "('a pending_queue_scheme) \<Rightarrow> nat" where
  "queue_load s = length (rt_queue s) + card {i. bit (pending s) i}"

definition signal_load :: "process \<Rightarrow> nat" where
  "signal_load p = queue_load (signals p) + queue_load (main_thread_signals p) +
     sum_list (map (\<lambda>i. queue_load (thread_signals i)) (threads p))"

lemma finite_bits [simp]: "finite {i. bit (w :: u64) i}"
proof (rule finite_subset)
  show "{i. bit w i} \<subseteq> {..<64}" using bit_imp_le_length [of w] by auto
qed simp

lemma card_bits_mono:
  "(\<And>i. bit w i \<Longrightarrow> bit v i) \<Longrightarrow> card {i. bit w i} \<le> card {i. bit v i}" for w v :: u64
  by (rule card_mono) auto

lemma card_bits_less:
  "(\<And>i. bit w i \<Longrightarrow> bit v i) \<Longrightarrow> bit v k \<Longrightarrow> \<not> bit w k \<Longrightarrow> card {i. bit w i} < card {i. bit v i}"
  for w v :: u64
  by (rule psubset_card_mono) auto

lemma consume_load:
  assumes "(pending s AND sig_bit n) \<noteq> 0"
  shows "queue_load (fst (consume_pending_info s n)) < queue_load s"
proof -
  from assms have n: "\<not> invalid_signal n" and b: "bit (pending s) (n - 1)" by (auto simp: and_sig_bit)
  obtain s' info where c: "consume_pending_info s n = (s', info)" by fastforce
  note ci = consume_instances [OF n c]
  have len: "length (rt_queue s) = length (take 1 (instances s n)) + length (rt_queue s')"
    using arg_cong [OF ci(5), of size] by simp
  have mono: "\<And>i. bit (pending s') i \<Longrightarrow> bit (pending s) i" using ci(4) by blast
  show ?thesis
  proof (cases "instances s n")
    case Nil
    then have "\<not> bit (pending s') (n - 1)" using ci(1) ci(4) [of "n - 1"] by simp
    with len Nil card_bits_less [OF mono b] c show ?thesis by (simp add: queue_load_def)
  next
    case Cons
    have "card {i. bit (pending s') i} \<le> card {i. bit (pending s) i}" by (rule card_bits_mono [OF mono])
    with len Cons c show ?thesis by (simp add: queue_load_def)
  qed
qed

lemma clear_load: "queue_load (clear_pending s n) \<le> queue_load s"
proof -
  have "length (rt_queue (clear_pending s n)) \<le> length (rt_queue s)"
    by (simp add: clear_pending_def)
  moreover have "card {i. bit (pending (clear_pending s n)) i} \<le> card {i. bit (pending s) i}"
    by (rule card_bits_mono) (simp add: clear_pending_instances)
  ultimately show ?thesis by (simp add: queue_load_def)
qed

lemma clear_load_less:
  assumes "(pending s AND sig_bit n) \<noteq> 0"
  shows "queue_load (clear_pending s n) < queue_load s"
proof -
  from assms have n: "\<not> invalid_signal n" and b: "bit (pending s) (n - 1)" by (auto simp: and_sig_bit)
  then have "\<not> bit (pending (clear_pending s n)) (n - 1)"
    by (simp add: clear_pending_instances invalid_signal_def)
  with b have "card {i. bit (pending (clear_pending s n)) i} < card {i. bit (pending s) i}"
    by (intro card_bits_less) (auto simp: clear_pending_instances)
  moreover have "length (rt_queue (clear_pending s n)) \<le> length (rt_queue s)"
    by (simp add: clear_pending_def)
  ultimately show ?thesis by (simp add: queue_load_def)
qed

lemma find_split:
  assumes "List.find P xs = Some x"
  obtains ys zs where "xs = ys @ x # zs" "P x" "\<And>f. update_first P f xs = Some (ys @ f x # zs)"
    "List.filter P ys = []"
  using assms
proof (induction xs arbitrary: thesis)
  case Nil
  then show ?case by simp
next
  case (Cons a xs)
  show ?case
  proof (cases "P a")
    case True
    with Cons.prems show ?thesis by (intro Cons.prems(1) [of "[]" xs]) auto
  next
    case False
    with Cons.prems(2) have "List.find P xs = Some x" by simp
    then obtain ys zs where *: "xs = ys @ x # zs" "P x"
      "\<And>f. update_first P f xs = Some (ys @ f x # zs)" "List.filter P ys = []"
      using Cons.IH by blast
    with False show ?thesis by (intro Cons.prems(1) [of "a # ys" zs]) auto
  qed
qed

lemma on_directed_cases:
  obtains (main) "is_main_thread p t"
      "on_directed p t f = (p\<lparr> main_thread_signals := fst (f (main_thread_signals p)) \<rparr>,
         Some (snd (f (main_thread_signals p))))"
  | (worker) i ys zs where "\<not> is_main_thread p t" "get_thread p t = Some i"
      "threads p = ys @ i # zs" "tid i = t" "List.filter (\<lambda>i. tid i = t) ys = []"
      "on_directed p t f =
         (p\<lparr> threads := ys @ i\<lparr> thread_signals := fst (f (thread_signals i)) \<rparr> # zs \<rparr>,
          Some (snd (f (thread_signals i))))"
  | (gone) "\<not> is_main_thread p t" "get_thread p t = None" "on_directed p t f = (p, None)"
proof (cases "is_main_thread p t")
  case True
  then show ?thesis by (intro main) (simp_all add: on_directed_def split: prod.splits)
next
  case False
  show ?thesis
  proof (cases "get_thread p t")
    case None
    with False show ?thesis by (intro gone) (simp_all add: on_directed_def)
  next
    case (Some i)
    then have "List.find (\<lambda>i. tid i = t) (threads p) = Some i" by (simp add: get_thread_def)
    then obtain ys zs where "threads p = ys @ i # zs" "tid i = t"
      "\<And>f. update_first (\<lambda>i. tid i = t) f (threads p) = Some (ys @ f i # zs)"
      "List.filter (\<lambda>i. tid i = t) ys = []" by (rule find_split) (rule that)
    with False Some show ?thesis
      by (intro worker) (auto simp: on_directed_def update_thread_def)
  qed
qed

lemma consume_signal_for_cases:
  obtains (directed) s where "is_main_thread p t" "s = main_thread_signals p" "is_pending s n"
      "consume_signal_for p t n =
         (p\<lparr> main_thread_signals := fst (consume_pending_info s n) \<rparr>,
          Some (snd (consume_pending_info s n)))"
  | (worker) i ys zs where "\<not> is_main_thread p t" "get_thread p t = Some i"
      "threads p = ys @ i # zs" "is_pending (thread_signals i) n"
      "consume_signal_for p t n =
         (p\<lparr> threads := ys @ i\<lparr> thread_signals := fst (consume_pending_info (thread_signals i) n) \<rparr> # zs \<rparr>,
          Some (snd (consume_pending_info (thread_signals i) n)))"
  | (shared) "\<not> (if is_main_thread p t then is_pending (main_thread_signals p) n
        else \<exists>i. get_thread p t = Some i \<and> is_pending (thread_signals i) n)"
      "(pending (signals p) AND sig_bit n) \<noteq> 0"
      "consume_signal_for p t n =
         (p\<lparr> signals := fst (consume_pending_info (signals p) n) \<rparr>,
          Some (snd (consume_pending_info (signals p) n)))"
  | (none) "\<not> (if is_main_thread p t then is_pending (main_thread_signals p) n
        else \<exists>i. get_thread p t = Some i \<and> is_pending (thread_signals i) n)"
      "(pending (signals p) AND sig_bit n) = 0" "consume_signal_for p t n = (p, None)"
proof -
  let ?f = "consume_if_pending n"
  have f: "is_pending s n \<Longrightarrow> ?f s = (fst (consume_pending_info s n), Some (snd (consume_pending_info s n)))"
    "\<not> is_pending s n \<Longrightarrow> ?f s = (s, None)" for s
    by (simp_all add: consume_if_pending_def split: prod.splits)
  have rest: "consume_signal_for p t n =
      (if (pending (signals p) AND sig_bit n) = 0 then (p, None)
       else (p\<lparr> signals := fst (consume_pending_info (signals p) n) \<rparr>,
          Some (snd (consume_pending_info (signals p) n))))"
    if "\<forall>x. snd (on_directed p t ?f) \<noteq> Some (Some x)"
    using that unfolding consume_signal_for_def
    by (auto simp: on_signals_def split: prod.splits option.splits)
  show ?thesis
  proof (cases rule: on_directed_cases [of p t ?f])
    case main
    show ?thesis
    proof (cases "is_pending (main_thread_signals p) n")
      case True
      with main show ?thesis by (intro directed) (auto simp: consume_signal_for_def f)
    next
      case False
      with main rest shared none show ?thesis by (simp add: f split: if_splits)
    qed
  next
    case (worker i ys zs)
    show ?thesis
    proof (cases "is_pending (thread_signals i) n")
      case True
      with worker show ?thesis by (intro that(2)) (auto simp: consume_signal_for_def f)
    next
      case False
      with worker rest shared none show ?thesis by (simp add: f split: if_splits)
    qed
  next
    case gone
    with rest shared none show ?thesis by (simp split: if_splits)
  qed
qed

lemma accept_keeps_queues [simp]:
  "signals (fst (accept_posix_timer_notification p tmr)) = signals p"
  "main_thread_signals (fst (accept_posix_timer_notification p tmr)) = main_thread_signals p"
  "threads (fst (accept_posix_timer_notification p tmr)) = threads p"
  "pstate (fst (accept_posix_timer_notification p tmr)) = pstate p"
  "pid (fst (accept_posix_timer_notification p tmr)) = pid p"
  by (auto simp: accept_posix_timer_notification_def Let_def split: option.splits)

lemma siginfo_words_fst:
  "fst (siginfo_words p info) =
     (case info_timer info of Some t \<Rightarrow> fst (accept_posix_timer_notification p t) | None \<Rightarrow> p)"
  by (simp add: siginfo_words_def split: option.splits prod.splits)

lemma siginfo_words_keeps [simp]:
  "signals (fst (siginfo_words p info)) = signals p"
  "main_thread_signals (fst (siginfo_words p info)) = main_thread_signals p"
  "threads (fst (siginfo_words p info)) = threads p"
  "pstate (fst (siginfo_words p info)) = pstate p"
  "pid (fst (siginfo_words p info)) = pid p"
  by (simp_all add: siginfo_words_fst split: option.splits)

lemma siginfo_words_load [simp]: "signal_load (fst (siginfo_words p info)) = signal_load p"
  by (simp add: signal_load_def)

lemma dequeue_signal_for_fst:
  "fst (dequeue_signal_for p t n) =
     (if pstate p = Stopped \<and> n = SIGKILL then clear_signal_everywhere p n
      else fst (siginfo_words (fst (consume_signal_for p t n))
        (case snd (consume_signal_for p t n) of Some i \<Rightarrow> i | None \<Rightarrow> pending_signal_info_default)))"
  by (simp add: dequeue_signal_for_def Let_def split: prod.splits)

lemma sum_clear_load:
  "sum_list (map (\<lambda>i. queue_load (clear_pending (thread_signals i) n)) ts) \<le>
   sum_list (map (\<lambda>i. queue_load (thread_signals i)) ts)"
  by (intro sum_list_mono) (simp add: clear_load)

lemma sum_clear_load_less:
  "list_ex (\<lambda>i. (pending (thread_signals i) AND sig_bit n) \<noteq> 0) ts \<Longrightarrow>
   sum_list (map (\<lambda>i. queue_load (clear_pending (thread_signals i) n)) ts) <
   sum_list (map (\<lambda>i. queue_load (thread_signals i)) ts)"
proof (induction ts)
  case (Cons i ts)
  then show ?case
    using clear_load [of "thread_signals i" n] clear_load_less [of "thread_signals i" n]
      sum_clear_load [of n ts]
    by (auto intro: add_less_le_mono add_le_less_mono)
qed simp

lemma clear_everywhere_load:
  "signal_pending_anywhere p n \<Longrightarrow> signal_load (clear_signal_everywhere p n) < signal_load p"
  using clear_load [of "signals p" n] clear_load [of "main_thread_signals p" n]
    clear_load_less [of "signals p" n] clear_load_less [of "main_thread_signals p" n]
    sum_clear_load [of n "threads p"] sum_clear_load_less [of n "threads p"]
  by (auto simp: signal_pending_anywhere_def signal_load_def clear_signal_everywhere_def
      clear_directed_signal_def o_def split: if_splits)

lemma next_deliverable_pending:
  assumes "next_deliverable_signal p t = Some n" and "pstate p \<noteq> Stopped"
  shows "\<not> invalid_signal n" and "(blocked_for p t AND sig_bit n) = 0"
    and "(pending_for p t AND sig_bit n) \<noteq> 0"
    and "\<And>m. m < n \<Longrightarrow> (pending_for p t AND sig_bit m) \<noteq> 0 \<Longrightarrow> (blocked_for p t AND sig_bit m) \<noteq> 0"
proof -
  let ?d = "deliverable_for p t"
  have d: "?d \<noteq> 0" and n: "n = trailing_zeros ?d + 1"
    using assms by (auto simp: next_deliverable_signal_def Let_def split: if_splits)
  note tz = trailing_zeros_lowest [OF d]
  show v: "\<not> invalid_signal n" using tz(1) n by (simp add: invalid_signal_def NSIG_def)
  have "bit ?d (n - 1)" using tz(2) n by simp
  then have b: "bit (pending_for p t) (n - 1)" "\<not> bit (blocked_for p t) (n - 1)"
    by (auto simp: deliverable_for_def bit_and_iff bit_not_iff)
  with v show "(blocked_for p t AND sig_bit n) = 0" "(pending_for p t AND sig_bit n) \<noteq> 0"
    using and_sig_bit [of "blocked_for p t" n] and_sig_bit [of "pending_for p t" n] by auto
  fix m assume m: "m < n" "(pending_for p t AND sig_bit m) \<noteq> 0"
  then have vm: "\<not> invalid_signal m" "bit (pending_for p t) (m - 1)" by (auto simp: and_sig_bit)
  then have lt: "m - 1 < trailing_zeros ?d" using m n by (auto simp: invalid_signal_def)
  then have "\<not> bit ?d (m - 1)" "m - 1 < 64" using tz(1) tz(3) by auto
  with vm have "bit (blocked_for p t) (m - 1)"
    by (simp add: deliverable_for_def bit_and_iff bit_not_iff)
  with vm show "(blocked_for p t AND sig_bit m) \<noteq> 0" by (simp add: and_sig_bit)
qed

lemma pending_for_split:
  "(pending_for p t AND sig_bit n) \<noteq> 0 \<longleftrightarrow>
     (pending (signals p) AND sig_bit n) \<noteq> 0 \<or>
     (if is_main_thread p t then is_pending (main_thread_signals p) n
      else (\<exists>i. get_thread p t = Some i \<and> is_pending (thread_signals i) n))"
  by (auto simp: pending_for_def is_pending_def and_sig_bit bit_or_iff invalid_signal_def
      split: option.splits)

lemma consume_signal_for_load:
  assumes "(pending_for p t AND sig_bit n) \<noteq> 0"
  shows "signal_load (fst (consume_signal_for p t n)) < signal_load p"
proof (cases rule: consume_signal_for_cases [of p t n])
  case (directed s)
  then show ?thesis using consume_load [of s n]
    by (simp add: signal_load_def is_pending_def)
next
  case (worker i ys zs)
  then show ?thesis using consume_load [of "thread_signals i" n]
    by (simp add: signal_load_def is_pending_def)
next
  case shared
  then show ?thesis using consume_load [of "signals p" n] by (simp add: signal_load_def)
next
  case none
  then show ?thesis using assms pending_for_split [of p t n] by (auto split: if_splits)
qed

lemma dequeue_load:
  assumes "next_deliverable_signal p t = Some n"
  shows "signal_load (fst (dequeue_signal_for p t n)) < signal_load p"
proof (cases "pstate p = Stopped")
  case True
  then have "n = SIGKILL" "signal_pending_anywhere p n"
    using assms by (auto simp: next_deliverable_signal_def split: if_splits)
  with True clear_everywhere_load show ?thesis by (simp add: dequeue_signal_for_fst)
next
  case False
  from next_deliverable_pending(3) [OF assms False] consume_signal_for_load False show ?thesis
    by (simp add: dequeue_signal_for_fst)
qed

lemma default_continue_same:
  "apply_default_signal_action p n = (p', OutContinue) \<Longrightarrow> p' = p"
  by (auto simp: apply_default_signal_action_def record_stop_def
      split: default_act.splits prod.splits if_splits)

subsection \<open>The loops\<close>

function deliver_pending_signals :: "process \<Rightarrow> nat \<Rightarrow> process" where
  "deliver_pending_signals p t =
     (case next_deliverable_signal p t of
        None \<Rightarrow> p
      | Some n \<Rightarrow>
          (case handler (get_action (signals p) n) of
             Handler _ \<Rightarrow> p
           | Default \<Rightarrow>
               (let p1 = fst (dequeue_signal_for p t n)
                in case apply_default_signal_action p1 n of
                     (p2, OutContinue) \<Rightarrow>
                       if pstate p2 = Stopped \<or> pstate p2 = Exited then p2
                       else deliver_pending_signals p2 t
                   | (p2, _) \<Rightarrow> p2)
           | Ignore \<Rightarrow>
               (let p1 = fst (dequeue_signal_for p t n)
                in if pstate p1 = Stopped \<or> pstate p1 = Exited then p1
                   else deliver_pending_signals p1 t)))"
  by pat_completeness auto

termination
  by (relation "measure (\<lambda>(p, t). signal_load p)")
    (auto dest!: default_continue_same [OF sym] dest: dequeue_load)

declare deliver_pending_signals.simps [simp del]

definition SA_ONSTACK :: u32 where "SA_ONSTACK = 0x08000000"
definition SS_ONSTACK :: u32 where "SS_ONSTACK = 1"
definition SS_DISABLE :: u32 where "SS_DISABLE = 2"

text \<open>The record written into the caller's 44-byte buffer.\<close>

record signal_frame =
  frame_signum :: nat
  frame_handler :: u32
  frame_flags :: u32
  frame_value :: int
  frame_old_mask :: u64
  frame_code :: int
  frame_word1 :: int
  frame_word2 :: int
  frame_alt_sp :: nat
  frame_alt_size :: nat

definition enter_handler :: "process \<Rightarrow> nat \<Rightarrow> nat \<Rightarrow> u32 \<Rightarrow> signal_action \<Rightarrow> process \<times> signal_frame" where
  "enter_handler p t n idx action =
     (let (p1, (_, val, code, w1, w2)) = dequeue_signal_for p t n;
        (p2, saved) = take_sigsuspend_saved_mask_for p1 t;
        p3 = (case saved of Some m \<Rightarrow> fst (set_blocked_for p2 t m) | None \<Rightarrow> p2);
        old_mask = blocked_for p3 t;
        p4 = fst (set_blocked_for p3 t (old_mask OR sa_mask action OR sig_bit n));
        onstack = ((sa_flags action AND SA_ONSTACK) \<noteq> 0 \<and>
                   (alt_stack_flags p4 AND SS_DISABLE) = 0 \<and> alt_stack_sp p4 \<noteq> 0);
        switch = (onstack \<and> alt_stack_depth p4 = 0);
        p5 = (if onstack
              then p4\<lparr> alt_stack_depth := (alt_stack_depth p4 + 1) mod 2 ^ 32,
                       alt_stack_flags := alt_stack_flags p4 OR SS_ONSTACK \<rparr>
              else p4)
      in (p5, \<lparr> frame_signum = n, frame_handler = idx, frame_flags = sa_flags action,
                frame_value = val, frame_old_mask = old_mask, frame_code = code,
                frame_word1 = w1, frame_word2 = w2,
                frame_alt_sp = (if switch then alt_stack_sp p5 else 0),
                frame_alt_size = (if switch then alt_stack_size p5 else 0) \<rparr>))"

function kernel_dequeue_signal :: "process \<Rightarrow> nat \<Rightarrow> process \<times> signal_frame option" where
  "kernel_dequeue_signal p t =
     (case next_deliverable_signal p t of
        None \<Rightarrow> (p, None)
      | Some n \<Rightarrow>
          (let action = get_action (signals p) n
           in case handler action of
                Handler idx \<Rightarrow>
                  (let (p', frame) = enter_handler p t n idx action in (p', Some frame))
              | Default \<Rightarrow>
                  (let p1 = fst (dequeue_signal_for p t n)
                   in case apply_default_signal_action p1 n of
                        (p2, OutContinue) \<Rightarrow> kernel_dequeue_signal p2 t
                      | (p2, _) \<Rightarrow> (p2, None))
              | Ignore \<Rightarrow> kernel_dequeue_signal (fst (dequeue_signal_for p t n)) t))"
  by pat_completeness auto

termination
  by (relation "measure (\<lambda>(p, t). signal_load p)")
    (auto dest!: default_continue_same [OF sym] dest: dequeue_load)

declare kernel_dequeue_signal.simps [simp del]

text \<open>\<open>rt_sigreturn\<close> leaves the handler's stack; the guest restores the mask itself.\<close>

definition sys_rt_sigreturn :: "process \<Rightarrow> process" where
  "sys_rt_sigreturn p =
     (if alt_stack_depth p > 0
      then (let d = alt_stack_depth p - 1
            in p\<lparr> alt_stack_depth := d,
                  alt_stack_flags := if d = 0 then alt_stack_flags p AND NOT SS_ONSTACK
                                     else alt_stack_flags p \<rparr>)
      else p)"

section \<open>System calls\<close>

definition sys_sigtimedwait :: "process \<Rightarrow> nat \<Rightarrow> u64 \<Rightarrow> process \<times> siginfo result" where
  "sys_sigtimedwait p t msk =
     (let pend = pending_for p t AND msk
      in if pend \<noteq> 0 \<and> trailing_zeros pend + 1 < NSIG
         then
           (let n = trailing_zeros pend + 1
            in case consume_signal_for p t n of
                 (p1, None) \<Rightarrow> (p1, Err EAGAIN)
               | (p1, Some info) \<Rightarrow>
                   (let (p2, w1, w2) = siginfo_words p1 info
                    in (p2, Ok (n, info_value info, info_code info, w1, w2))))
         else (p, Err EAGAIN))"

definition unblockable :: u64 where
  "unblockable = sig_bit SIGKILL OR sig_bit SIGSTOP"

definition sys_sigsuspend :: "process \<Rightarrow> nat \<Rightarrow> u64 \<Rightarrow> process \<times> errno" where
  "sys_sigsuspend p t msk =
     (let new_mask = msk AND NOT unblockable;
        p1 = (if sigsuspend_saved_mask_for p t = None
              then (let old = blocked_for p t
                    in fst (set_blocked_for (set_sigsuspend_saved_mask_for p t (Some old)) t new_mask))
              else p)
      in (p1, if deliverable_for p1 t \<noteq> 0 then EINTR else EAGAIN))"

definition sys_pause :: "process \<Rightarrow> nat \<Rightarrow> process \<times> errno" where
  "sys_pause p t = sys_sigsuspend p t (blocked (signals p))"

definition decode_handler :: "u32 \<Rightarrow> signal_handler" where
  "decode_handler v = (if v = 0 then Default else if v = 1 then Ignore else Handler v)"

fun encode_handler :: "signal_handler \<Rightarrow> u32" where
  "encode_handler Default = 0"
| "encode_handler Ignore = 1"
| "encode_handler (Handler v) = v"

definition sys_sigaction ::
  "process \<Rightarrow> nat \<Rightarrow> u32 \<Rightarrow> u32 \<Rightarrow> u64 \<Rightarrow> process \<times> (u32 \<times> u32 \<times> u64) result" where
  "sys_sigaction p n hv flg msk =
     (if n = 0 \<or> n \<ge> NSIG then (p, Err EINVAL)
      else if n = SIGKILL \<or> n = SIGSTOP then (p, Err EINVAL)
      else
        (let h = decode_handler hv;
           p1 = (if should_discard_pending n h then discard_pending_signal p n else p)
         in case on_signals (\<lambda>s. set_action s n \<lparr> handler = h, sa_flags = flg, sa_mask = msk \<rparr>) p1 of
              (p2, None) \<Rightarrow> (p2, Err EINVAL)
            | (p2, Some old) \<Rightarrow>
                (if should_discard_pending n h then clear_directed_signal p2 n else p2,
                 Ok (encode_handler (handler old), sa_flags old, sa_mask old))))"

definition sys_signal :: "process \<Rightarrow> nat \<Rightarrow> u32 \<Rightarrow> process \<times> u32 result" where
  "sys_signal p n hv =
     (if n = 0 \<or> n \<ge> NSIG \<or> n = SIGKILL \<or> n = SIGSTOP then (p, Err EINVAL)
      else
        (let h = decode_handler hv;
           p1 = (if should_discard_pending n h then discard_pending_signal p n else p)
         in case on_signals (\<lambda>s. set_handler s n h) p1 of
              (p2, None) \<Rightarrow> (p2, Err EINVAL)
            | (p2, Some old) \<Rightarrow>
                (if should_discard_pending n h then clear_directed_signal p2 n else p2,
                 Ok (encode_handler old))))"

definition sys_sigprocmask :: "process \<Rightarrow> nat \<Rightarrow> nat \<Rightarrow> u64 \<Rightarrow> process \<times> u64 result" where
  "sys_sigprocmask p t how msk =
     (let old = blocked_for p t;
        new = (if how = 0 then Some (old OR msk)
               else if how = 1 then Some (old AND NOT msk)
               else if how = 2 then Some msk else None)
      in case new of
           None \<Rightarrow> (p, Err EINVAL)
         | Some w \<Rightarrow> (fst (set_blocked_for p t (w AND NOT unblockable)), Ok old))"

section \<open>POSIX timers\<close>

definition timer_clock_to_host_clock :: "nat \<Rightarrow> nat option" where
  "timer_clock_to_host_clock clock =
     (if clock = 0 \<or> clock = 1 then Some clock
      else if clock = 7 then Some 1
      else None)"

text \<open>\<open>sev\<close> is the guest's sigevent: value, signal number, notification mode and thread.\<close>

definition kernel_timer_create ::
  "process \<Rightarrow> nat \<Rightarrow> (int \<times> nat \<times> nat \<times> nat) option \<Rightarrow> nat \<Rightarrow> process \<times> nat result" where
  "kernel_timer_create p clock sev t =
     (case timer_clock_to_host_clock clock of
        None \<Rightarrow> (p, Err EINVAL)
      | Some host_clock \<Rightarrow>
          (let (val, signo, notify, target) =
             (case sev of None \<Rightarrow> (0, SIGALRM, SIGEV_SIGNAL, 0) | Some e \<Rightarrow> e)
           in case normalize_posix_timer_signo notify signo of
                Inl e \<Rightarrow> (p, Err e)
              | Inr sg \<Rightarrow>
                  if notify = SIGEV_THREAD_ID \<and> \<not> is_live_explicit_tid p target
                  then (p, Err EINVAL)
                  else
                    (let tm = \<lparr> clock_id = host_clock, sigev_signo = sg, sigev_value = val,
                           sigev_notify = notify, sigev_tid = target,
                           interval_sec = 0, interval_nsec = 0, value_sec = 0, value_nsec = 0,
                           notification_pending = False, overrun_current = 0, overrun_last = 0 \<rparr>;
                       (ts, tmr) = slot_insert (posix_timers p) tm
                     in (deliver_pending_signals (p\<lparr> posix_timers := ts \<rparr>) t, Ok tmr))))"

definition kernel_timer_delete :: "process \<Rightarrow> nat \<Rightarrow> nat \<Rightarrow> process \<times> unit result" where
  "kernel_timer_delete p tmr t =
     (case slot (posix_timers p) tmr of
        None \<Rightarrow> (p, Err EINVAL)
      | Some _ \<Rightarrow>
          (let p1 = fst (remove_posix_timer_notification p tmr);
             p2 = p1\<lparr> posix_timers := (posix_timers p1)[tmr := None] \<rparr>
           in (deliver_pending_signals p2 t, Ok ())))"

text \<open>The result is the thread to wake: \<open>Ok 0\<close> for the whole process.\<close>

definition queue_posix_timer_fire :: "process \<Rightarrow> nat \<Rightarrow> process \<times> nat result" where
  "queue_posix_timer_fire p tmr =
     (case slot (posix_timers p) tmr of
        None \<Rightarrow> (p, Err EINVAL)
      | Some tm \<Rightarrow>
          if sigev_notify tm = SIGEV_NONE then (p, Err EAGAIN)
          else if should_discard_pending (sigev_signo tm) (get_handler (signals p) (sigev_signo tm))
          then (p, Err EAGAIN)
          else if notification_pending tm
          then (p\<lparr> posix_timers := (posix_timers p)[tmr := Some (tm\<lparr> overrun_current :=
                  min (overrun_current tm + 1) I32_MAX \<rparr>)] \<rparr>, Err EAGAIN)
          else
            (let p1 = p\<lparr> posix_timers := (posix_timers p)[tmr := Some (tm\<lparr> notification_pending := True \<rparr>)] \<rparr>
             in if sigev_notify tm = SIGEV_SIGNAL
                then (fst (on_signals (\<lambda>s. raise_timer s (sigev_signo tm) (sigev_value tm) tmr) p1), Ok 0)
                else if sigev_notify tm = SIGEV_THREAD_ID
                then
                  (case raise_timer_for_thread p1 (sigev_tid tm) (sigev_signo tm) (sigev_value tm) tmr of
                     (p2, True) \<Rightarrow> (p2, Ok (sigev_tid tm))
                   | (p2, False) \<Rightarrow>
                       (case slot (posix_timers p2) tmr of
                          Some tm2 \<Rightarrow>
                            (p2\<lparr> posix_timers := (posix_timers p2)[tmr :=
                               Some (tm2\<lparr> notification_pending := False \<rparr>)] \<rparr>, Err ESRCH)
                        | None \<Rightarrow> (p2, Err ESRCH)))
                else (p1, Err EINVAL)))"

section \<open>Exec\<close>

text \<open>
  The part of an exec that concerns signals: the calling thread becomes the main thread with
  its mask and directed queue, and the state of the old image is reset.
\<close>

definition exec_adopt_caller :: "process \<Rightarrow> nat \<Rightarrow> process result" where
  "exec_adopt_caller p caller =
     (if pstate p = Exited \<or> pstate p = Limbo then Err ESRCH
      else if caller \<noteq> 0 \<and> caller \<noteq> pid p
      then
        (case thread_position p caller of
           None \<Rightarrow> Err ESRCH
         | Some i \<Rightarrow>
             (let c = thread_signals (threads p ! i)
              in Ok (p\<lparr> threads := remove_at i (threads p),
                        signals := (signals p)\<lparr> blocked := thread_blocked c \<rparr>,
                        main_thread_signals := c \<rparr>)))
      else Ok p)"

definition exec_reset_image :: "process \<Rightarrow> process" where
  "exec_reset_image p =
     (let p1 = p\<lparr> signals := reset_dispositions_for_exec (signals p), exit_status := 0,
                  exit_signal := 0, threads := [], next_tid := 0, proc_saved_mask := None,
                  alt_stack_sp := 0, alt_stack_flags := 2, alt_stack_size := 0,
                  alt_stack_depth := 0 \<rparr>;
        p2 = fold (\<lambda>tmr p. fst (remove_posix_timer_notification p tmr))
               [0..<length (posix_timers p1)] p1
      in p2\<lparr> posix_timers := [] \<rparr>)"

definition commit_exec_signals :: "process \<Rightarrow> nat \<Rightarrow> process \<times> unit result" where
  "commit_exec_signals p caller =
     (case exec_adopt_caller p caller of
        Inl e \<Rightarrow> (p, Err e)
      | Inr p1 \<Rightarrow> (exec_reset_image p1, Ok ()))"

end
