(* ===== verification/Signal_Delivery.thy ===== *)
theory Signal_Delivery
  imports Process_Signals
begin

text \<open>
  What the signal machinery of a process guarantees.  \<open>process_wf\<close> relates the pending
  bits, the queues and the POSIX timers; every operation keeps it, so it holds in every state
  a process can reach (\<open>signal_step\<close>).  The delivery loop, the handler frame and job
  control are described on top of it.
\<close>

section \<open>The invariant\<close>

definition timer_part :: "('a pending_queue_scheme) \<Rightarrow> rt_sig_entry multiset" where
  "timer_part s = filter_mset (\<lambda>e. timer_id e \<noteq> None) (mset (rt_queue s))"

definition timer_entries :: "process \<Rightarrow> rt_sig_entry multiset" where
  "timer_entries p = timer_part (signals p) + timer_part (main_thread_signals p) +
     sum_list (map (\<lambda>i. timer_part (thread_signals i)) (threads p))"

text \<open>A queued timer notification belongs to a live timer that knows of it, carries that timer's
  signal, and is the only one of that timer.\<close>

definition timers_ok :: "posix_timer_state option list \<Rightarrow> rt_sig_entry multiset \<Rightarrow> bool" where
  "timers_ok ts E \<longleftrightarrow>
     (\<forall>e k. e \<in># E \<longrightarrow> timer_id e = Some k \<longrightarrow>
        (\<exists>tm. slot ts k = Some tm \<and> notification_pending tm \<and> sigev_signo tm = signum e)) \<and>
     (\<forall>k. size (filter_mset (\<lambda>e. timer_id e = Some k) E) \<le> 1)"

definition queues_wf :: "process \<Rightarrow> bool" where
  "queues_wf p \<longleftrightarrow> pending_wf (signals p) \<and> pending_wf (main_thread_signals p) \<and>
     (\<forall>i \<in> set (threads p). pending_wf (thread_signals i))"

definition dispositions_wf :: "signal_state \<Rightarrow> bool" where
  "dispositions_wf s \<longleftrightarrow> length (actions s) = 65 \<and>
     handler (actions s ! SIGKILL) = Default \<and> handler (actions s ! SIGSTOP) = Default"

definition process_wf :: "process \<Rightarrow> bool" where
  "process_wf p \<longleftrightarrow> queues_wf p \<and> dispositions_wf (signals p) \<and>
     timers_ok (posix_timers p) (timer_entries p)"

section \<open>Timer entries under the queue operations\<close>

lemma timers_ok_mono: "timers_ok ts E \<Longrightarrow> E' \<subseteq># E \<Longrightarrow> timers_ok ts E'"
proof -
  assume ok: "timers_ok ts E" and sub: "E' \<subseteq># E"
  have "size (filter_mset (\<lambda>e. timer_id e = Some k) E') \<le> size (filter_mset (\<lambda>e. timer_id e = Some k) E)" for k
    by (intro size_mset_mono multiset_filter_mono sub)
  with ok show ?thesis using mset_subset_eqD [OF sub] unfolding timers_ok_def
    by (meson le_trans)
qed

lemma timers_ok_update:
  assumes "timers_ok ts E" and "\<And>e. e \<in># E \<Longrightarrow> timer_id e \<noteq> Some k"
    and "\<And>j. j \<noteq> k \<Longrightarrow> slot ts' j = slot ts j"
  shows "timers_ok ts' E"
  using assms unfolding timers_ok_def by metis

lemma timers_ok_touch:
  assumes "timers_ok ts E" and "slot ts k = Some tm"
    and "notification_pending tm' = notification_pending tm" and "sigev_signo tm' = sigev_signo tm"
  shows "timers_ok (ts[k := Some tm']) E"
proof -
  have "slot (ts[k := Some tm']) = (slot ts)(k := Some tm')"
    using slot_Some_less [OF assms(2)] by (rule slot_update)
  then show ?thesis using assms by (auto simp: timers_ok_def)
qed

lemma timer_part_raise_queued [simp]: "timer_part (raise_queued s n val code) = timer_part s"
proof -
  have "filter (\<lambda>e. timer_id e \<noteq> None) (rt_queue (raise_queued s n val code)) =
      filter (\<lambda>e. timer_id e \<noteq> None) (rt_queue s)"
    by (auto simp: raise_queued_def Let_def split: option.splits intro!: update_first_filter_other)
  then show ?thesis unfolding timer_part_def by (metis mset_filter)
qed

lemma timer_part_clear: "timer_part (clear_pending s n) \<subseteq># timer_part s"
  by (auto simp: timer_part_def clear_pending_def intro!: multiset_filter_mono)

lemma timer_part_consume:
  assumes "consume_pending_info s n = (s', info)"
  shows "timer_part s' \<subseteq># timer_part s"
    and "info_timer info = Some k \<Longrightarrow>
      \<exists>e. timer_id e = Some k \<and> add_mset e (timer_part s') \<subseteq># timer_part s"
proof -
  show "timer_part s' \<subseteq># timer_part s"
  proof (cases "invalid_signal n")
    case True
    with assms show ?thesis by (auto simp: consume_pending_info_def)
  next
    case False
    from consume_instances(5) [OF False assms] have "mset (rt_queue s') \<subseteq># mset (rt_queue s)" by simp
    then show ?thesis unfolding timer_part_def by (rule multiset_filter_mono)
  qed
  assume k: "info_timer info = Some k"
  then have n: "\<not> invalid_signal n"
    using assms by (auto simp: consume_pending_info_def pending_signal_info_default_def)
  obtain e rest where e: "instances s n = e # rest"
    using consume_instances(3) [OF n assms] k
    by (cases "instances s n") (auto simp: pending_signal_info_default_def)
  with consume_instances(3) [OF n assms] k have te: "timer_id e = Some k"
    by (simp add: entry_info_def)
  have "mset (rt_queue s) = add_mset e (mset (rt_queue s'))"
    using consume_instances(5) [OF n assms] e by simp
  with te have "timer_part s = add_mset e (timer_part s')" by (simp add: timer_part_def)
  with te show "\<exists>e. timer_id e = Some k \<and> add_mset e (timer_part s') \<subseteq># timer_part s" by auto
qed

lemma consume_fst_wf: "pending_wf s \<Longrightarrow> pending_wf (fst (consume_pending_info s n))"
  using consume_wf [OF _ prod.collapse [symmetric]] .

lemmas timer_part_consume_fst = timer_part_consume(1) [OF prod.collapse [symmetric]]
lemmas timer_part_consume_timer = timer_part_consume(2) [OF prod.collapse [symmetric]]

definition timer_entry :: "nat \<Rightarrow> int \<Rightarrow> nat \<Rightarrow> rt_sig_entry" where
  "timer_entry n val k = \<lparr> signum = n, si_value = val, si_code = - 2, timer_id = Some k \<rparr>"

lemma timer_part_raise_timer:
  "timer_part (fst (raise_timer s n val k)) =
     (if invalid_signal n then timer_part s else add_mset (timer_entry n val k) (timer_part s))"
  by (auto simp: raise_timer_def timer_part_def timer_entry_def Let_def)

section \<open>Operations on one queue of the process\<close>

lemma timer_entries_signals:
  "timer_part s' \<subseteq># timer_part (signals p) + X \<Longrightarrow>
     timer_entries (p\<lparr> signals := s' \<rparr>) \<subseteq># timer_entries p + X"
  by (simp add: timer_entries_def subset_mset.add_mono add.commute add.left_commute)

lemma timer_entries_on_directed:
  assumes "\<And>s. timer_part (fst (f s)) \<subseteq># timer_part s + X"
  shows "timer_entries (fst (on_directed p t f)) \<subseteq># timer_entries p + X"
proof (cases rule: on_directed_cases [of p t f])
  case main
  have "timer_part (fst (f (main_thread_signals p))) + R \<subseteq># timer_part (main_thread_signals p) + X + R" for R
    using assms by (rule subset_mset.add_right_mono)
  then show ?thesis using main
    by (simp add: timer_entries_def ac_simps)
next
  case (worker i ys zs)
  have "timer_part (fst (f (thread_signals i))) + R \<subseteq># timer_part (thread_signals i) + X + R" for R
    using assms by (rule subset_mset.add_right_mono)
  then show ?thesis using worker
    by (simp add: timer_entries_def ac_simps)
next
  case gone
  then show ?thesis by simp
qed

lemma queues_wf_on_directed:
  assumes "queues_wf p" and "\<And>s. pending_wf s \<Longrightarrow> pending_wf (fst (f s))"
  shows "queues_wf (fst (on_directed p t f))"
  using assms by (cases rule: on_directed_cases [of p t f]) (auto simp: queues_wf_def)

lemma on_signals_fst: "fst (on_signals f p) = p\<lparr> signals := fst (f (signals p)) \<rparr>"
  by (simp add: on_signals_def split: prod.splits)

lemma on_directed_keeps [simp]:
  "signals (fst (on_directed p t f)) = signals p" "pstate (fst (on_directed p t f)) = pstate p"
  "posix_timers (fst (on_directed p t f)) = posix_timers p" "pid (fst (on_directed p t f)) = pid p"
  by (cases rule: on_directed_cases [of p t f]; simp)+

lemma process_wfI:
  assumes "process_wf p" and "queues_wf p'" and "signals p' = signals p \<or> dispositions_wf (signals p')"
    and "posix_timers p' = posix_timers p" and "timer_entries p' \<subseteq># timer_entries p"
  shows "process_wf p'"
  using assms timers_ok_mono [of "posix_timers p" "timer_entries p" "timer_entries p'"]
  unfolding process_wf_def by metis

lemma on_directed_wf:
  assumes "process_wf p" and "\<And>s. pending_wf s \<Longrightarrow> pending_wf (fst (f s))"
    and "\<And>s. timer_part (fst (f s)) \<subseteq># timer_part s"
  shows "process_wf (fst (on_directed p t f))"
proof (rule process_wfI [OF assms(1)])
  show "queues_wf (fst (on_directed p t f))"
    using assms(1,2) by (intro queues_wf_on_directed) (simp_all add: process_wf_def)
  show "timer_entries (fst (on_directed p t f)) \<subseteq># timer_entries p"
    using timer_entries_on_directed [of f "{#}" p t] assms(3) by simp
qed simp_all

lemma set_signals_wf:
  assumes "process_wf p" and "pending_wf s" and "dispositions_wf s"
    and "timer_part s \<subseteq># timer_part (signals p)"
  shows "process_wf (p\<lparr> signals := s \<rparr>)"
proof (rule process_wfI [OF assms(1)])
  show "queues_wf (p\<lparr> signals := s \<rparr>)" using assms(1,2) by (simp add: process_wf_def queues_wf_def)
  show "timer_entries (p\<lparr> signals := s \<rparr>) \<subseteq># timer_entries p"
    using timer_entries_signals [of s p "{#}"] assms(4) by simp
qed (simp_all add: assms)

lemma dispositions_wf_cong: "actions s' = actions s \<Longrightarrow> dispositions_wf s' = dispositions_wf s"
  by (simp add: dispositions_wf_def)

lemma actions_queue_ops [simp]:
  "actions (clear_pending s n) = actions s" "actions (raise_queued s n val code) = actions s"
  "actions (fst (consume_pending_info s n)) = actions s"
  "actions (fst (raise_timer s n val k)) = actions s"
  "actions (fst (remove_timer_info s k)) = actions s"
  "blocked (clear_pending s n) = blocked s" "blocked (raise_queued s n val code) = blocked s"
  "blocked (fst (consume_pending_info s n)) = blocked s"
  "blocked (fst (raise_timer s n val k)) = blocked s"
  "blocked (fst (remove_timer_info s k)) = blocked s"
  by (simp_all add: clear_pending_def raise_queued_def consume_pending_info_def raise_timer_def
      remove_timer_info_def Let_def split: option.splits prod.splits)

lemma raise_internal_facts:
  "actions (fst (raise_internal s n val code)) = actions s"
  "timer_part (fst (raise_internal s n val code)) = timer_part s"
  by (auto simp: raise_internal_def)

lemma in_sum_list_mset: "e \<in># sum_list (map f xs) \<longleftrightarrow> (\<exists>x \<in> set xs. e \<in># f x)"
  for f :: "'a \<Rightarrow> 'b multiset"
  by (induction xs) auto

lemma sum_timer_part_clear:
  "sum_list (map (\<lambda>i. timer_part (clear_pending (thread_signals i) n)) ts) \<subseteq>#
   sum_list (map (\<lambda>i. timer_part (thread_signals i)) ts)"
  by (induction ts) (auto intro: subset_mset.add_mono timer_part_clear)

lemma timer_entries_clear_directed: "timer_entries (clear_directed_signal p n) \<subseteq># timer_entries p"
  by (auto simp: timer_entries_def clear_directed_signal_def o_def
      intro!: subset_mset.add_mono timer_part_clear sum_timer_part_clear)

lemma timer_entries_clear_everywhere: "timer_entries (clear_signal_everywhere p n) \<subseteq># timer_entries p"
  by (auto simp: timer_entries_def clear_signal_everywhere_def clear_directed_signal_def o_def
      intro!: subset_mset.add_mono timer_part_clear sum_timer_part_clear)

lemma clear_everywhere_wf:
  assumes "process_wf p"
  shows "process_wf (clear_signal_everywhere p n)"
proof (rule process_wfI [OF assms])
  show "queues_wf (clear_signal_everywhere p n)"
    using assms by (auto simp: process_wf_def queues_wf_def clear_signal_everywhere_def
        clear_directed_signal_def intro: clear_pending_wf)
  show "timer_entries (clear_signal_everywhere p n) \<subseteq># timer_entries p"
    by (rule timer_entries_clear_everywhere)
  show "signals (clear_signal_everywhere p n) = signals p \<or>
      dispositions_wf (signals (clear_signal_everywhere p n))"
    using assms by (simp add: process_wf_def clear_signal_everywhere_def clear_directed_signal_def
        dispositions_wf_def)
qed (simp add: clear_signal_everywhere_def clear_directed_signal_def)

text \<open>Changes of the life cycle, masks, identities and stacks do not touch the invariant.\<close>

definition same_queues :: "process \<Rightarrow> process \<Rightarrow> bool" where
  "same_queues p p' \<longleftrightarrow>
     pending (signals p') = pending (signals p) \<and> rt_queue (signals p') = rt_queue (signals p) \<and>
     actions (signals p') = actions (signals p) \<and>
     pending (main_thread_signals p') = pending (main_thread_signals p) \<and>
     rt_queue (main_thread_signals p') = rt_queue (main_thread_signals p) \<and>
     map (\<lambda>i. (pending (thread_signals i), rt_queue (thread_signals i))) (threads p') =
     map (\<lambda>i. (pending (thread_signals i), rt_queue (thread_signals i))) (threads p) \<and>
     posix_timers p' = posix_timers p"

lemma pending_wf_cong:
  "pending s' = pending s \<Longrightarrow> rt_queue s' = rt_queue s \<Longrightarrow> pending_wf s' = pending_wf s"
  by (simp add: pending_wf_def instances_def)

lemma same_queues_wf:
  assumes "process_wf p" and "same_queues p p'"
  shows "process_wf p'"
proof -
  let ?v = "\<lambda>i. (pending (thread_signals i), rt_queue (thread_signals i))"
  have eq: "map ?v (threads p') = map ?v (threads p)" using assms(2) by (simp add: same_queues_def)
  have "(\<forall>i \<in> set (threads p'). pending_wf (thread_signals i)) \<longleftrightarrow>
      (\<forall>x \<in> set (map ?v (threads p')). pending_wf \<lparr> pending = fst x, rt_queue = snd x \<rparr>)"
    by (auto simp: pending_wf_def instances_def)
  also have "\<dots> \<longleftrightarrow> (\<forall>i \<in> set (threads p). pending_wf (thread_signals i))"
    unfolding eq by (auto simp: pending_wf_def instances_def)
  finally have "queues_wf p'"
    using assms pending_wf_cong [of "signals p'" "signals p"]
      pending_wf_cong [of "main_thread_signals p'" "main_thread_signals p"]
    by (simp add: process_wf_def queues_wf_def same_queues_def)
  moreover have "map (\<lambda>i. timer_part (thread_signals i)) (threads p') =
      map (\<lambda>i. timer_part (thread_signals i)) (threads p)"
    using arg_cong [OF eq, of "map (\<lambda>x. filter_mset (\<lambda>e. timer_id e \<noteq> None) (mset (snd x)))"]
    by (simp add: timer_part_def o_def)
  then have "timer_entries p' = timer_entries p"
    using assms(2) by (simp add: same_queues_def timer_entries_def timer_part_def)
  ultimately show ?thesis
    using assms by (simp add: process_wf_def same_queues_def dispositions_wf_def)
qed

section \<open>Every operation keeps the invariant\<close>

lemma same_queues_life_cycle:
  "same_queues p (fst (record_stop p n))" "same_queues p (fst (record_continue p))"
  "same_queues p (fst (record_normal_exit p st))" "same_queues p (fst (record_signal_exit p n))"
  "same_queues p (terminate_process_by_signal p n)" "same_queues p (sys_exit p st)"
  "same_queues p (fst (apply_default_signal_action p n))"
  by (auto simp: same_queues_def record_stop_def record_continue_def record_normal_exit_def
      record_signal_exit_def terminate_process_by_signal_def sys_exit_by_signal_def sys_exit_def
      push_wake_def set_wait_event_def Let_def apply_default_signal_action_def o_def
      split: default_act.splits)

lemma same_queues_update_thread:
  assumes "\<And>s. pending (f s) = pending s \<and> rt_queue (f s) = rt_queue s"
  shows "same_queues p (update_thread p t f)"
proof -
  have "map (\<lambda>i. (pending (thread_signals i), rt_queue (thread_signals i))) ts =
      map (\<lambda>i. (pending (thread_signals i), rt_queue (thread_signals i))) (threads p)"
    if "update_first (\<lambda>i. tid i = t) (\<lambda>i. i\<lparr> thread_signals := f (thread_signals i) \<rparr>) (threads p) = Some ts"
    for ts
    using that by (rule update_first_map) (simp add: assms)
  then show ?thesis by (auto simp: same_queues_def update_thread_def split: option.splits)
qed

lemma same_queues_masks:
  "same_queues p (fst (set_blocked_for p t w))" "same_queues p (set_sigsuspend_saved_mask_for p t m)"
  "same_queues p (fst (take_sigsuspend_saved_mask_for p t))"
  using same_queues_update_thread [of "\<lambda>s. s\<lparr> thread_blocked := w \<rparr>" p t]
    same_queues_update_thread [of "\<lambda>s. s\<lparr> sigsuspend_saved_mask := m \<rparr>" p t]
    same_queues_update_thread [of "\<lambda>s. s\<lparr> sigsuspend_saved_mask := None \<rparr>" p t]
  by (auto simp: set_blocked_for_def set_sigsuspend_saved_mask_for_def
      take_sigsuspend_saved_mask_for_def same_queues_def split: option.splits)

lemmas mask_wf = same_queues_wf [OF _ same_queues_masks(1)] same_queues_wf [OF _ same_queues_masks(2)]
  same_queues_wf [OF _ same_queues_masks(3)]

lemmas life_cycle_wf = same_queues_wf [OF _ same_queues_life_cycle(1)]
  same_queues_wf [OF _ same_queues_life_cycle(2)] same_queues_wf [OF _ same_queues_life_cycle(5)]
  same_queues_wf [OF _ same_queues_life_cycle(6)] same_queues_wf [OF _ same_queues_life_cycle(7)]

lemma prepare_wf: "process_wf p \<Longrightarrow> process_wf (prepare_signal_generation p n)"
  by (auto simp: prepare_signal_generation_def intro!: life_cycle_wf clear_everywhere_wf)

lemma raise_signal_wf:
  "process_wf p \<Longrightarrow> process_wf (fst (raise_signal p n))"
  "process_wf p \<Longrightarrow> process_wf (fst (raise_signal_with_value p n val))"
proof -
  have "process_wf (fst (on_signals (\<lambda>s. raise_internal s n v c) q))" if "process_wf q" for q v c
    using set_signals_wf [OF that, of "fst (raise_internal (signals q) n v c)"]
      raise_internal_wf [of "signals q" n v c] raise_internal_facts [of "signals q" n v c] that
      dispositions_wf_cong [of "fst (raise_internal (signals q) n v c)" "signals q"]
    by (simp add: on_signals_fst process_wf_def queues_wf_def)
  then show "process_wf p \<Longrightarrow> process_wf (fst (raise_signal p n))"
    "process_wf p \<Longrightarrow> process_wf (fst (raise_signal_with_value p n val))"
    by (simp_all add: raise_signal_def raise_signal_with_value_def raise_def raise_with_value_def
        prepare_wf)
qed

lemma raise_directed_fst:
  "fst (raise_directed p t n f) =
     (let p1 = prepare_signal_generation p n
      in if invalid_signal n \<or> should_discard_pending n (get_handler (signals p1) n) then p1
         else fst (on_directed p1 t f))"
  by (simp add: raise_directed_def Let_def split: prod.splits)

lemma raise_for_thread_wf:
  "process_wf p \<Longrightarrow> process_wf (fst (raise_for_thread p t n))"
  "process_wf p \<Longrightarrow> process_wf (fst (raise_for_thread_with_value p t n val))"
proof -
  have w: "pending_wf s \<Longrightarrow> pending_wf (fst (thread_raise_internal s n v c))"
    and tp: "timer_part (fst (thread_raise_internal s n v c)) = timer_part s" for s v c
    by (auto simp: thread_raise_internal_def intro: raise_queued_wf)
  have "process_wf (fst (raise_directed p t n (\<lambda>s. thread_raise_internal s n v c)))"
    if "process_wf p" for v c
    unfolding raise_directed_fst Let_def using that
    by (auto intro!: on_directed_wf prepare_wf w simp: tp)
  then show "process_wf p \<Longrightarrow> process_wf (fst (raise_for_thread p t n))"
    "process_wf p \<Longrightarrow> process_wf (fst (raise_for_thread_with_value p t n val))"
    by (simp_all add: raise_for_thread_def raise_for_thread_with_value_def thread_raise_def
        thread_raise_with_value_def)
qed

lemma consume_signal_for_wf:
  assumes wf: "process_wf p" and c: "consume_signal_for p t n = (p', r)"
  shows "process_wf p'" and "posix_timers p' = posix_timers p"
    and "r = Some info \<Longrightarrow> info_timer info = Some k \<Longrightarrow> e \<in># timer_entries p' \<Longrightarrow> timer_id e \<noteq> Some k"
proof -
  have q: "pending_wf (signals p)" "pending_wf (main_thread_signals p)"
    "\<And>i. i \<in> set (threads p) \<Longrightarrow> pending_wf (thread_signals i)"
    using wf by (simp_all add: process_wf_def queues_wf_def)
  note cw = consume_fst_wf and tp = timer_part_consume_fst
  have ok: "timers_ok (posix_timers p) (timer_entries p)" using wf by (simp add: process_wf_def)
  have gone: "e \<in># E' \<Longrightarrow> timer_id e \<noteq> Some k"
    if "add_mset e' E' \<subseteq># timer_entries p" "timer_id e' = Some k" for e e' E' k
  proof
    assume e: "e \<in># E'" "timer_id e = Some k"
    have "{# e', e #} \<subseteq># add_mset e' E'" using e(1) by simp
    then have "filter_mset (\<lambda>e. timer_id e = Some k) {# e', e #} \<subseteq>#
        filter_mset (\<lambda>e. timer_id e = Some k) (timer_entries p)"
      by (intro multiset_filter_mono) (use that(1) in \<open>blast intro: subset_mset.order_trans\<close>)
    from size_mset_mono [OF this] e(2) that(2)
    have "2 \<le> size (filter_mset (\<lambda>e. timer_id e = Some k) (timer_entries p))" by simp
    with ok show False unfolding timers_ok_def by (metis Suc_1 Suc_n_not_le_n le_trans)
  qed
  show "posix_timers p' = posix_timers p"
    by (cases rule: consume_signal_for_cases [of p t n]) (use c in auto)
  show "process_wf p'"
  proof (cases rule: consume_signal_for_cases [of p t n])
    case (directed s)
    then have p': "p' = p\<lparr> main_thread_signals := fst (consume_pending_info s n) \<rparr>" using c by simp
    show ?thesis
      by (rule process_wfI [OF wf])
        (use directed q cw tp [of s] in \<open>auto simp: p' queues_wf_def timer_entries_def\<close>)
  next
    case (worker i ys zs)
    then have p': "p' = p\<lparr> threads := ys @ i\<lparr> thread_signals := fst (consume_pending_info (thread_signals i) n) \<rparr> # zs \<rparr>"
      using c by simp
    show ?thesis
      by (rule process_wfI [OF wf])
        (use worker q cw tp [of "thread_signals i"] in \<open>auto simp: p' queues_wf_def timer_entries_def\<close>)
  next
    case shared
    then have p': "p' = p\<lparr> signals := fst (consume_pending_info (signals p) n) \<rparr>" using c by simp
    show ?thesis unfolding p'
      by (rule set_signals_wf [OF wf])
        (use q cw tp wf in \<open>auto simp: process_wf_def dispositions_wf_def\<close>)
  next
    case none
    then show ?thesis using c wf by simp
  qed
  assume r: "r = Some info" "info_timer info = Some k" and e: "e \<in># timer_entries p'"
  have "\<exists>e'. timer_id e' = Some k \<and> add_mset e' (timer_entries p') \<subseteq># timer_entries p"
  proof (cases rule: consume_signal_for_cases [of p t n])
    case (directed s)
    with timer_part_consume_timer [of s n k] c r show ?thesis by (auto simp: timer_entries_def)
  next
    case (worker i ys zs)
    with timer_part_consume_timer [of "thread_signals i" n k] c r show ?thesis by (auto simp: timer_entries_def)
  next
    case shared
    with timer_part_consume_timer [of "signals p" n k] c r show ?thesis by (auto simp: timer_entries_def)
  next
    case none
    with c r show ?thesis by simp
  qed
  with gone e show "timer_id e \<noteq> Some k" by blast
qed

lemma accept_wf:
  assumes "process_wf p" and "\<And>e. e \<in># timer_entries p \<Longrightarrow> timer_id e \<noteq> Some k"
  shows "process_wf (fst (accept_posix_timer_notification p k))"
proof -
  have same: "timer_entries (fst (accept_posix_timer_notification p k)) = timer_entries p"
    by (simp add: timer_entries_def)
  have "timers_ok (posix_timers (fst (accept_posix_timer_notification p k))) (timer_entries p)"
  proof (rule timers_ok_update [where ts = "posix_timers p" and k = k])
    show "timers_ok (posix_timers p) (timer_entries p)" using assms(1) by (simp add: process_wf_def)
    show "slot (posix_timers (fst (accept_posix_timer_notification p k))) j = slot (posix_timers p) j"
      if "j \<noteq> k" for j
      using that by (auto simp: accept_posix_timer_notification_def Let_def slot_def
          split: option.splits)
  qed (rule assms(2))
  then show ?thesis using assms(1) same by (simp add: process_wf_def queues_wf_def)
qed

lemma dequeue_signal_for_wf:
  assumes "process_wf p"
  shows "process_wf (fst (dequeue_signal_for p t n))"
proof (cases "pstate p = Stopped \<and> n = SIGKILL")
  case True
  then show ?thesis using clear_everywhere_wf [OF assms] by (simp add: dequeue_signal_for_fst)
next
  case False
  obtain p1 r where c: "consume_signal_for p t n = (p1, r)" by fastforce
  note cw = consume_signal_for_wf [OF assms c]
  show ?thesis
  proof (cases r)
    case None
    then show ?thesis using cw(1) c False
      by (auto simp: dequeue_signal_for_fst siginfo_words_fst pending_signal_info_default_def)
  next
    case (Some info)
    then show ?thesis using cw(1) c False accept_wf [OF cw(1) cw(3) [OF Some]]
      by (auto simp: dequeue_signal_for_fst siginfo_words_fst split: option.splits)
  qed
qed

lemma deliver_wf: "process_wf p \<Longrightarrow> process_wf (deliver_pending_signals p t)"
proof (induction p t rule: deliver_pending_signals.induct)
  case (1 p t)
  show ?case
  proof (cases "next_deliverable_signal p t")
    case None
    then show ?thesis using 1(3) by (simp add: deliver_pending_signals.simps)
  next
    case (Some n)
    note d = dequeue_signal_for_wf [OF 1(3), of t n]
    obtain p2 out where a: "apply_default_signal_action (fst (dequeue_signal_for p t n)) n = (p2, out)"
      by fastforce
    have w2: "process_wf p2" using life_cycle_wf(5) [OF d, of n] a by simp
    show ?thesis
    proof (cases "handler (get_action (signals p) n)")
      case Default
      show ?thesis
        using Some Default a w2 1(1) [OF Some Default refl a [symmetric]]
        by (subst deliver_pending_signals.simps) (simp split: default_signal_outcome.splits)
    next
      case Ignore
      show ?thesis
        using Some Ignore d 1(2) [OF Some Ignore refl]
        by (subst deliver_pending_signals.simps) (simp add: Let_def)
    next
      case (Handler x)
      then show ?thesis using Some 1(3) by (simp add: deliver_pending_signals.simps)
    qed
  qed
qed

lemma enter_handler_wf: "process_wf p \<Longrightarrow> process_wf (fst (enter_handler p t n idx action))"
proof -
  assume wf: "process_wf p"
  have alt: "same_queues q (q\<lparr> alt_stack_depth := d, alt_stack_flags := f \<rparr>)" for q d f
    by (simp add: same_queues_def)
  obtain p1 i where d: "dequeue_signal_for p t n = (p1, i)" using surj_pair by metis
  obtain p2 saved where m: "take_sigsuspend_saved_mask_for p1 t = (p2, saved)" by fastforce
  have "process_wf p1" using dequeue_signal_for_wf [OF wf, of t n] d by simp
  then have "process_wf p2" using mask_wf(3) [of p1 t] m by simp
  then have "process_wf (case saved of Some m \<Rightarrow> fst (set_blocked_for p2 t m) | None \<Rightarrow> p2)"
    using mask_wf(1) by (auto split: option.splits)
  from mask_wf(1) [OF this] d m show ?thesis
    by (auto simp: enter_handler_def Let_def split: prod.splits intro!: same_queues_wf [OF _ alt])
qed

lemma kernel_dequeue_wf: "process_wf p \<Longrightarrow> process_wf (fst (kernel_dequeue_signal p t))"
proof (induction p t rule: kernel_dequeue_signal.induct)
  case (1 p t)
  show ?case
  proof (cases "next_deliverable_signal p t")
    case None
    then show ?thesis using 1(3) by (simp add: kernel_dequeue_signal.simps)
  next
    case (Some n)
    note d = dequeue_signal_for_wf [OF 1(3), of t n]
    obtain p2 out where a: "apply_default_signal_action (fst (dequeue_signal_for p t n)) n = (p2, out)"
      by fastforce
    have w2: "process_wf p2" using life_cycle_wf(5) [OF d, of n] a by simp
    show ?thesis
    proof (cases "handler (get_action (signals p) n)")
      case Default
      show ?thesis
        using Some Default a w2 1(1) [OF Some refl Default refl a [symmetric]]
        by (subst kernel_dequeue_signal.simps) (simp split: default_signal_outcome.splits)
    next
      case Ignore
      show ?thesis
        using Some Ignore d 1(2) [OF Some refl Ignore]
        by (subst kernel_dequeue_signal.simps) simp
    next
      case (Handler x)
      then show ?thesis using Some enter_handler_wf [OF 1(3)]
        by (simp add: kernel_dequeue_signal.simps split: prod.splits) (metis fst_conv)
    qed
  qed
qed

lemma sigtimedwait_wf: "process_wf p \<Longrightarrow> process_wf (fst (sys_sigtimedwait p t msk))"
proof -
  assume wf: "process_wf p"
  let ?n = "trailing_zeros (pending_for p t AND msk) + 1"
  obtain p1 r where c: "consume_signal_for p t ?n = (p1, r)" by fastforce
  note cw = consume_signal_for_wf [OF wf c]
  have "process_wf (fst (siginfo_words p1 info))" if "r = Some info" for info
    using cw(1) accept_wf [OF cw(1) cw(3) [OF that]]
    by (auto simp: siginfo_words_fst split: option.splits)
  with wf cw(1) c show ?thesis
    by (auto simp: sys_sigtimedwait_def Let_def split: option.splits prod.splits)
qed

lemma clear_everywhere_entries:
  assumes "process_wf p" and "\<not> invalid_signal n" and "e \<in># timer_entries (clear_signal_everywhere p n)"
  shows "signum e \<noteq> n" and "e \<in># timer_entries p"
proof -
  have "e \<in># timer_part (clear_pending s n) \<Longrightarrow> signum e \<noteq> n" for s :: signal_state
    using assms(2) by (auto simp: timer_part_def clear_pending_def invalid_signal_def)
  moreover have "e \<in># timer_part (clear_pending s n) \<Longrightarrow> signum e \<noteq> n" for s :: per_thread_signal_state
    using assms(2) by (auto simp: timer_part_def clear_pending_def invalid_signal_def)
  ultimately show "signum e \<noteq> n"
    using assms(3) by (auto simp: timer_entries_def clear_signal_everywhere_def
        clear_directed_signal_def in_sum_list_mset o_def)
  show "e \<in># timer_entries p" using assms(3) by (rule mset_subset_eqD [OF timer_entries_clear_everywhere])
qed

lemma pending_timer_ids_entry:
  "k \<in> set (pending_timer_ids s n) \<Longrightarrow> \<exists>e. e \<in># timer_part s \<and> signum e = n \<and> timer_id e = Some k"
  by (auto simp: pending_timer_ids_def timer_part_def map_filter_def)

lemma fold_accept_wf:
  assumes "process_wf p" and "\<And>k e. k \<in> set ids \<Longrightarrow> e \<in># timer_entries p \<Longrightarrow> timer_id e \<noteq> Some k"
  shows "process_wf (fold (\<lambda>tmr p. fst (accept_posix_timer_notification p tmr)) ids p)"
  using assms
proof (induction ids arbitrary: p)
  case (Cons k ids)
  have same: "timer_entries (fst (accept_posix_timer_notification p k)) = timer_entries p"
    by (simp add: timer_entries_def)
  have "process_wf (fst (accept_posix_timer_notification p k))"
    using Cons.prems by (intro accept_wf) simp_all
  then have "process_wf (fold (\<lambda>tmr p. fst (accept_posix_timer_notification p tmr)) ids
      (fst (accept_posix_timer_notification p k)))"
    by (rule Cons.IH) (use Cons.prems(2) same in auto)
  then show ?case by simp
qed simp

lemma discard_pending_wf:
  assumes wf: "process_wf p" and n: "\<not> invalid_signal n"
  shows "process_wf (discard_pending_signal p n)"
  unfolding discard_pending_signal_def Let_def
proof (rule fold_accept_wf [OF clear_everywhere_wf [OF wf]])
  fix k e
  assume k: "k \<in> set (pending_timer_ids (signals p) n @ pending_timer_ids (main_thread_signals p) n @
            concat (map (\<lambda>i. pending_timer_ids (thread_signals i) n) (threads p)))"
    and e: "e \<in># timer_entries (clear_signal_everywhere p n)"
  obtain e' where e': "e' \<in># timer_entries p" "signum e' = n" "timer_id e' = Some k"
    using k pending_timer_ids_entry [of k "signals p" n]
      pending_timer_ids_entry [of k "main_thread_signals p" n]
      pending_timer_ids_entry [of k "thread_signals _" n]
    by (fastforce simp: timer_entries_def in_sum_list_mset)
  have ok: "timers_ok (posix_timers p) (timer_entries p)" using wf by (simp add: process_wf_def)
  show "timer_id e \<noteq> Some k"
  proof
    assume "timer_id e = Some k"
    with ok e' clear_everywhere_entries(2) [OF wf n e] have "signum e = signum e'"
      unfolding timers_ok_def by (metis option.inject)
    with clear_everywhere_entries(1) [OF wf n e] e' show False by simp
  qed
qed

lemma clear_directed_wf: "process_wf p \<Longrightarrow> process_wf (clear_directed_signal p n)"
  by (rule process_wfI [OF _ _ _ _ timer_entries_clear_directed])
    (auto simp: process_wf_def queues_wf_def clear_directed_signal_def intro!: clear_pending_wf)

lemma set_disposition_wf:
  assumes "pending_wf s" and "dispositions_wf s"
  shows "pending_wf (fst (set_action s n a))" "dispositions_wf (fst (set_action s n a))"
    "timer_part (fst (set_action s n a)) \<subseteq># timer_part s"
    and "pending_wf (fst (set_handler s n h))" "dispositions_wf (fst (set_handler s n h))"
    "timer_part (fst (set_handler s n h)) \<subseteq># timer_part s"
proof -
  have u: "pending_wf (s\<lparr> actions := x \<rparr>)" "timer_part (s\<lparr> actions := x \<rparr>) = timer_part s" for x
    using assms(1) pending_wf_cong [of "s\<lparr> actions := x \<rparr>" s] by (simp_all add: timer_part_def)
  have c: "timer_part (clear_pending (s\<lparr> actions := x \<rparr>) n) \<subseteq># timer_part s" for x
    using timer_part_clear [of "s\<lparr> actions := x \<rparr>" n] u(2) by simp
  show "pending_wf (fst (set_action s n a))" "timer_part (fst (set_action s n a)) \<subseteq># timer_part s"
    "pending_wf (fst (set_handler s n h))" "timer_part (fst (set_handler s n h)) \<subseteq># timer_part s"
    using assms u c by (auto simp: set_action_def set_handler_def Let_def intro: clear_pending_wf)
  show "dispositions_wf (fst (set_action s n a))" "dispositions_wf (fst (set_handler s n h))"
    using assms(2)
    by (auto simp: set_action_def set_handler_def Let_def dispositions_wf_def nth_list_update
        signal_numbers)
qed

lemma sigaction_wf:
  assumes wf: "process_wf p"
  shows "process_wf (fst (sys_sigaction p n hv flg msk))" and "process_wf (fst (sys_signal p n hv))"
proof -
  let ?h = "decode_handler hv"
  define p1 where "p1 = (if should_discard_pending n ?h then discard_pending_signal p n else p)"
  have p1: "process_wf p1" if "\<not> invalid_signal n"
    using wf discard_pending_wf [OF wf that] by (simp add: p1_def)
  have q: "pending_wf (signals p1)" "dispositions_wf (signals p1)" if "\<not> invalid_signal n"
    using p1 [OF that] by (simp_all add: process_wf_def queues_wf_def)
  have a: "process_wf (fst (on_signals (\<lambda>s. set_action s n act) p1))"
    "process_wf (fst (on_signals (\<lambda>s. set_handler s n ?h) p1))" if "\<not> invalid_signal n" for act
    unfolding on_signals_fst
    by (intro set_signals_wf p1 set_disposition_wf q that)+
  show "process_wf (fst (sys_sigaction p n hv flg msk))"
  proof (cases "invalid_signal n")
    case True
    then show ?thesis using wf by (auto simp: sys_sigaction_def invalid_signal_def)
  next
    case False
    then show ?thesis using wf a(1) [OF False, of "\<lparr> handler = ?h, sa_flags = flg, sa_mask = msk \<rparr>"]
        clear_directed_wf
      by (auto simp: sys_sigaction_def Let_def p1_def [symmetric] split: option.splits prod.splits)
  qed
  show "process_wf (fst (sys_signal p n hv))"
  proof (cases "invalid_signal n")
    case True
    then show ?thesis using wf by (auto simp: sys_signal_def invalid_signal_def)
  next
    case False
    then show ?thesis using wf a(2) [OF False] clear_directed_wf
      by (auto simp: sys_signal_def Let_def p1_def [symmetric] split: option.splits prod.splits)
  qed
qed

subsection \<open>Timers\<close>

lemma timers_ok_signum:
  "timers_ok ts E \<Longrightarrow> e \<in># E \<Longrightarrow> e' \<in># E \<Longrightarrow> timer_id e = Some k \<Longrightarrow> timer_id e' = Some k \<Longrightarrow>
     signum e = signum e'"
  unfolding timers_ok_def by (metis option.inject)

lemma timer_part_remove:
  "timer_part (fst (remove_timer_info s k)) = filter_mset (\<lambda>e. timer_id e \<noteq> Some k) (timer_part s)"
  by (auto simp: timer_part_def remove_timer_info_def Let_def filter_filter_mset find_None_iff
      intro!: filter_mset_cong split: option.splits)

lemma remove_notification_entries:
  "timer_entries (fst (remove_posix_timer_notification p k)) =
     filter_mset (\<lambda>e. timer_id e \<noteq> Some k) (timer_entries p)"
proof -
  have "sum_list (map (\<lambda>i. filter_mset Q (timer_part (thread_signals i))) ts) =
      filter_mset Q (sum_list (map (\<lambda>i. timer_part (thread_signals i)) ts))" for Q ts
    by (induction ts) simp_all
  then show ?thesis
    by (simp add: timer_entries_def remove_posix_timer_notification_def Let_def timer_part_remove o_def)
qed

lemma remove_notification_keeps:
  "posix_timers (fst (remove_posix_timer_notification p k)) = posix_timers p"
  "actions (signals (fst (remove_posix_timer_notification p k))) = actions (signals p)"
  by (simp_all add: remove_posix_timer_notification_def Let_def)

lemma remove_notification_wf:
  assumes wf: "process_wf p"
  shows "process_wf (fst (remove_posix_timer_notification p k))"
proof (rule process_wfI [OF wf])
  have ok: "timers_ok (posix_timers p) (timer_entries p)" using wf by (simp add: process_wf_def)
  have q: "pending_wf (fst (remove_timer_info s k))"
    if "pending_wf s" "timer_part s \<subseteq># timer_entries p" for s :: signal_state
    by (rule remove_timer_wf(1) [OF that(1)])
      (rule timers_ok_signum [OF timers_ok_mono [OF ok that(2)]], auto simp: timer_part_def)
  have q2: "pending_wf (fst (remove_timer_info s k))"
    if "pending_wf s" "timer_part s \<subseteq># timer_entries p" for s :: per_thread_signal_state
    by (rule remove_timer_wf(1) [OF that(1)])
      (rule timers_ok_signum [OF timers_ok_mono [OF ok that(2)]], auto simp: timer_part_def)
  have t: "timer_part (thread_signals i) \<subseteq># timer_entries p" if "i \<in> set (threads p)" for i
  proof -
    from that obtain ys zs where "threads p = ys @ i # zs" by (meson split_list)
    then show ?thesis by (simp add: timer_entries_def)
  qed
  show "queues_wf (fst (remove_posix_timer_notification p k))"
    using wf by (auto simp: process_wf_def queues_wf_def remove_posix_timer_notification_def Let_def
        timer_entries_def intro!: q q2 t [unfolded timer_entries_def])
  show "signals (fst (remove_posix_timer_notification p k)) = signals p \<or>
      dispositions_wf (signals (fst (remove_posix_timer_notification p k)))"
    using wf remove_notification_keeps(2) by (simp add: process_wf_def dispositions_wf_def)
qed (simp_all add: remove_notification_keeps remove_notification_entries)

lemma set_timers_wf:
  assumes "process_wf p" and "timers_ok ts (timer_entries p)"
  shows "process_wf (p\<lparr> posix_timers := ts \<rparr>)"
  using assms by (simp add: process_wf_def queues_wf_def timer_entries_def)

lemma timer_delete_wf: "process_wf p \<Longrightarrow> process_wf (fst (kernel_timer_delete p tmr t))"
proof -
  assume wf: "process_wf p"
  let ?p1 = "fst (remove_posix_timer_notification p tmr)"
  have w1: "process_wf ?p1" by (rule remove_notification_wf [OF wf])
  have "timers_ok ((posix_timers ?p1)[tmr := None]) (timer_entries ?p1)"
    by (rule timers_ok_update [where ts = "posix_timers ?p1" and k = tmr])
      (use w1 in \<open>auto simp: process_wf_def remove_notification_entries slot_clear\<close>)
  from deliver_wf [OF set_timers_wf [OF w1 this]] wf show ?thesis
    by (auto simp: kernel_timer_delete_def Let_def split: option.splits)
qed

lemma timer_create_wf: "process_wf p \<Longrightarrow> process_wf (fst (kernel_timer_create p clock sev t))"
proof -
  assume wf: "process_wf p"
  have "process_wf (p\<lparr> posix_timers := ts \<rparr>)" if "slot_insert (posix_timers p) tm = (ts, k)" for ts tm k
  proof (rule set_timers_wf [OF wf])
    have ok: "timers_ok (posix_timers p) (timer_entries p)" using wf by (simp add: process_wf_def)
    have "slot (posix_timers p) k = None" by (rule slot_insert_fresh [OF that])
    then have "timer_id e \<noteq> Some k" if "e \<in># timer_entries p" for e
      using ok that unfolding timers_ok_def by force
    then show "timers_ok ts (timer_entries p)"
      by (rule timers_ok_update [OF ok]) (use slot_insert_slot [OF that] in auto)
  qed
  with wf show ?thesis
    by (auto simp: kernel_timer_create_def Let_def intro!: deliver_wf
        split: option.splits sum.splits prod.splits)
qed

lemma timers_ok_add:
  assumes "timers_ok ts E" and "\<And>e. e \<in># E \<Longrightarrow> timer_id e \<noteq> Some k"
    and "slot ts' = (slot ts)(k := Some tm)" and "notification_pending tm" "sigev_signo tm = n"
  shows "timers_ok ts' (add_mset (timer_entry n val k) E)"
proof -
  have "filter_mset (\<lambda>e. timer_id e = Some k) E = filter_mset (\<lambda>_. False) E"
    using assms(2) by (intro filter_mset_cong) auto
  then have none: "filter_mset (\<lambda>e. timer_id e = Some k) E = {#}" by simp
  show ?thesis
    unfolding timers_ok_def
  proof (intro conjI allI impI)
    fix e j assume "e \<in># add_mset (timer_entry n val k) E" "timer_id e = Some j"
    then show "\<exists>tm. slot ts' j = Some tm \<and> notification_pending tm \<and> sigev_signo tm = signum e"
      using assms unfolding timers_ok_def by (auto simp: timer_entry_def)
  next
    fix j
    show "size (filter_mset (\<lambda>e. timer_id e = Some j) (add_mset (timer_entry n val k) E)) \<le> 1"
      using assms(1) none unfolding timers_ok_def by (cases "j = k") (auto simp: timer_entry_def)
  qed
qed

lemma prepare_keeps:
  "posix_timers (prepare_signal_generation p n) = posix_timers p"
  "timer_entries (prepare_signal_generation p n) \<subseteq># timer_entries p"
proof -
  have c: "posix_timers (clear_signal_everywhere q m) = posix_timers q" for q m
    by (simp add: clear_signal_everywhere_def clear_directed_signal_def)
  have r: "posix_timers (fst (record_continue q)) = posix_timers q"
    "timer_entries (fst (record_continue q)) = timer_entries q" for q
    by (simp_all add: record_continue_def push_wake_def set_wait_event_def timer_entries_def)
  show "posix_timers (prepare_signal_generation p n) = posix_timers p"
    by (simp add: prepare_signal_generation_def c r)
  have "timer_entries (clear_signal_everywhere q m) \<subseteq># timer_entries p"
    if "timer_entries q \<subseteq># timer_entries p" for q m
    using timer_entries_clear_everywhere that by (rule subset_mset.order_trans)
  then show "timer_entries (prepare_signal_generation p n) \<subseteq># timer_entries p"
    by (simp add: prepare_signal_generation_def r)
qed

lemma raise_timer_directed_wf:
  assumes wf: "process_wf p" and k: "slot (posix_timers p) k = Some tm"
    and tm: "notification_pending tm" "sigev_signo tm = n"
    and none: "\<And>e. e \<in># timer_entries p \<Longrightarrow> timer_id e \<noteq> Some k"
    and r: "raise_timer_for_thread p t n val k = (p', ok)"
  shows "process_wf p'" and "posix_timers p' = posix_timers p"
    and "\<not> ok \<Longrightarrow> e \<in># timer_entries p' \<Longrightarrow> timer_id e \<noteq> Some k"
proof -
  let ?q = "prepare_signal_generation p n" and ?f = "\<lambda>s :: per_thread_signal_state. raise_timer s n val k"
  have q: "process_wf ?q" "posix_timers ?q = posix_timers p"
    by (simp_all add: prepare_wf [OF wf] prepare_keeps)
  have qn: "timer_id e \<noteq> Some k" if "e \<in># timer_entries ?q" for e
    using none mset_subset_eqD [OF prepare_keeps(2) that] .
  have p': "p' = fst (raise_timer_for_thread p t n val k)" using r by simp
  have cases: "p' = ?q \<or> \<not> invalid_signal n \<and> p' = fst (on_directed ?q t ?f)"
    unfolding p' raise_timer_for_thread_def raise_directed_fst Let_def by simp
  show pt: "posix_timers p' = posix_timers p" using cases q(2) by auto
  have "timers_ok (posix_timers p) (add_mset (timer_entry n val k) (timer_entries ?q))"
    using q by (intro timers_ok_add [where ts = "posix_timers p" and tm = tm])
      (use k tm qn q in \<open>auto simp: process_wf_def\<close>)
  moreover have "timer_entries (fst (on_directed ?q t ?f)) \<subseteq># timer_entries ?q + {# timer_entry n val k #}"
    by (rule timer_entries_on_directed) (auto simp: timer_part_raise_timer)
  ultimately have "timers_ok (posix_timers p) (timer_entries (fst (on_directed ?q t ?f)))"
    by (elim timers_ok_mono) simp
  then have "process_wf (fst (on_directed ?q t ?f))"
    using q queues_wf_on_directed [of ?q ?f t] by (simp add: process_wf_def raise_timer_wf)
  with cases q show "process_wf p'" by auto
  assume "\<not> ok" and e: "e \<in># timer_entries p'"
  then have "p' = ?q"
    using r unfolding raise_timer_for_thread_def raise_directed_def Let_def
    by (cases rule: on_directed_cases [of ?q t ?f])
      (auto simp: raise_timer_def Let_def split: if_splits prod.splits)
  with e qn show "timer_id e \<noteq> Some k" by blast
qed

lemma timer_fire_wf:
  assumes wf: "process_wf p"
  shows "process_wf (fst (queue_posix_timer_fire p k))"
proof (cases "slot (posix_timers p) k")
  case None
  then show ?thesis using wf by (simp add: queue_posix_timer_fire_def)
next
  case (Some tm)
  have ok: "timers_ok (posix_timers p) (timer_entries p)" using wf by (simp add: process_wf_def)
  have len: "k < length (posix_timers p)" by (rule slot_Some_less [OF Some])
  have touch: "process_wf (p\<lparr> posix_timers := (posix_timers p)[k := Some (tm\<lparr> overrun_current := x \<rparr>)] \<rparr>)" for x
    by (rule set_timers_wf [OF wf timers_ok_touch [OF ok Some]]) simp_all
  show ?thesis
  proof (cases "notification_pending tm")
    case True
    then show ?thesis using Some wf touch by (simp add: queue_posix_timer_fire_def)
  next
    case False
    then have none: "timer_id e \<noteq> Some k" if "e \<in># timer_entries p" for e
      using ok that Some unfolding timers_ok_def by force
    define p1 where "p1 = p\<lparr> posix_timers := (posix_timers p)[k := Some (tm\<lparr> notification_pending := True \<rparr>)] \<rparr>"
    have sl: "slot (posix_timers p1) = (slot (posix_timers p))(k \<mapsto> tm\<lparr> notification_pending := True \<rparr>)"
      unfolding p1_def using len by (simp add: slot_update)
    have w1: "process_wf p1"
      unfolding p1_def by (intro set_timers_wf [OF wf] timers_ok_update [OF ok none])
        (use sl in \<open>simp_all add: p1_def\<close>)
    have E1: "timer_entries p1 = timer_entries p" by (simp add: p1_def timer_entries_def)
    let ?n = "sigev_signo tm" and ?v = "sigev_value tm"
    have shared: "process_wf (p1\<lparr> signals := fst (raise_timer (signals p1) ?n ?v k) \<rparr>)"
    proof -
      have "timer_entries (p1\<lparr> signals := fst (raise_timer (signals p1) ?n ?v k) \<rparr>) \<subseteq>#
          timer_entries p1 + {# timer_entry ?n ?v k #}"
        by (rule timer_entries_signals) (auto simp: timer_part_raise_timer)
      moreover have "timers_ok (posix_timers p1) (add_mset (timer_entry ?n ?v k) (timer_entries p1))"
        unfolding E1 by (rule timers_ok_add [OF ok none sl]) simp_all
      ultimately have "timers_ok (posix_timers p1)
          (timer_entries (p1\<lparr> signals := fst (raise_timer (signals p1) ?n ?v k) \<rparr>))"
        by (elim timers_ok_mono) simp
      with w1 show ?thesis
        by (auto simp: process_wf_def queues_wf_def dispositions_wf_def intro: raise_timer_wf)
    qed
    obtain p2 b where r: "raise_timer_for_thread p1 (sigev_tid tm) ?n ?v k = (p2, b)" by fastforce
    have sk: "slot (posix_timers p1) k = Some (tm\<lparr> notification_pending := True \<rparr>)" by (simp add: sl)
    note rw = raise_timer_directed_wf [OF w1 sk _ _ none [folded E1] r, simplified]
    have w2: "process_wf p2" by (rule rw(1))
    have "process_wf (p2\<lparr> posix_timers := (posix_timers p2)[k := x] \<rparr>)" if "\<not> b" for x
      by (rule set_timers_wf [OF w2 timers_ok_update [where ts = "posix_timers p2" and k = k]])
        (use w2 rw(3) that in \<open>auto simp: process_wf_def slot_def\<close>)
    with Some False wf w1 w2 shared r show ?thesis
      by (auto simp: queue_posix_timer_fire_def p1_def [symmetric] on_signals_fst
          split: option.splits bool.splits)
  qed
qed

subsection \<open>Threads and exec\<close>

lemma mset_swap_remove:
  assumes "i < length xs"
  shows "mset (swap_remove i xs) + {# xs ! i #} = mset xs"
proof -
  have ne: "xs \<noteq> []" using assms by auto
  then have xs: "xs = butlast xs @ [List.last xs]" by simp
  have m: "mset xs = add_mset (List.last xs) (mset (butlast xs))"
    by (subst (1) xs) simp
  show ?thesis
  proof (cases "i + 1 = length xs")
    case True
    then have "i = length xs - 1" by simp
    then have "xs ! i = List.last xs" using ne by (simp add: last_conv_nth)
    with True m show ?thesis by (simp add: swap_remove_def)
  next
    case False
    then have i: "i < length (butlast xs)" using assms by simp
    have "butlast (xs[i := List.last xs]) = (butlast xs)[i := List.last xs]"
      using False assms by (auto simp: butlast_list_update)
    moreover have "xs ! i = butlast xs ! i" using i by (simp add: nth_butlast)
    moreover have "mset (butlast xs) = add_mset (butlast xs ! i) (mset (butlast xs) - {# butlast xs ! i #})"
      using i by simp
    ultimately show ?thesis using False m i by (simp add: swap_remove_def mset_update)
  qed
qed

lemma timer_entries_threads:
  "timer_entries p = timer_part (signals p) + timer_part (main_thread_signals p) +
     sum_mset (image_mset (\<lambda>i. timer_part (thread_signals i)) (mset (threads p)))"
  by (simp add: timer_entries_def sum_mset_sum_list flip: mset_map)

lemma drop_threads_wf:
  assumes wf: "process_wf p" and sub: "mset ts \<subseteq># mset (threads p)"
  shows "process_wf (p\<lparr> threads := ts \<rparr>)"
proof (rule process_wfI [OF wf])
  have "set ts \<subseteq> set (threads p)" using sub by (metis set_mset_mono set_mset_mset)
  then show "queues_wf (p\<lparr> threads := ts \<rparr>)"
    using wf by (auto simp: process_wf_def queues_wf_def)
  from sub obtain R where "mset (threads p) = mset ts + R" by (auto simp: mset_subset_eq_exists_conv)
  then show "timer_entries (p\<lparr> threads := ts \<rparr>) \<subseteq># timer_entries p"
    by (simp add: timer_entries_threads)
qed simp_all

lemma thread_position_less: "thread_position p t = Some i \<Longrightarrow> i < length (threads p)"
  by (simp add: thread_position_def find_upt_Some)

lemma remove_thread_wf: "process_wf p \<Longrightarrow> process_wf (fst (remove_thread p t))"
proof -
  assume wf: "process_wf p"
  have "process_wf (p\<lparr> threads := swap_remove i (threads p) \<rparr>)" if "thread_position p t = Some i" for i
  proof (rule drop_threads_wf [OF wf])
    show "mset (swap_remove i (threads p)) \<subseteq># mset (threads p)"
      using mset_swap_remove [OF thread_position_less [OF that]]
      by (metis mset_subset_eq_add_left)
  qed
  with wf show ?thesis by (auto simp: remove_thread_def split: option.splits)
qed

lemma add_thread_wf:
  "process_wf p \<Longrightarrow> process_wf (add_thread p ((thread_info_new t c st tls)\<lparr> thread_signals :=
     per_thread_signal_state_new\<lparr> thread_blocked := w \<rparr> \<rparr>))"
  by (auto simp: process_wf_def queues_wf_def add_thread_def timer_entries_def timer_part_def
      per_thread_signal_state_new_def intro!: pending_wf_empty)

lemma fold_remove_notifications:
  assumes "process_wf p"
  shows "process_wf (fold (\<lambda>tmr p. fst (remove_posix_timer_notification p tmr)) ids p)"
    and "timer_entries (fold (\<lambda>tmr p. fst (remove_posix_timer_notification p tmr)) ids p) =
      filter_mset (\<lambda>e. \<forall>k \<in> set ids. timer_id e \<noteq> Some k) (timer_entries p)"
    and "posix_timers (fold (\<lambda>tmr p. fst (remove_posix_timer_notification p tmr)) ids p) = posix_timers p"
  using assms
  by (induction ids arbitrary: p)
    (auto simp: remove_notification_wf remove_notification_entries remove_notification_keeps
      filter_filter_mset intro: filter_mset_cong)

lemma exec_wf: "process_wf p \<Longrightarrow> process_wf (fst (commit_exec_signals p caller))"
proof -
  assume wf: "process_wf p"
  have adopt: "process_wf q" if eq: "exec_adopt_caller p caller = Inr q" for q
  proof (cases "caller \<noteq> 0 \<and> caller \<noteq> pid p")
    case False
    then show ?thesis using that wf by (auto simp: exec_adopt_caller_def split: if_splits)
  next
    case True
    then obtain i where i: "thread_position p caller = Some i"
      and q: "q = p\<lparr> threads := remove_at i (threads p),
          signals := (signals p)\<lparr> blocked := thread_blocked (thread_signals (threads p ! i)) \<rparr>,
          main_thread_signals := thread_signals (threads p ! i) \<rparr>"
      using eq by (auto simp: exec_adopt_caller_def Let_def split: if_splits option.splits)
    have len: "i < length (threads p)" by (rule thread_position_less [OF i])
    have m: "threads p = take i (threads p) @ threads p ! i # drop (Suc i) (threads p)"
      by (rule id_take_nth_drop [OF len])
    have set: "set (threads p) = insert (threads p ! i) (set (remove_at i (threads p)))"
      using arg_cong [OF m, of set] by (simp add: remove_at_def)
    have sum: "(\<Sum>i\<leftarrow>threads p. timer_part (thread_signals i)) =
        timer_part (thread_signals (threads p ! i)) +
        (\<Sum>i\<leftarrow>remove_at i (threads p). timer_part (thread_signals i))"
      using arg_cong [OF m, of "\<lambda>ts. \<Sum>i\<leftarrow>ts. timer_part (thread_signals i)"]
      by (simp add: remove_at_def ac_simps)
    show ?thesis
    proof (rule process_wfI [OF wf])
      have "pending_wf ((signals p)\<lparr> blocked := w \<rparr>)" for w
        using wf pending_wf_cong [of "(signals p)\<lparr> blocked := w \<rparr>" "signals p"]
        by (simp add: process_wf_def queues_wf_def)
      then show "queues_wf q" using wf set by (simp add: q process_wf_def queues_wf_def)
      have "timer_part ((signals p)\<lparr> blocked := w \<rparr>) = timer_part (signals p)" for w
        by (simp add: timer_part_def)
      then show "timer_entries q \<subseteq># timer_entries p"
        by (simp add: timer_entries_def q sum)
      show "signals q = signals p \<or> dispositions_wf (signals q)"
        using wf by (simp add: q process_wf_def dispositions_wf_def)
    qed (simp add: q)
  qed
  have reset: "process_wf (exec_reset_image q)" if wq: "process_wf q" for q
  proof -
    define q1 where "q1 = q\<lparr> signals := reset_dispositions_for_exec (signals q), exit_status := 0,
                  exit_signal := 0, threads := [], next_tid := 0, proc_saved_mask := None,
                  alt_stack_sp := 0, alt_stack_flags := 2, alt_stack_size := 0,
                  alt_stack_depth := 0 \<rparr>"
    have d: "dispositions_wf (reset_dispositions_for_exec (signals q))"
      using wq by (auto simp: process_wf_def dispositions_wf_def reset_dispositions_for_exec_def
          exec_action_def nth_append min_def signal_numbers)
    have pw: "pending_wf (reset_dispositions_for_exec (signals q))"
      using wq pending_wf_cong [of "reset_dispositions_for_exec (signals q)" "signals q"]
      by (simp add: process_wf_def queues_wf_def reset_dispositions_for_exec_def)
    have w1: "process_wf q1"
      by (rule process_wfI [OF wq])
        (use wq d pw in \<open>auto simp: q1_def process_wf_def queues_wf_def timer_entries_def timer_part_def
          reset_dispositions_for_exec_def\<close>)
    let ?q2 = "fold (\<lambda>tmr p. fst (remove_posix_timer_notification p tmr)) [0..<length (posix_timers q1)] q1"
    note fr = fold_remove_notifications [OF w1, of "[0..<length (posix_timers q1)]"]
    have "timer_id e \<noteq> None \<longrightarrow> (\<exists>k < length (posix_timers q1). timer_id e = Some k)"
      if "e \<in># timer_entries q1" for e
      using w1 that slot_Some_less unfolding process_wf_def timers_ok_def by fastforce
    moreover have "timer_id e \<noteq> None" if "e \<in># timer_entries q1" for e
      using that by (auto simp: timer_entries_def timer_part_def in_sum_list_mset)
    ultimately have "filter_mset (\<lambda>e. \<forall>k \<in> set [0..<length (posix_timers q1)]. timer_id e \<noteq> Some k)
        (timer_entries q1) = filter_mset (\<lambda>_. False) (timer_entries q1)"
      by (intro filter_mset_cong refl) (metis atLeastLessThan_upt atLeast0LessThan lessThan_iff)
    then have "timer_entries ?q2 = {#}" unfolding fr(2) by simp
    then have "process_wf (?q2\<lparr> posix_timers := [] \<rparr>)"
      by (intro set_timers_wf fr(1)) (simp add: timers_ok_def)
    then show ?thesis by (simp add: exec_reset_image_def Let_def q1_def)
  qed
  show ?thesis using wf adopt reset by (auto simp: commit_exec_signals_def split: sum.splits)
qed

section \<open>Reachable states\<close>

text \<open>One step of a process: any signal operation, by any thread.\<close>

inductive signal_step :: "process \<Rightarrow> process \<Rightarrow> bool" where
  step_raise: "signal_step p (fst (raise_signal p n))"
| step_queue: "signal_step p (fst (raise_signal_with_value p n val))"
| step_tkill: "signal_step p (fst (raise_for_thread p t n))"
| step_tqueue: "signal_step p (fst (raise_for_thread_with_value p t n val))"
| step_action: "signal_step p (fst (sys_sigaction p n hv flg msk))"
| step_signal: "signal_step p (fst (sys_signal p n hv))"
| step_mask: "signal_step p (fst (sys_sigprocmask p t how msk))"
| step_suspend: "signal_step p (fst (sys_sigsuspend p t msk))"
| step_wait: "signal_step p (fst (sys_sigtimedwait p t msk))"
| step_deliver: "signal_step p (deliver_pending_signals p t)"
| step_dequeue: "signal_step p (fst (kernel_dequeue_signal p t))"
| step_return: "signal_step p (sys_rt_sigreturn p)"
| step_timer_create: "signal_step p (fst (kernel_timer_create p clock sev t))"
| step_timer_delete: "signal_step p (fst (kernel_timer_delete p k t))"
| step_timer_fire: "signal_step p (fst (queue_posix_timer_fire p k))"
| step_clone: "signal_step p (add_thread p ((thread_info_new t c st tls)\<lparr> thread_signals :=
     per_thread_signal_state_new\<lparr> thread_blocked := w \<rparr> \<rparr>))"
| step_thread_exit: "signal_step p (fst (remove_thread p t))"
| step_exec: "signal_step p (fst (commit_exec_signals p caller))"
| step_exit: "signal_step p (sys_exit p status)"

lemma other_masks_wf:
  assumes "process_wf p"
  shows "process_wf (fst (sys_sigprocmask p t how msk))" "process_wf (fst (sys_sigsuspend p t msk))"
    "process_wf (sys_rt_sigreturn p)"
proof -
  show "process_wf (fst (sys_sigprocmask p t how msk))" "process_wf (fst (sys_sigsuspend p t msk))"
    using assms by (auto simp: sys_sigprocmask_def sys_sigsuspend_def Let_def
        intro!: mask_wf split: option.splits)
  have "same_queues p (sys_rt_sigreturn p)" by (simp add: same_queues_def sys_rt_sigreturn_def Let_def)
  with assms show "process_wf (sys_rt_sigreturn p)" by (rule same_queues_wf)
qed

lemma signal_step_wf: "signal_step p p' \<Longrightarrow> process_wf p \<Longrightarrow> process_wf p'"
  by (induction rule: signal_step.induct)
    (simp_all add: raise_signal_wf raise_for_thread_wf sigaction_wf other_masks_wf sigtimedwait_wf
      deliver_wf kernel_dequeue_wf timer_create_wf timer_delete_wf timer_fire_wf add_thread_wf
      remove_thread_wf exec_wf life_cycle_wf)

lemma process_new_wf: "process_wf (process_new p)"
  by (simp add: process_wf_def queues_wf_def process_new_def signal_state_new_wf timer_entries_def
      timer_part_def timers_ok_def dispositions_wf_def signal_state_new_def
      per_thread_signal_state_new_def pending_wf_empty signal_action_default_def signal_numbers)

text \<open>C23. In every state a process can reach from its creation by raising, accepting, masking and
  delivering signals, creating, firing and deleting timers, starting and ending threads and
  exec: in the shared queue and in each thread's queue a signal's pending bit is set exactly
  when an instance is queued, and a standard signal has at most one plain instance; every queued
  timer notification belongs to a live timer that has it marked, with that timer's signal, and no
  timer has two; SIGKILL and SIGSTOP have their default disposition.\<close>

theorem process_signals_invariant:
  "signal_step\<^sup>*\<^sup>* (process_new p0) p \<Longrightarrow> process_wf p"
  by (induction rule: rtranclp_induct) (auto intro: process_new_wf signal_step_wf)

theorem process_signals_invariant_witness:
  "process_wf (fst (raise_signal (fst (raise_for_thread (process_new 5) 0 34)) SIGHUP))"
proof (rule process_signals_invariant)
  let ?p1 = "fst (raise_for_thread (process_new 5) 0 34)"
  have "signal_step\<^sup>*\<^sup>* (process_new 5) ?p1" by (rule r_into_rtranclp) (rule step_tkill)
  then show "signal_step\<^sup>*\<^sup>* (process_new 5) (fst (raise_signal ?p1 SIGHUP))"
    by (rule rtranclp.rtrancl_into_rtrancl) (rule step_raise)
qed

section \<open>Entering a handler\<close>

lemma get_thread_middle:
  assumes "threads p = ys @ i # zs" "tid i = t" "List.filter (\<lambda>i. tid i = t) ys = []"
    "threads p' = ys @ i' # zs" "tid i' = t"
  shows "get_thread p' t = Some i'" "get_thread p t = Some i"
proof -
  have "List.find (\<lambda>i. tid i = t) (ys @ x # zs) = Some x" if "tid x = t" for x
    using assms(3) that by (induction ys) (auto split: if_splits)
  with assms show "get_thread p' t = Some i'" "get_thread p t = Some i" by (simp_all add: get_thread_def)
qed

lemma update_thread_cases:
  obtains (found) i ys zs where "get_thread p t = Some i" "threads p = ys @ i # zs" "tid i = t"
      "List.filter (\<lambda>i. tid i = t) ys = []"
      "update_thread p t f = p\<lparr> threads := ys @ i\<lparr> thread_signals := f (thread_signals i) \<rparr> # zs \<rparr>"
      "get_thread (update_thread p t f) t = Some (i\<lparr> thread_signals := f (thread_signals i) \<rparr>)"
  | (gone) "get_thread p t = None" "update_thread p t f = p"
proof (cases "get_thread p t")
  case None
  then have "update_first (\<lambda>i. tid i = t) g (threads p) = None" for g
    by (auto simp: get_thread_def update_first_None find_None_iff filter_empty_conv)
  with None show ?thesis by (intro gone) (simp_all add: update_thread_def)
next
  case (Some i)
  then have "List.find (\<lambda>i. tid i = t) (threads p) = Some i" by (simp add: get_thread_def)
  then obtain ys zs where *: "threads p = ys @ i # zs" "tid i = t"
    "\<And>f. update_first (\<lambda>i. tid i = t) f (threads p) = Some (ys @ f i # zs)"
    "List.filter (\<lambda>i. tid i = t) ys = []" by (rule find_split) (rule that)
  then have u: "update_thread p t f = p\<lparr> threads := ys @ i\<lparr> thread_signals := f (thread_signals i) \<rparr> # zs \<rparr>"
    by (simp add: update_thread_def)
  have "get_thread (update_thread p t f) t = Some (i\<lparr> thread_signals := f (thread_signals i) \<rparr>)"
    by (rule get_thread_middle(1) [OF *(1,2,4)]) (simp_all add: u *(2))
  with Some * u show ?thesis by (intro found) auto
qed

lemma set_blocked_for_laws [simp]:
  "blocked_for (fst (set_blocked_for p t w)) t = w"
  "sigsuspend_saved_mask_for (fst (set_blocked_for p t w)) t = sigsuspend_saved_mask_for p t"
proof -
  show "blocked_for (fst (set_blocked_for p t w)) t = w"
    by (cases rule: update_thread_cases [of p t "\<lambda>s. s\<lparr> thread_blocked := w \<rparr>"])
      (auto simp: blocked_for_def set_blocked_for_def is_main_thread_def get_thread_def)
  show "sigsuspend_saved_mask_for (fst (set_blocked_for p t w)) t = sigsuspend_saved_mask_for p t"
    by (cases rule: update_thread_cases [of p t "\<lambda>s. s\<lparr> thread_blocked := w \<rparr>"])
      (auto simp: sigsuspend_saved_mask_for_def set_blocked_for_def is_main_thread_def get_thread_def)
qed

lemma set_saved_mask_laws [simp]:
  "blocked_for (set_sigsuspend_saved_mask_for p t m) t = blocked_for p t"
  "sigsuspend_saved_mask_for (set_sigsuspend_saved_mask_for p t None) t = None"
proof -
  show "blocked_for (set_sigsuspend_saved_mask_for p t m) t = blocked_for p t"
    by (cases rule: update_thread_cases [of p t "\<lambda>s. s\<lparr> sigsuspend_saved_mask := m \<rparr>"])
      (auto simp: blocked_for_def set_sigsuspend_saved_mask_for_def is_main_thread_def)
  show "sigsuspend_saved_mask_for (set_sigsuspend_saved_mask_for p t None) t = None"
    by (cases rule: update_thread_cases [of p t "\<lambda>s. s\<lparr> sigsuspend_saved_mask := None \<rparr>"])
      (auto simp: sigsuspend_saved_mask_for_def set_sigsuspend_saved_mask_for_def is_main_thread_def)
qed

lemma thread_masks_queue_ops [simp]:
  "thread_blocked (fst (consume_pending_info s n)) = thread_blocked s"
  "sigsuspend_saved_mask (fst (consume_pending_info s n)) = sigsuspend_saved_mask s"
  "thread_blocked (clear_pending s n) = thread_blocked s"
  "sigsuspend_saved_mask (clear_pending s n) = sigsuspend_saved_mask s"
  by (simp_all add: consume_pending_info_def clear_pending_def Let_def split: option.splits prod.splits)

text \<open>The masks of a thread as one value; taking a signal off a queue does not change it.\<close>

definition masks_of :: "process \<Rightarrow> nat \<Rightarrow> u64 \<times> u64 option" where
  "masks_of p t = (blocked_for p t, sigsuspend_saved_mask_for p t)"

lemma find_map:
  "(\<And>x. P (f x) = P x) \<Longrightarrow> List.find P (map f xs) = map_option f (List.find P xs)"
  by (induction xs) auto

lemma masks_clear_everywhere: "masks_of (clear_signal_everywhere p n) t = masks_of p t"
  by (auto simp: masks_of_def blocked_for_def sigsuspend_saved_mask_for_def is_main_thread_def
      clear_signal_everywhere_def clear_directed_signal_def get_thread_def find_map
      split: option.splits)

lemma masks_consume: "masks_of (fst (consume_signal_for p t n)) t = masks_of p t"
proof (cases rule: consume_signal_for_cases [of p t n])
  case (worker i ys zs)
  then have "List.find (\<lambda>i. tid i = t) (ys @ i # zs) = Some i" by (simp add: get_thread_def)
  then have "tid i = t" by (auto simp: find_Some_iff)
  have "List.find (\<lambda>i. tid i = t) (ys @ i\<lparr> thread_signals := x \<rparr> # zs) =
      Some (i\<lparr> thread_signals := x \<rparr>) \<or> (\<exists>j \<in> set ys. tid j = t \<and>
        List.find (\<lambda>i. tid i = t) (ys @ i\<lparr> thread_signals := x \<rparr> # zs) = Some j \<and>
        List.find (\<lambda>i. tid i = t) (ys @ i # zs) = Some j)" for x
    using \<open>tid i = t\<close> by (induction ys) auto
  from this [of "fst (consume_pending_info (thread_signals i) n)"] worker
  show ?thesis
    by (auto simp: masks_of_def blocked_for_def sigsuspend_saved_mask_for_def is_main_thread_def
        get_thread_def)
qed (auto simp: masks_of_def blocked_for_def sigsuspend_saved_mask_for_def is_main_thread_def
    get_thread_def split: option.splits)

lemma masks_dequeue: "masks_of (fst (dequeue_signal_for p t n)) t = masks_of p t"
proof -
  have "masks_of (fst (siginfo_words q info)) t = masks_of q t" for q info
  proof -
    have "proc_saved_mask (fst (accept_posix_timer_notification q k)) = proc_saved_mask q" for k
      by (auto simp: accept_posix_timer_notification_def Let_def split: option.splits)
    then show ?thesis
      by (auto simp: siginfo_words_fst masks_of_def blocked_for_def sigsuspend_saved_mask_for_def
          is_main_thread_def get_thread_def split: option.splits)
  qed
  then show ?thesis by (simp add: dequeue_signal_for_fst masks_clear_everywhere masks_consume)
qed

lemma dequeue_keeps:
  "actions (signals (fst (dequeue_signal_for p t n))) = actions (signals p)"
  "pstate (fst (dequeue_signal_for p t n)) = pstate p"
proof -
  have "actions (signals (fst (consume_signal_for p t n))) = actions (signals p)"
    "pstate (fst (consume_signal_for p t n)) = pstate p"
    by (cases rule: consume_signal_for_cases [of p t n]; simp)+
  then show "actions (signals (fst (dequeue_signal_for p t n))) = actions (signals p)"
    "pstate (fst (dequeue_signal_for p t n)) = pstate p"
    by (simp_all add: dequeue_signal_for_fst clear_signal_everywhere_def clear_directed_signal_def)
qed

lemma get_action_cong: "actions s' = actions s \<Longrightarrow> get_action s' n = get_action s n"
  by (simp add: get_action_def)

lemma enter_handler_frame:
  assumes "enter_handler p t n idx action = (p', f)"
  shows "frame_signum f = n" "frame_handler f = idx" "frame_flags f = sa_flags action"
    and "frame_old_mask f = (case snd (masks_of p t) of Some m \<Rightarrow> m | None \<Rightarrow> fst (masks_of p t))"
    and "masks_of p' t = (frame_old_mask f OR sa_mask action OR sig_bit n, None)"
proof -
  obtain p1 i where d: "dequeue_signal_for p t n = (p1, i)" using surj_pair by metis
  have m1: "masks_of p1 t = masks_of p t" using masks_dequeue [of p t n] d by simp
  have alt: "masks_of (q\<lparr> alt_stack_depth := a, alt_stack_flags := b \<rparr>) t = masks_of q t" for q a b
    by (auto simp: masks_of_def blocked_for_def sigsuspend_saved_mask_for_def is_main_thread_def
        get_thread_def split: option.splits)
  show "frame_signum f = n" "frame_handler f = idx" "frame_flags f = sa_flags action"
    "frame_old_mask f = (case snd (masks_of p t) of Some m \<Rightarrow> m | None \<Rightarrow> fst (masks_of p t))"
    "masks_of p' t = (frame_old_mask f OR sa_mask action OR sig_bit n, None)"
    using assms d m1 alt
    by (auto simp: enter_handler_def Let_def take_sigsuspend_saved_mask_for_def masks_of_def
        split: prod.splits option.splits if_splits)
qed

text \<open>C25. When a caught signal is handed to the guest, the frame names the handler and the flags of
  the disposition in force; the saved mask in the frame is the mask before a pending
  sigsuspend, or the thread's mask when there is none; while the handler runs the thread blocks
  that mask, the disposition's mask and the signal itself; and the suspended mask is gone.\<close>

theorem handler_frame_masks:
  assumes "kernel_dequeue_signal p t = (p', Some f)"
  shows "let n = frame_signum f; action = get_action (signals p) n
    in handler action = Handler (frame_handler f) \<and> frame_flags f = sa_flags action \<and>
       frame_old_mask f =
         (case sigsuspend_saved_mask_for p t of Some m \<Rightarrow> m | None \<Rightarrow> blocked_for p t) \<and>
       blocked_for p' t = frame_old_mask f OR sa_mask action OR sig_bit n \<and>
       sigsuspend_saved_mask_for p' t = None"
proof -
  have "let n = frame_signum f; action = get_action (signals p) n
    in handler action = Handler (frame_handler f) \<and> frame_flags f = sa_flags action \<and>
       frame_old_mask f = (case snd (masks_of p t) of Some m \<Rightarrow> m | None \<Rightarrow> fst (masks_of p t)) \<and>
       masks_of p' t = (frame_old_mask f OR sa_mask action OR sig_bit n, None)"
    using assms
  proof (induction p t rule: kernel_dequeue_signal.induct)
    case (1 p t)
    then obtain n where n: "next_deliverable_signal p t = Some n"
      by (cases "next_deliverable_signal p t") (auto simp: kernel_dequeue_signal.simps [of p t])
    let ?d = "fst (dequeue_signal_for p t n)"
    note same = dequeue_keeps(1) [of p t n, THEN get_action_cong] masks_dequeue [of p t n]
    show ?case
    proof (cases "handler (get_action (signals p) n)")
      case (Handler idx)
      then have "enter_handler p t n idx (get_action (signals p) n) = (p', f)"
        using 1(3) n by (auto simp: kernel_dequeue_signal.simps [of p t] split: prod.splits)
      from enter_handler_frame [OF this] Handler show ?thesis by (simp add: Let_def)
    next
      case Ignore
      then have "kernel_dequeue_signal ?d t = (p', Some f)"
        using 1(3) n by (simp add: kernel_dequeue_signal.simps [of p t])
      from 1(2) [OF n refl Ignore this] show ?thesis unfolding same .
    next
      case Default
      obtain p2 out where a: "apply_default_signal_action ?d n = (p2, out)" by fastforce
      then have k: "kernel_dequeue_signal p2 t = (p', Some f)" "out = OutContinue"
        using 1(3) n Default
        by (auto simp: kernel_dequeue_signal.simps [of p t] Let_def split: default_signal_outcome.splits)
      with a have p2: "p2 = ?d" using default_continue_same by blast
      from 1(1) [OF n refl Default refl a [symmetric] k(2,1)] show ?thesis unfolding p2 same .
    qed
  qed
  then show ?thesis unfolding masks_of_def Let_def fst_conv snd_conv by simp
qed

theorem handler_frame_masks_witness:
  "let p = fst (raise_signal (fst (sys_sigaction (process_new 5) SIGHUP 42 0 2)) SIGHUP)
   in \<exists>p' f. kernel_dequeue_signal p 0 = (p', Some f) \<and> frame_signum f = SIGHUP \<and>
        blocked_for p' 0 = 3"
proof -
  define p where "p = fst (raise_signal (fst (sys_sigaction (process_new 5) SIGHUP 42 0 2)) SIGHUP)"
  have n: "next_deliverable_signal p 0 = Some SIGHUP"
    and a: "get_action (signals p) SIGHUP = \<lparr> handler = Handler 42, sa_flags = 0, sa_mask = 2 \<rparr>"
    and m: "sigsuspend_saved_mask_for p 0 = None" "blocked_for p 0 = 0"
    unfolding p_def by code_simp+
  obtain p' f where e: "enter_handler p 0 SIGHUP 42 (get_action (signals p) SIGHUP) = (p', f)" by fastforce
  then have k: "kernel_dequeue_signal p 0 = (p', Some f)"
    using n a by (simp add: kernel_dequeue_signal.simps [of p 0])
  have f: "frame_signum f = SIGHUP" using enter_handler_frame(1) [OF e] .
  have "blocked_for p' 0 = 0 OR 2 OR sig_bit SIGHUP"
    using handler_frame_masks [OF k] f a m by (simp add: Let_def)
  also have "0 OR 2 OR sig_bit SIGHUP = 3" by code_simp
  finally show ?thesis using k f unfolding p_def by (auto simp: Let_def)
qed

section \<open>The delivery loop\<close>

text \<open>The signals a thread can take now, lowest first, and whether one does anything: a caught signal is left
  to the guest, an ignored one and the defaults \<open>ignore\<close> and \<open>continue\<close> vanish.\<close>

definition deliverable_signals :: "process \<Rightarrow> nat \<Rightarrow> nat list" where
  "deliverable_signals p t =
     filter (\<lambda>n. (pending_for p t AND sig_bit n) \<noteq> 0 \<and> (blocked_for p t AND sig_bit n) = 0) [1..<65]"

definition takes_effect :: "process \<Rightarrow> nat \<Rightarrow> bool" where
  "takes_effect p n =
     (case handler (get_action (signals p) n) of
        Handler _ \<Rightarrow> True
      | Ignore \<Rightarrow> False
      | Default \<Rightarrow> default_action n \<noteq> ActIgnore \<and> default_action n \<noteq> ActContinue)"

lemma deliverable_signals_next:
  assumes "pstate p \<noteq> Stopped"
  shows "next_deliverable_signal p t = (case deliverable_signals p t of [] \<Rightarrow> None | n # ns \<Rightarrow> Some n)"
proof (cases "next_deliverable_signal p t")
  case None
  have z: "deliverable_for p t = 0"
    using None assms trailing_zeros_lowest(1) [of "deliverable_for p t"]
    by (auto simp: next_deliverable_signal_def Let_def NSIG_def split: if_splits)
  have "(pending_for p t AND sig_bit n) = 0 \<or> (blocked_for p t AND sig_bit n) \<noteq> 0" for n
  proof (cases "bit (pending_for p t) (n - 1)")
    case True
    have "\<not> bit (deliverable_for p t) (n - 1)" unfolding z by simp
    then have "n - 1 < 64 \<longrightarrow> bit (blocked_for p t) (n - 1)" using True
      by (auto simp: deliverable_for_def bit_and_iff bit_not_iff)
    then show ?thesis using and_sig_bit [of "pending_for p t" n] and_sig_bit [of "blocked_for p t" n]
      by (auto simp: invalid_signal_def NSIG_def)
  qed (use and_sig_bit [of "pending_for p t" n] in blast)
  then show ?thesis using None by (auto simp: deliverable_signals_def)
next
  case (Some n)
  note d = next_deliverable_pending [OF Some assms]
  have n: "1 \<le> n" "n < 65" using d(1) by (auto simp: invalid_signal_def NSIG_def)
  let ?P = "\<lambda>n. (pending_for p t AND sig_bit n) \<noteq> 0 \<and> (blocked_for p t AND sig_bit n) = 0"
  have "[1..<65] = [1..<n] @ n # [Suc n..<65]" using n by (metis less_imp_le_nat upt_add_eq_append upt_conv_Cons le_add_diff_inverse)
  moreover have "filter ?P [1..<n] = []" using d(4) by (auto simp: filter_empty_conv)
  ultimately have "deliverable_signals p t = n # filter ?P [Suc n..<65]"
    using d(2,3) by (simp add: deliverable_signals_def)
  then show ?thesis using Some by simp
qed

text \<open>Taking signal \<open>n\<close> off the queues leaves the other pending signals of the thread alone.\<close>

lemma pending_for_consume:
  assumes "m \<noteq> n" "\<not> invalid_signal n"
  shows "(pending_for (fst (consume_signal_for p t n)) t AND sig_bit m) \<noteq> 0 \<longleftrightarrow> (pending_for p t AND sig_bit m) \<noteq> 0"
proof (cases "invalid_signal m")
  case True
  then show ?thesis by (simp add: and_sig_bit)
next
  case False
  have ne: "m - 1 \<noteq> n - 1" using assms False by (auto simp: invalid_signal_def)
  have c: "bit (pending (fst (consume_pending_info s n))) (m - 1) \<longleftrightarrow> bit (pending s) (m - 1)"
    for s :: "('a) pending_queue_scheme"
    using consume_instances(4) [OF assms(2) prod.collapse [symmetric], of s "m - 1"] ne by simp
  show ?thesis
  proof (cases rule: consume_signal_for_cases [of p t n])
    case (worker i ys zs)
    then have "List.find (\<lambda>i. tid i = t) (ys @ i # zs) = Some i" by (simp add: get_thread_def)
    then have "tid i = t" by (auto simp: find_Some_iff)
    have "List.find (\<lambda>i. tid i = t) (ys @ i\<lparr> thread_signals := x \<rparr> # zs) = Some (i\<lparr> thread_signals := x \<rparr>) \<or>
        List.find (\<lambda>i. tid i = t) (ys @ i\<lparr> thread_signals := x \<rparr> # zs) = List.find (\<lambda>i. tid i = t) (ys @ i # zs)" for x
      using \<open>tid i = t\<close> by (induction ys) auto
    from this [of "fst (consume_pending_info (thread_signals i) n)"] worker c [of "thread_signals i"] False
    show ?thesis by (auto simp: pending_for_def and_sig_bit bit_or_iff is_main_thread_def get_thread_def)
  qed (use c False in \<open>auto simp: pending_for_def and_sig_bit bit_or_iff is_main_thread_def get_thread_def split: option.splits\<close>)
qed

lemma pending_for_cong:
  "signals p' = signals p \<Longrightarrow> main_thread_signals p' = main_thread_signals p \<Longrightarrow> threads p' = threads p \<Longrightarrow>
   pid p' = pid p \<Longrightarrow> pending_for p' t = pending_for p t \<and> blocked_for p' t = blocked_for p t"
  by (simp add: pending_for_def blocked_for_def is_main_thread_def get_thread_def split: option.split)

lemma deliverable_dequeue:
  assumes "pstate p = Running" "deliverable_signals p t = n # ns"
  shows "deliverable_signals (fst (dequeue_signal_for p t n)) t \<in> {n # ns, ns}"
proof -
  let ?p = "fst (dequeue_signal_for p t n)"
  let ?P = "\<lambda>p n. (pending_for p t AND sig_bit n) \<noteq> 0 \<and> (blocked_for p t AND sig_bit n) = 0"
  have nx: "next_deliverable_signal p t = Some n" using assms deliverable_signals_next [of p t] by simp
  have v: "\<not> invalid_signal n" using next_deliverable_pending(1) [OF nx] assms(1) by simp
  have pf: "pending_for ?p t = pending_for (fst (consume_signal_for p t n)) t"
    using assms(1) by (intro pending_for_cong [THEN conjunct1]) (simp_all add: dequeue_signal_for_fst)
  have bl: "blocked_for ?p t = blocked_for p t" using masks_dequeue [of p t n] by (simp add: masks_of_def)
  have other: "?P ?p m = ?P p m" if "m \<noteq> n" for m unfolding pf bl using pending_for_consume [OF that v] by simp
  have d: "distinct (n # ns)" using assms(2) distinct_filter [of "[1..<65]" "?P p"] by (simp add: deliverable_signals_def)
  have "filter (?P ?p) [1..<65] = (if ?P ?p n then filter (?P p) [1..<65] else filter (\<lambda>m. m \<noteq> n) (filter (?P p) [1..<65]))"
  proof (cases "?P ?p n")
    case True
    have "?P p n" using next_deliverable_pending(2,3) [OF nx] assms(1) by simp
    then have "?P ?p m = ?P p m" for m using other [of m] True by (cases "m = n") auto
    then show ?thesis using True by simp
  next
    case False
    then have "?P ?p m = (?P p m \<and> m \<noteq> n)" for m using other [of m] by (cases "m = n") auto
    then show ?thesis using False by simp
  qed
  also have "filter (\<lambda>m. m \<noteq> n) (filter (?P p) [1..<65]) = ns"
  proof -
    have "filter (\<lambda>m. m \<noteq> n) ns = ns" using d by (auto simp: filter_id_conv)
    then show ?thesis using assms(2) by (simp add: deliverable_signals_def)
  qed
  finally show ?thesis using assms(2) by (simp add: deliverable_signals_def)
qed

lemma deliverable_terminate:
  "deliverable_signals (terminate_process_by_signal p n) t = deliverable_signals p t"
  "deliverable_signals (fst (record_stop p n)) t = deliverable_signals p t"
proof -
  have f: "List.find (\<lambda>i. tid i = t) (map (\<lambda>i. i\<lparr> thread_signals := (thread_signals i)\<lparr> sigsuspend_saved_mask := None \<rparr> \<rparr>) ts) =
      map_option (\<lambda>i. i\<lparr> thread_signals := (thread_signals i)\<lparr> sigsuspend_saved_mask := None \<rparr> \<rparr>) (List.find (\<lambda>i. tid i = t) ts)" for ts
    by (rule find_map) simp
  have "pending_for (terminate_process_by_signal p n) t = pending_for p t"
    "blocked_for (terminate_process_by_signal p n) t = blocked_for p t"
    by (simp_all add: pending_for_def blocked_for_def terminate_process_by_signal_def sys_exit_by_signal_def
        record_signal_exit_def set_wait_event_def is_main_thread_def get_thread_def Let_def f split: option.split)
  then show "deliverable_signals (terminate_process_by_signal p n) t = deliverable_signals p t"
    by (simp add: deliverable_signals_def)
  have "pending_for (fst (record_stop p n)) t = pending_for p t \<and> blocked_for (fst (record_stop p n)) t = blocked_for p t"
    by (rule pending_for_cong) (simp_all add: record_stop_def push_wake_def set_wait_event_def)
  then show "deliverable_signals (fst (record_stop p n)) t = deliverable_signals p t"
    by (simp add: deliverable_signals_def)
qed

text \<open>What the parent of a process sees when it dies of signal \<open>n\<close> or is stopped by it.\<close>

definition killed_by :: "process \<Rightarrow> nat \<Rightarrow> nat \<Rightarrow> bool" where
  "killed_by p u n \<longleftrightarrow> pstate p = Exited \<and> exit_signal p = n \<and>
     wait_event p = Some \<lparr> event_mask = EVENT_EXITED, wait_status = int n, event_code = CLD_KILLED,
       event_status = int n, child_uid = u \<rparr>"

definition stopped_by :: "process \<Rightarrow> nat \<Rightarrow> nat \<Rightarrow> bool" where
  "stopped_by p u n \<longleftrightarrow> pstate p = Stopped \<and>
     wait_event p = Some \<lparr> event_mask = EVENT_STOPPED, wait_status = int n * 256 + 0x7f, event_code = CLD_STOPPED,
       event_status = int n, child_uid = u \<rparr>"

lemma killed_by_terminate:
  "pstate p = Running \<or> pstate p = Stopped \<Longrightarrow> n < 128 \<Longrightarrow> killed_by (terminate_process_by_signal p n) (uid p) n"
  by (auto simp: killed_by_def terminate_process_by_signal_def sys_exit_by_signal_def record_signal_exit_def
      set_wait_event_def Let_def)

lemma stopped_by_stop: "pstate p = Running \<Longrightarrow> stopped_by (fst (record_stop p n)) (uid p) n \<and> snd (record_stop p n)"
  by (simp add: stopped_by_def record_stop_def push_wake_def set_wait_event_def)

lemma uid_dequeue [simp]: "uid (fst (dequeue_signal_for p t n)) = uid p"
proof -
  have "uid (fst (siginfo_words q info)) = uid q" for q info
    by (auto simp: siginfo_words_fst accept_posix_timer_notification_def Let_def split: option.splits)
  moreover have "uid (fst (consume_signal_for p t n)) = uid p"
    by (cases rule: consume_signal_for_cases [of p t n]; simp)
  ultimately show ?thesis by (simp add: dequeue_signal_for_fst clear_signal_everywhere_def clear_directed_signal_def)
qed

lemma default_effect:
  assumes "pstate p = Running" "handler (get_action (signals p) n) = Default" "takes_effect p n" "n < 128"
    "apply_default_signal_action q n = (q', out)" "pstate q = Running" "uid q = uid p"
  shows "out \<noteq> OutContinue" "deliverable_signals q' t = deliverable_signals q t"
    "if default_action n = ActStop then stopped_by q' (uid p) n else killed_by q' (uid p) n"
  using assms killed_by_terminate [of q n] stopped_by_stop [of q n] deliverable_terminate [of q n t]
  by (auto simp: takes_effect_def apply_default_signal_action_def split: default_act.splits prod.splits if_splits)

text \<open>The outcome of the loop for a running process, in terms of the first signal that takes effect.\<close>

definition delivered :: "process \<Rightarrow> nat \<Rightarrow> process \<Rightarrow> bool" where
  "delivered p t p' \<longleftrightarrow>
     (case List.find (takes_effect p) (deliverable_signals p t) of
        None \<Rightarrow> pstate p' = Running \<and> deliverable_signals p' t = []
      | Some n \<Rightarrow>
          filter (\<lambda>m. m \<noteq> n) (deliverable_signals p' t) = filter (\<lambda>m. n < m) (deliverable_signals p t) \<and>
          (case handler (get_action (signals p) n) of
             Handler _ \<Rightarrow> pstate p' = Running \<and> n \<in> set (deliverable_signals p' t)
           | _ \<Rightarrow> if default_action n = ActStop then stopped_by p' (uid p) n else killed_by p' (uid p) n))"

lemma deliverable_head:
  assumes "deliverable_signals p t = n # ns"
  shows "filter (\<lambda>m. n < m) (n # ns) = ns" "filter (\<lambda>m. m \<noteq> n) (n # ns) = ns" "filter (\<lambda>m. m \<noteq> n) ns = ns" "n < 65"
proof -
  have "sorted_wrt (<) (n # ns)" unfolding assms [symmetric] deliverable_signals_def by (rule sorted_wrt_filter) simp
  then have "\<forall>m\<in>set ns. n < m" by simp
  then show "filter (\<lambda>m. n < m) (n # ns) = ns" "filter (\<lambda>m. m \<noteq> n) (n # ns) = ns" "filter (\<lambda>m. m \<noteq> n) ns = ns"
    by (auto simp: filter_id_conv)
  have "n \<in> set (deliverable_signals p t)" by (simp add: assms)
  then show "n < 65" by (simp add: deliverable_signals_def)
qed

text \<open>A signal that does nothing can be taken first.\<close>

lemma delivered_skip:
  assumes "deliverable_signals p t = n # ns" "\<not> takes_effect p n" "deliverable_signals q t \<in> {n # ns, ns}"
    "actions (signals q) = actions (signals p)" "uid q = uid p" "delivered q t p'"
  shows "delivered p t p'"
proof -
  have te: "takes_effect q = takes_effect p" "get_action (signals q) = get_action (signals p)"
    using get_action_cong [OF assms(4)] by (simp_all add: takes_effect_def fun_eq_iff)
  have f: "List.find (takes_effect p) (deliverable_signals q t) = List.find (takes_effect p) (deliverable_signals p t)"
    using assms(1-3) by auto
  have g: "filter (\<lambda>m. k < m) (deliverable_signals q t) = filter (\<lambda>m. k < m) (deliverable_signals p t)"
    if "List.find (takes_effect p) (deliverable_signals p t) = Some k" for k
  proof -
    have "k \<in> set ns" using that assms(1,2) by (auto simp: find_Some_iff nth_Cons split: nat.splits)
    moreover have "\<forall>m\<in>set ns. n < m" using deliverable_head(1) [OF assms(1)] by (auto simp: filter_id_conv)
    ultimately show ?thesis using assms(1,3) by auto
  qed
  show ?thesis
  proof (cases "List.find (takes_effect p) (deliverable_signals p t)")
    case None
    then show ?thesis using assms(6) unfolding delivered_def te f by simp
  next
    case (Some k)
    show ?thesis using assms(6) unfolding delivered_def te f Some option.case g [OF Some] assms(5) .
  qed
qed

lemma deliver_running: "pstate p = Running \<Longrightarrow> delivered p t (deliver_pending_signals p t)"
proof (induction p t rule: deliver_pending_signals.induct)
  case (1 p t)
  note run = 1(3)
  have nx: "next_deliverable_signal p t = (case deliverable_signals p t of [] \<Rightarrow> None | n # ns \<Rightarrow> Some n)"
    using deliverable_signals_next [of p t] run by simp
  show ?case
  proof (cases "deliverable_signals p t")
    case Nil
    then show ?thesis using nx run by (simp add: delivered_def deliver_pending_signals.simps [of p t])
  next
    case (Cons n ns)
    let ?q = "fst (dequeue_signal_for p t n)"
    have some: "next_deliverable_signal p t = Some n" using nx Cons by simp
    have q: "deliverable_signals ?q t \<in> {n # ns, ns}" "actions (signals ?q) = actions (signals p)"
      "pstate ?q = Running" "uid ?q = uid p"
      using deliverable_dequeue [OF run Cons] dequeue_keeps [of p t n] run by simp_all
    note h = deliverable_head [OF Cons]
    show ?thesis
    proof (cases "handler (get_action (signals p) n)")
      case (Handler x)
      then have "deliver_pending_signals p t = p" using some by (simp add: deliver_pending_signals.simps [of p t])
      then show ?thesis using Handler Cons h run by (simp add: delivered_def takes_effect_def)
    next
      case Ignore
      have "deliver_pending_signals p t = deliver_pending_signals ?q t"
        using some Ignore q(3) by (simp add: deliver_pending_signals.simps [of p t] Let_def)
      moreover have "delivered ?q t (deliver_pending_signals ?q t)" using 1(2) [OF some Ignore refl] q(3) by simp
      ultimately show ?thesis using delivered_skip [OF Cons _ q(1,2,4)] Ignore by (simp add: takes_effect_def)
    next
      case Default
      obtain q' out where a: "apply_default_signal_action ?q n = (q', out)" by fastforce
      show ?thesis
      proof (cases "takes_effect p n")
        case True
        have n: "n < 128" using h(4) by simp
        note e = default_effect [OF run Default True n a q(3,4)]
        have "deliver_pending_signals p t = q'"
          using some Default a e(1) by (simp add: deliver_pending_signals.simps [of p t] Let_def split: default_signal_outcome.splits)
        then show ?thesis using True Default Cons q(1) h e(2,3) by (auto simp: delivered_def)
      next
        case False
        then have o: "out = OutContinue" "q' = ?q"
          using Default a by (auto simp: takes_effect_def apply_default_signal_action_def split: default_act.splits)
        have "deliver_pending_signals p t = deliver_pending_signals ?q t"
          using some Default a o q(3) by (simp add: deliver_pending_signals.simps [of p t] Let_def)
        moreover have "delivered ?q t (deliver_pending_signals ?q t)"
          using 1(1) [OF some Default refl a [symmetric]] o q(3) by simp
        ultimately show ?thesis using delivered_skip [OF Cons False q(1,2,4)] by simp
      qed
    qed
  qed
qed

lemma deliver_stopped:
  assumes "pstate p = Stopped" "dispositions_wf (signals p)"
  shows "if signal_pending_anywhere p SIGKILL then killed_by (deliver_pending_signals p t) (uid p) SIGKILL
    else deliver_pending_signals p t = p"
proof (cases "signal_pending_anywhere p SIGKILL")
  case False
  then show ?thesis using assms(1) by (simp add: deliver_pending_signals.simps [of p t] next_deliverable_signal_def)
next
  case True
  let ?q = "fst (dequeue_signal_for p t SIGKILL)"
  have d: "handler (get_action (signals p) SIGKILL) = Default"
    using assms(2) by (simp add: dispositions_wf_def get_action_def SIGKILL_def)
  have "apply_default_signal_action ?q SIGKILL = (terminate_process_by_signal ?q SIGKILL, OutExited)"
    by (simp add: apply_default_signal_action_def default_action_def SIGKILL_def SIGCHLD_def SIGWINCH_def SIGCONT_def
        SIGSTOP_def SIGTSTP_def SIGTTIN_def SIGTTOU_def)
  then have "deliver_pending_signals p t = terminate_process_by_signal ?q SIGKILL"
    using True assms(1) d by (simp add: deliver_pending_signals.simps [of p t] next_deliverable_signal_def)
  moreover have "killed_by (terminate_process_by_signal ?q SIGKILL) (uid ?q) SIGKILL"
    by (rule killed_by_terminate) (simp_all add: dequeue_keeps assms(1) SIGKILL_def)
  ultimately show ?thesis using True by simp
qed

text \<open>C24. What the delivery loop does.  For a running process the first deliverable signal that takes
  effect decides: every lower one is taken and vanishes, every higher one stays; a caught signal stays
  for the guest and the process runs on; the default action kills or stops the process with this signal and
  records it for the parent.  When no signal takes effect the process runs on with none left.  A
  stopped process is killed by a \<open>SIGKILL\<close> pending for any of its threads and is otherwise left alone.\<close>

theorem deliver_pending_complete:
  assumes "dispositions_wf (signals p)" and "pstate p = Running \<or> pstate p = Stopped"
  shows "let p' = deliver_pending_signals p t
    in if pstate p = Stopped
       then (if signal_pending_anywhere p SIGKILL then killed_by p' (uid p) SIGKILL else p' = p)
       else (case List.find (takes_effect p) (deliverable_signals p t) of
          None \<Rightarrow> pstate p' = Running \<and> deliverable_signals p' t = []
        | Some n \<Rightarrow>
            filter (\<lambda>m. m \<noteq> n) (deliverable_signals p' t) = filter (\<lambda>m. n < m) (deliverable_signals p t) \<and>
            (case handler (get_action (signals p) n) of
               Handler _ \<Rightarrow> pstate p' = Running \<and> n \<in> set (deliverable_signals p' t)
             | _ \<Rightarrow> if default_action n = ActStop then stopped_by p' (uid p) n else killed_by p' (uid p) n))"
proof (cases "pstate p = Stopped")
  case True
  then show ?thesis using deliver_stopped [OF True assms(1), of t] by (simp add: Let_def)
next
  case False
  then have "pstate p = Running" using assms(2) by simp
  from deliver_running [OF this, of t] show ?thesis unfolding delivered_def Let_def if_not_P [OF False] .
qed

text \<open>With signals 18 (\<open>SIGCONT\<close>), 34 and 40 pending, the first vanishes, the second kills and the third stays.\<close>

theorem deliver_pending_complete_witness:
  "let p = (process_new 7)\<lparr> signals := signal_state_new\<lparr> pending := 0x8200020000 \<rparr> \<rparr>; p' = deliver_pending_signals p 0
   in deliverable_signals p 0 = [SIGCONT, 34, 40] \<and> killed_by p' 0 34 \<and> filter (\<lambda>m. m \<noteq> 34) (deliverable_signals p' 0) = [40]"
proof -
  define p where "p = (process_new 7)\<lparr> signals := signal_state_new\<lparr> pending := 0x8200020000 \<rparr> \<rparr>"
  note eval = p_def process_new_def signal_state_new_def
  have d: "dispositions_wf (signals p)" "pstate p = Running \<or> pstate p = Stopped"
    by (simp_all add: eval dispositions_wf_def signal_action_default_def SIGKILL_def SIGSTOP_def)
  have w: "pending_for p 0 = 0x8200020000" "blocked_for p 0 = 0"
    by (simp_all add: eval pending_for_def blocked_for_def is_main_thread_def per_thread_signal_state_new_def)
  have e: "deliverable_signals p 0 = [SIGCONT, 34, 40]"
    unfolding deliverable_signals_def and_sig_bit w zero_and_eq by code_simp
  have h: "handler (get_action (signals p) n) = Default" for n
    by (simp add: eval get_action_def signal_action_default_def)
  have k: "default_action 34 = ActTerminate" "default_action SIGCONT = ActContinue" by code_simp+
  have f: "List.find (takes_effect p) (deliverable_signals p 0) = Some 34"
    unfolding e by (simp add: takes_effect_def h k)
  have s: "pstate p \<noteq> Stopped" "default_action 34 \<noteq> ActStop" "uid p = 0" using k by (simp_all add: eval)
  have m: "filter (\<lambda>m. 34 < m) [SIGCONT, 34, 40] = [40]" by code_simp
  have "filter (\<lambda>m. m \<noteq> 34) (deliverable_signals (deliver_pending_signals p 0) 0) = [40] \<and>
      killed_by (deliver_pending_signals p 0) 0 34"
    using deliver_pending_complete [OF d, of 0]
    unfolding Let_def if_not_P [OF s(1)] f option.case h signal_handler.case if_not_P [OF s(2)] s(3)
    unfolding e m .
  then show ?thesis using e unfolding p_def [symmetric] Let_def by simp
qed

section \<open>Job control\<close>

lemma instances_clear_everywhere:
  assumes "\<not> invalid_signal n"
  shows "\<not> signal_pending_anywhere (clear_signal_everywhere p n) n"
    and "\<not> signal_pending_anywhere p m \<Longrightarrow> \<not> signal_pending_anywhere (clear_signal_everywhere p n) m"
  by (auto simp: signal_pending_anywhere_def clear_signal_everywhere_def clear_directed_signal_def
      and_sig_bit clear_pending_instances list_ex_iff invalid_signal_def)

lemma pending_anywhere_record_continue [simp]:
  "signal_pending_anywhere (fst (record_continue p)) n = signal_pending_anywhere p n"
  by (simp add: signal_pending_anywhere_def record_continue_def push_wake_def set_wait_event_def)

lemma pstate_clear_everywhere [simp]: "pstate (clear_signal_everywhere p n) = pstate p"
  by (simp add: clear_signal_everywhere_def clear_directed_signal_def)

lemma record_continue_running: "pstate p \<in> {Running, Stopped} \<Longrightarrow> pstate (fst (record_continue p)) = Running"
  by (auto simp: record_continue_def push_wake_def set_wait_event_def)

text \<open>C26. Generating SIGCONT for a live process, whatever its mask and its disposition of
  SIGCONT, leaves it running, discards every pending stop signal of the shared queue and of every
  thread, and when the process was stopped records the continue event for its parent and pushes
  the matching wakeup for the host.\<close>

theorem sigcont_resumes:
  assumes "pstate p = Running \<or> pstate p = Stopped" and "stop \<in> {SIGSTOP, SIGTSTP, SIGTTIN, SIGTTOU}"
  shows "let p' = fst (raise_signal p SIGCONT)
    in pstate p' = Running \<and> \<not> signal_pending_anywhere p' stop \<and>
       (pstate p = Stopped \<longrightarrow>
          wakes p' = wakes p @ [\<lparr> wake_idx = of_nat (pid p), wake_type = WAKE_PROCESS_CONTINUED \<rparr>] \<and>
          map_option event_mask (wait_event p') = Some EVENT_CONTINUED)"
proof -
  let ?q = "fold (\<lambda>stop p. clear_signal_everywhere p stop) [SIGSTOP, SIGTSTP, SIGTTIN, SIGTTOU] p"
  have v: "\<not> invalid_signal SIGCONT" "\<not> invalid_signal SIGSTOP" "\<not> invalid_signal SIGTSTP"
    "\<not> invalid_signal SIGTTIN" "\<not> invalid_signal SIGTTOU"
    by (simp_all add: invalid_signal_def signal_numbers)
  have prep: "prepare_signal_generation p SIGCONT = fst (record_continue ?q)"
    using v(1) by (simp add: prepare_signal_generation_def)
  have q: "\<not> signal_pending_anywhere ?q stop"
    using assms(2) instances_clear_everywhere [OF v(2)] instances_clear_everywhere [OF v(3)]
      instances_clear_everywhere [OF v(4)] instances_clear_everywhere [OF v(5)] by auto
  have ps: "pstate ?q = pstate p" "wakes ?q = wakes p" "pid ?q = pid p"
    by (simp_all add: clear_signal_everywhere_def clear_directed_signal_def)
  define r where "r = fst (record_continue ?q)"
  have r: "pstate r = Running" "\<not> signal_pending_anywhere r stop"
    using record_continue_running [of ?q] assms(1) ps q by (auto simp: r_def)
  have rw: "pstate p = Stopped \<Longrightarrow>
      wakes r = wakes p @ [\<lparr> wake_idx = of_nat (pid p), wake_type = WAKE_PROCESS_CONTINUED \<rparr>] \<and>
      map_option event_mask (wait_event r) = Some EVENT_CONTINUED"
    using ps by (simp add: r_def record_continue_def push_wake_def set_wait_event_def push_event_def)
  have rs: "fst (raise_signal p SIGCONT) = r\<lparr> signals := fst (raise (signals r) SIGCONT) \<rparr>"
    by (simp add: raise_signal_def on_signals_fst prep r_def)
  have ne: "stop \<noteq> SIGCONT" using assms(2) by (auto simp: signal_numbers)
  have "(pending (fst (raise (signals r) SIGCONT)) AND sig_bit stop) \<noteq> 0 \<longleftrightarrow>
      (pending (signals r) AND sig_bit stop) \<noteq> 0"
    using ne by (auto simp: raise_def raise_internal_def raise_queued_def Let_def and_sig_bit bit_set_sig
        invalid_signal_def)
  then have "\<not> signal_pending_anywhere (r\<lparr> signals := fst (raise (signals r) SIGCONT) \<rparr>) stop"
    using r(2) by (auto simp: signal_pending_anywhere_def)
  with r rw rs show ?thesis by (simp add: Let_def)
qed

theorem sigcont_resumes_witness:
  "let p = fst (record_stop (process_new 5) SIGTSTP)
   in pstate p = Stopped \<and> pstate (fst (raise_signal p SIGCONT)) = Running"
proof -
  define p where "p = fst (record_stop (process_new 5) SIGTSTP)"
  have st: "pstate p = Stopped"
    by (simp add: p_def record_stop_def process_new_def push_wake_def set_wait_event_def)
  from sigcont_resumes [of p SIGSTOP] st have "pstate (fst (raise_signal p SIGCONT)) = Running"
    by (simp add: Let_def)
  with st show ?thesis unfolding p_def by simp
qed

section \<open>Two gaps\<close>

text \<open>
  \<open>sigaction\<close> stores the handler's mask unfiltered and the delivery of the signal adds it to
  the thread's mask: a handler can block SIGKILL while it runs, although sigprocmask and
  sigsuspend filter it.
\<close>

lemma sigkill_blocked_by_handler_mask:
  assumes "(sa_mask action AND sig_bit SIGKILL) \<noteq> 0" and "pstate p = Running"
    and e: "enter_handler p t n idx action = (q, f)"
  shows "next_deliverable_signal (fst (raise_signal q SIGKILL)) t \<noteq> Some SIGKILL"
proof -
  let ?r = "fst (raise_signal q SIGKILL)"
  have r: "?r = q\<lparr> signals := fst (raise (signals q) SIGKILL) \<rparr>"
    by (simp add: raise_signal_def on_signals_fst prepare_signal_generation_def invalid_signal_def
        signal_numbers)
  have bl: "blocked (fst (raise s m)) = blocked s" for s m
    by (simp add: raise_def raise_internal_def)
  have "blocked_for q t = frame_old_mask f OR sa_mask action OR sig_bit n"
    using enter_handler_frame(5) [OF e] by (simp add: masks_of_def)
  moreover have "blocked_for ?r t = blocked_for q t"
    unfolding r by (auto simp: blocked_for_def is_main_thread_def get_thread_def bl split: option.splits)
  ultimately have b: "(blocked_for ?r t AND sig_bit SIGKILL) \<noteq> 0"
    using assms(1) by (simp add: and_sig_bit bit_or_iff)
  have set: "pstate (fst (set_blocked_for x t w)) = pstate x"
    "pstate (set_sigsuspend_saved_mask_for x t m) = pstate x" for x w m
    by (auto simp: set_blocked_for_def set_sigsuspend_saved_mask_for_def update_thread_def
        split: option.splits)
  have "pstate q = pstate (fst (dequeue_signal_for p t n))"
    using e set by (auto simp: enter_handler_def Let_def take_sigsuspend_saved_mask_for_def
        split: prod.splits option.splits if_splits)
  then have "pstate ?r \<noteq> Stopped" using assms(2) dequeue_keeps(2) [of p t n] by (simp add: r)
  with next_deliverable_pending(2) [of ?r t SIGKILL] b show ?thesis by blast
qed

text \<open>
  A SIGCONT discards the queued notification of a timer whose signal is a stop signal, but not
  the timer's mark: from then on its expirations only count as overruns.
\<close>

lemma sigcont_strands_timer:
  "let p0 = fst (sys_sigaction (process_new 5) SIGTSTP 42 0 0);
     p1 = p0\<lparr> posix_timers := [Some \<lparr> clock_id = 1, sigev_signo = SIGTSTP, sigev_value = 0,
            sigev_notify = SIGEV_SIGNAL, sigev_tid = 0, interval_sec = 1, interval_nsec = 0,
            value_sec = 1, value_nsec = 0, notification_pending = False, overrun_current = 0,
            overrun_last = 0 \<rparr>] \<rparr>;
     p2 = fst (raise_signal (fst (queue_posix_timer_fire p1 0)) SIGCONT)
   in \<not> signal_pending_anywhere p2 SIGTSTP \<and> snd (queue_posix_timer_fire p2 0) = Err EAGAIN \<and>
      \<not> signal_pending_anywhere (fst (queue_posix_timer_fire p2 0)) SIGTSTP"
  by code_simp

end
