(* ===== verification/Pipe_Buffer.thy ===== *)
theory Pipe_Buffer
  imports Ofd_Table Wakeup
begin

text \<open>
  Pipes (\<^verbatim>\<open>src/crates/kernel/src/pipe.rs\<close>, \<open>PipeBuffer\<close>): a ring buffer with
  counted endpoints, the read-side discard sink of a closed TCP endpoint, the open protocol of
  named FIFOs, and the queue of descriptors sent with SCM_RIGHTS.  The field
  \<open>pipe_wakes\<close> collects the events the buffer pushes into the global wakeup buffer and
  \<open>pipe_dropped\<close> the queued descriptors whose destructor has run.
\<close>

section \<open>Descriptors in flight\<close>

datatype in_flight_pipe_ref_kind = RefPath | RefRead bool | RefWrite | RefReadWrite

record in_flight_socket =
  fl_domain :: nat
  fl_sock_type :: nat
  fl_protocol :: nat
  fl_state :: nat
  fl_send_buf_idx :: "nat option"
  fl_recv_buf_idx :: "nat option"
  fl_global_pipes :: bool
  fl_shut_rd :: bool
  fl_shut_wr :: bool
  fl_bind_addr :: "u8 list"
  fl_bind_port :: nat
  fl_peer_addr :: "u8 list"
  fl_peer_port :: nat

record in_flight_fd =
  fl_ofd_id :: ofd_id
  fl_file_id :: "file_id option"
  fl_file_type :: file_type
  fl_status_flags :: u32
  fl_host_handle :: int
  fl_offset :: int
  fl_path :: "u8 list"
  fl_pipe_ref_kind :: "in_flight_pipe_ref_kind option"
  fl_socket :: "in_flight_socket option"
  fl_owns_reference :: bool

definition in_flight_fd_new ::
  "ofd_id \<Rightarrow> file_id option \<Rightarrow> file_type \<Rightarrow> u32 \<Rightarrow> int \<Rightarrow> int \<Rightarrow> u8 list \<Rightarrow> in_flight_fd" where
  "in_flight_fd_new oid fid ft flags handle off path =
     \<lparr> fl_ofd_id = oid, fl_file_id = fid, fl_file_type = ft, fl_status_flags = flags,
       fl_host_handle = handle, fl_offset = off, fl_path = path, fl_pipe_ref_kind = None,
       fl_socket = None, fl_owns_reference = False \<rparr>"

section \<open>The buffer\<close>

datatype fifo_open_side = FifoReader | FifoWriter

record fifo_open_waiter =
  fw_side :: fifo_open_side
  fw_path :: "u8 list"
  fw_status_flags :: u32
  fw_fd_flags :: u32
  fw_reserved_fd :: int
  fw_ready :: bool

record wasm_stat =
  st_dev :: nat
  st_ino :: nat
  st_mode :: nat
  st_nlink :: nat
  st_uid :: nat
  st_gid :: nat
  st_size :: nat
  st_atime_sec :: nat
  st_atime_nsec :: nat
  st_mtime_sec :: nat
  st_mtime_nsec :: nat
  st_ctime_sec :: nat
  st_ctime_nsec :: nat

record pipe_buffer =
  pb_buf :: "u8 list"
  pb_head :: nat
  pb_tail :: nat
  pb_len :: nat
  read_count :: nat
  write_count :: nat
  in_flight_read_count :: nat
  in_flight_write_count :: nat
  orphaned_read :: bool
  pipe_idx :: nat
  is_fifo :: bool
  fifo_read_only_count :: nat
  fifo_writer_ever_opened :: bool
  fifo_read_hangup :: bool
  fifo_names :: nat
  fifo_path_refs :: nat
  fifo_metadata :: "wasm_stat option"
  fifo_open_waiters :: "(nat \<times> fifo_open_waiter) list"
  ancillary_fds :: "in_flight_fd list list"
  pipe_wakes :: "wakeup_event list"
  pipe_dropped :: "in_flight_fd list"

definition pipe_new :: "nat \<Rightarrow> pipe_buffer" where
  "pipe_new capacity =
     \<lparr> pb_buf = replicate capacity 0, pb_head = 0, pb_tail = 0, pb_len = 0,
       read_count = 1, write_count = 1, in_flight_read_count = 0, in_flight_write_count = 0,
       orphaned_read = False, pipe_idx = 0, is_fifo = False, fifo_read_only_count = 0,
       fifo_writer_ever_opened = False, fifo_read_hangup = False, fifo_names = 0,
       fifo_path_refs = 0, fifo_metadata = None, fifo_open_waiters = [], ancillary_fds = [],
       pipe_wakes = [], pipe_dropped = [] \<rparr>"

definition pipe_new_fifo :: "nat \<Rightarrow> wasm_stat \<Rightarrow> pipe_buffer" where
  "pipe_new_fifo capacity metadata =
     (pipe_new capacity)\<lparr> read_count := 0, write_count := 0, is_fifo := True, fifo_names := 1,
        fifo_metadata := Some metadata \<rparr>"

definition pipe_push :: "pipe_buffer \<Rightarrow> u8 \<Rightarrow> pipe_buffer" where
  "pipe_push p ty = p\<lparr> pipe_wakes := push_event (pipe_wakes p) (of_nat (pipe_idx p)) ty \<rparr>"

text \<open>The counters are \<open>u32\<close>: \<open>+= 1\<close> wraps, the saturating operations stop at the ends.\<close>

definition u32_inc :: "nat \<Rightarrow> nat" where
  "u32_inc n = (n + 1) mod 2 ^ 32"

abbreviation u32_sat_inc :: "nat \<Rightarrow> nat" where
  "u32_sat_inc n \<equiv> saturating_add_to U32_MAX n 1"

section \<open>Data\<close>

definition pipe_capacity :: "pipe_buffer \<Rightarrow> nat" where
  "pipe_capacity p = length (pb_buf p)"

definition free_space :: "pipe_buffer \<Rightarrow> nat" where
  "free_space p = pipe_capacity p - pb_len p"

text \<open>\<open>buf[off..off + data.len()].copy_from_slice(data)\<close>.\<close>

definition copy_at :: "u8 list \<Rightarrow> nat \<Rightarrow> u8 list \<Rightarrow> u8 list" where
  "copy_at buf off data = take off buf @ data @ drop (off + length data) buf"

definition pipe_write :: "pipe_buffer \<Rightarrow> u8 list \<Rightarrow> pipe_buffer \<times> nat" where
  "pipe_write p data =
     (if read_count p = 0 then (p, if orphaned_read p then length data else 0)
      else
        (let cap = pipe_capacity p; n = min (length data) (free_space p)
         in if n = 0 then (p, 0)
            else
              (let first = cap - pb_tail p;
                 buf = (if n \<le> first then copy_at (pb_buf p) (pb_tail p) (take n data)
                        else copy_at (copy_at (pb_buf p) (pb_tail p) (take first data)) 0
                               (drop first (take n data)))
               in (pipe_push (p\<lparr> pb_buf := buf, pb_tail := (pb_tail p + n) mod cap,
                                 pb_len := pb_len p + n \<rparr>) WAKE_READABLE, n))))"

text \<open>\<open>peek\<close> and \<open>read\<close> with an output buffer of \<open>m\<close> bytes.\<close>

definition pipe_peek :: "pipe_buffer \<Rightarrow> nat \<Rightarrow> u8 list" where
  "pipe_peek p m =
     (let cap = pipe_capacity p; n = min m (pb_len p)
      in if n = 0 then []
         else
           (let first = cap - pb_head p
            in if n \<le> first then take n (drop (pb_head p) (pb_buf p))
               else take first (drop (pb_head p) (pb_buf p)) @ take (n - first) (pb_buf p)))"

definition pipe_read :: "pipe_buffer \<Rightarrow> nat \<Rightarrow> pipe_buffer \<times> u8 list" where
  "pipe_read p m =
     (let cap = pipe_capacity p; n = min m (pb_len p)
      in if n = 0 then (p, [])
         else
           (let first = cap - pb_head p;
              out = (if n \<le> first then take n (drop (pb_head p) (pb_buf p))
                     else take first (drop (pb_head p) (pb_buf p)) @ take (n - first) (pb_buf p))
            in (pipe_push (p\<lparr> pb_head := (pb_head p + n) mod cap, pb_len := pb_len p - n \<rparr>)
                  WAKE_WRITABLE, out)))"

section \<open>Endpoints\<close>

definition has_ready_fifo_reader_waiter :: "pipe_buffer \<Rightarrow> bool" where
  "has_ready_fifo_reader_waiter p =
     list_ex (\<lambda>(_, w). fw_side w = FifoReader \<and> fw_ready w) (fifo_open_waiters p)"

text \<open>In the production build every queued descriptor owns its reference, so the queue is
  cleared and each destructor runs.\<close>

definition discard_unreceivable_ancillary :: "pipe_buffer \<Rightarrow> pipe_buffer" where
  "discard_unreceivable_ancillary p =
     p\<lparr> ancillary_fds := [], pipe_dropped := pipe_dropped p @ concat (ancillary_fds p) \<rparr>"

definition close_read_end :: "pipe_buffer \<Rightarrow> pipe_buffer" where
  "close_read_end p =
     (let p1 = p\<lparr> read_count := read_count p - 1 \<rparr>;
        p2 = (if read_count p1 = 0
              then discard_unreceivable_ancillary
                     (p1\<lparr> orphaned_read := False, pb_head := 0, pb_tail := 0, pb_len := 0 \<rparr>)
              else p1)
      in pipe_push p2 WAKE_WRITABLE)"

definition close_read_end_orderly :: "pipe_buffer \<Rightarrow> pipe_buffer" where
  "close_read_end_orderly p =
     (let p1 = p\<lparr> read_count := read_count p - 1 \<rparr>;
        p2 = (if read_count p1 = 0
              then discard_unreceivable_ancillary
                     (p1\<lparr> pb_head := 0, pb_tail := 0, pb_len := 0,
                          orphaned_read := write_count p1 > 0 \<rparr>)
              else p1)
      in pipe_push p2 WAKE_WRITABLE)"

definition close_write_end :: "pipe_buffer \<Rightarrow> pipe_buffer" where
  "close_write_end p =
     (let p1 = p\<lparr> write_count := write_count p - 1 \<rparr>;
        p2 = (if write_count p1 = 0
              then
                (let p' = p1\<lparr> orphaned_read := False \<rparr>
                 in if is_fifo p' \<and> fifo_writer_ever_opened p' \<and> fifo_read_only_count p' > 0
                    then p'\<lparr> fifo_read_hangup := True \<rparr>
                    else if is_fifo p' \<and> \<not> has_ready_fifo_reader_waiter p'
                    then p'\<lparr> fifo_writer_ever_opened := False, fifo_read_hangup := False \<rparr>
                    else p')
              else p1)
      in pipe_push p2 WAKE_READABLE)"

definition add_reader :: "pipe_buffer \<Rightarrow> pipe_buffer" where
  "add_reader p =
     pipe_push (p\<lparr> orphaned_read := False, read_count := u32_inc (read_count p) \<rparr>) WAKE_WRITABLE"

definition add_writer :: "pipe_buffer \<Rightarrow> pipe_buffer" where
  "add_writer p = pipe_push (p\<lparr> write_count := u32_inc (write_count p) \<rparr>) WAKE_READABLE"

definition is_read_end_open :: "pipe_buffer \<Rightarrow> bool" where
  "is_read_end_open p \<longleftrightarrow> read_count p > 0 \<or> orphaned_read p"

definition has_readers :: "pipe_buffer \<Rightarrow> bool" where
  "has_readers p \<longleftrightarrow> read_count p > 0"

definition is_write_end_open :: "pipe_buffer \<Rightarrow> bool" where
  "is_write_end_open p \<longleftrightarrow> write_count p > 0"

definition read_end_has_eof :: "pipe_buffer \<Rightarrow> bool" where
  "read_end_has_eof p \<longleftrightarrow> \<not> is_write_end_open p"

definition read_end_has_hangup :: "pipe_buffer \<Rightarrow> bool" where
  "read_end_has_hangup p = (if is_fifo p then fifo_read_hangup p else \<not> is_write_end_open p)"

definition is_fully_closed :: "pipe_buffer \<Rightarrow> bool" where
  "is_fully_closed p \<longleftrightarrow> read_count p = 0 \<and> write_count p = 0 \<and> \<not> orphaned_read p \<and>
     (\<not> is_fifo p \<or> (fifo_names p = 0 \<and> fifo_path_refs p = 0))"

definition has_external_reader :: "pipe_buffer \<Rightarrow> bool" where
  "has_external_reader p \<longleftrightarrow> read_count p > in_flight_read_count p"

section \<open>Names and opens of a FIFO\<close>

definition add_fifo_name :: "pipe_buffer \<Rightarrow> pipe_buffer" where
  "add_fifo_name p =
     p\<lparr> fifo_names := u32_sat_inc (fifo_names p),
        fifo_metadata := map_option (\<lambda>st. st\<lparr> st_nlink := u32_sat_inc (st_nlink st) \<rparr>) (fifo_metadata p) \<rparr>"

definition remove_fifo_name :: "pipe_buffer \<Rightarrow> pipe_buffer" where
  "remove_fifo_name p =
     p\<lparr> fifo_names := fifo_names p - 1,
        fifo_metadata := map_option (\<lambda>st. st\<lparr> st_nlink := st_nlink st - 1 \<rparr>) (fifo_metadata p) \<rparr>"

definition remove_fifo_name_at :: "pipe_buffer \<Rightarrow> nat \<Rightarrow> nat \<Rightarrow> pipe_buffer" where
  "remove_fifo_name_at p sec nsec =
     (let p1 = remove_fifo_name p
      in p1\<lparr> fifo_metadata :=
           map_option (\<lambda>st. st\<lparr> st_ctime_sec := sec, st_ctime_nsec := nsec \<rparr>) (fifo_metadata p1) \<rparr>)"

definition update_fifo_metadata :: "pipe_buffer \<Rightarrow> wasm_stat \<Rightarrow> pipe_buffer" where
  "update_fifo_metadata p metadata = p\<lparr> fifo_metadata := Some metadata \<rparr>"

definition add_fifo_path_ref :: "pipe_buffer \<Rightarrow> pipe_buffer" where
  "add_fifo_path_ref p = p\<lparr> fifo_path_refs := u32_sat_inc (fifo_path_refs p) \<rparr>"

definition close_fifo_path_ref :: "pipe_buffer \<Rightarrow> pipe_buffer" where
  "close_fifo_path_ref p = p\<lparr> fifo_path_refs := fifo_path_refs p - 1 \<rparr>"

definition inherit_fifo_read_only :: "pipe_buffer \<Rightarrow> pipe_buffer" where
  "inherit_fifo_read_only p = p\<lparr> fifo_read_only_count := u32_sat_inc (fifo_read_only_count p) \<rparr>"

text \<open>The cohort of readers is over: the next one starts without a hangup.\<close>

definition end_reader_cohort :: "pipe_buffer \<Rightarrow> pipe_buffer" where
  "end_reader_cohort p =
     (if fifo_read_only_count p = 0 \<and> \<not> has_ready_fifo_reader_waiter p
      then p\<lparr> fifo_read_hangup := False,
              fifo_writer_ever_opened := if write_count p = 0 then False else fifo_writer_ever_opened p \<rparr>
      else p)"

definition close_fifo_read_only :: "pipe_buffer \<Rightarrow> pipe_buffer" where
  "close_fifo_read_only p =
     end_reader_cohort (close_read_end (p\<lparr> fifo_read_only_count := fifo_read_only_count p - 1 \<rparr>))"

definition O_ACCMODE :: u32 where "O_ACCMODE = 3"

definition reference_kind :: "pipe_buffer \<Rightarrow> u32 \<Rightarrow> in_flight_pipe_ref_kind option" where
  "reference_kind p flags =
     (if (flags AND O_PATH) \<noteq> 0 then (if is_fifo p then Some RefPath else None)
      else if (flags AND O_ACCMODE) = 0 then Some (RefRead (is_fifo p))
      else if (flags AND O_ACCMODE) = 1 then Some RefWrite
      else if (flags AND O_ACCMODE) = 2 then Some RefReadWrite
      else None)"

fun add_reference :: "pipe_buffer \<Rightarrow> in_flight_pipe_ref_kind \<Rightarrow> pipe_buffer" where
  "add_reference p RefPath = add_fifo_path_ref p"
| "add_reference p (RefRead ro) =
     (if ro then inherit_fifo_read_only (add_reader p) else add_reader p)"
| "add_reference p RefWrite = add_writer p"
| "add_reference p RefReadWrite = add_writer (add_reader p)"

fun close_reference :: "pipe_buffer \<Rightarrow> in_flight_pipe_ref_kind \<Rightarrow> pipe_buffer" where
  "close_reference p RefPath = close_fifo_path_ref p"
| "close_reference p (RefRead ro) = (if ro then close_fifo_read_only p else close_read_end p)"
| "close_reference p RefWrite = close_write_end p"
| "close_reference p RefReadWrite = close_write_end (close_read_end p)"

definition add_fifo_endpoint_ref :: "pipe_buffer \<Rightarrow> fifo_open_side \<Rightarrow> pipe_buffer" where
  "add_fifo_endpoint_ref p side =
     (case side of FifoReader \<Rightarrow> add_reader p | FifoWriter \<Rightarrow> add_writer p)"

text \<open>The waiters are a \<open>BTreeMap\<close>: an association list sorted by owner.\<close>

definition has_fifo_open_waiter :: "pipe_buffer \<Rightarrow> nat \<Rightarrow> bool" where
  "has_fifo_open_waiter p owner \<longleftrightarrow> map_of (fifo_open_waiters p) owner \<noteq> None"

definition reserve_fifo_open ::
  "pipe_buffer \<Rightarrow> nat \<Rightarrow> fifo_open_side \<Rightarrow> u8 list \<Rightarrow> u32 \<Rightarrow> u32 \<Rightarrow> int \<Rightarrow> pipe_buffer \<times> bool" where
  "reserve_fifo_open p owner side path status fdflags reserved =
     (if has_fifo_open_waiter p owner then (p, False)
      else
        (let w = \<lparr> fw_side = side, fw_path = path, fw_status_flags = status, fw_fd_flags = fdflags,
                   fw_reserved_fd = reserved, fw_ready = False \<rparr>
         in (add_fifo_endpoint_ref
               (p\<lparr> fifo_open_waiters := btree_insert (fifo_open_waiters p) owner w \<rparr>) side, True)))"

definition mark_ready :: "pipe_buffer \<Rightarrow> (fifo_open_side \<Rightarrow> bool) \<Rightarrow> pipe_buffer" where
  "mark_ready p sides =
     p\<lparr> fifo_open_waiters :=
          map (\<lambda>(k, w). (k, if sides (fw_side w) then w\<lparr> fw_ready := True \<rparr> else w))
            (fifo_open_waiters p) \<rparr>"

definition publish_fifo_open :: "pipe_buffer \<Rightarrow> fifo_open_side \<Rightarrow> pipe_buffer" where
  "publish_fifo_open p side =
     (case side of
        FifoReader \<Rightarrow>
          (let p1 = p\<lparr> fifo_read_only_count := u32_sat_inc (fifo_read_only_count p) \<rparr>;
             p2 = (if write_count p1 > 0
                   then p1\<lparr> fifo_writer_ever_opened := True, fifo_read_hangup := False \<rparr>
                   else if fifo_writer_ever_opened p1 then p1\<lparr> fifo_read_hangup := True \<rparr>
                   else p1)
           in mark_ready p2 (\<lambda>s. s = FifoWriter))
      | FifoWriter \<Rightarrow>
          mark_ready (p\<lparr> fifo_writer_ever_opened := True, fifo_read_hangup := False \<rparr>)
            (\<lambda>s. s = FifoReader))"

definition publish_fifo_read_write_open :: "pipe_buffer \<Rightarrow> pipe_buffer" where
  "publish_fifo_read_write_open p =
     mark_ready (p\<lparr> fifo_writer_ever_opened := True, fifo_read_hangup := False \<rparr>) (\<lambda>_. True)"

definition take_ready_fifo_open :: "pipe_buffer \<Rightarrow> nat \<Rightarrow> pipe_buffer \<times> fifo_open_waiter option" where
  "take_ready_fifo_open p owner =
     (case map_of (fifo_open_waiters p) owner of
        None \<Rightarrow> (p, None)
      | Some w \<Rightarrow>
          if \<not> fw_ready w then (p, None)
          else (p\<lparr> fifo_open_waiters := btree_remove (fifo_open_waiters p) owner \<rparr>, Some w))"

definition cancel_fifo_open :: "pipe_buffer \<Rightarrow> nat \<Rightarrow> pipe_buffer \<times> fifo_open_waiter option" where
  "cancel_fifo_open p owner =
     (case map_of (fifo_open_waiters p) owner of
        None \<Rightarrow> (p, None)
      | Some w \<Rightarrow>
          (let p1 = p\<lparr> fifo_open_waiters := btree_remove (fifo_open_waiters p) owner \<rparr>
           in (case fw_side w of
                 FifoReader \<Rightarrow> end_reader_cohort (close_read_end p1)
               | FifoWriter \<Rightarrow> close_write_end p1, Some w)))"

definition cancel_fifo_opens_for_process ::
  "pipe_buffer \<Rightarrow> nat \<Rightarrow> pipe_buffer \<times> fifo_open_waiter list" where
  "cancel_fifo_opens_for_process p pid =
     fold (\<lambda>owner (p, ws).
         case cancel_fifo_open p owner of (p', Some w) \<Rightarrow> (p', ws @ [w]) | (p', None) \<Rightarrow> (p', ws))
       (filter (\<lambda>owner. owner div 2 ^ 32 mod 2 ^ 32 = pid) (map fst (fifo_open_waiters p))) (p, [])"

section \<open>References of queued descriptors\<close>

definition adopt_in_flight_reader :: "pipe_buffer \<Rightarrow> pipe_buffer" where
  "adopt_in_flight_reader p = p\<lparr> in_flight_read_count := in_flight_read_count p - 1 \<rparr>"

definition adopt_in_flight_writer :: "pipe_buffer \<Rightarrow> pipe_buffer" where
  "adopt_in_flight_writer p = p\<lparr> in_flight_write_count := in_flight_write_count p - 1 \<rparr>"

definition retain_in_flight_reader :: "pipe_buffer \<Rightarrow> pipe_buffer" where
  "retain_in_flight_reader p =
     (let p1 = add_reader p in p1\<lparr> in_flight_read_count := u32_inc (in_flight_read_count p1) \<rparr>)"

definition retain_in_flight_writer :: "pipe_buffer \<Rightarrow> pipe_buffer" where
  "retain_in_flight_writer p =
     (let p1 = add_writer p in p1\<lparr> in_flight_write_count := u32_inc (in_flight_write_count p1) \<rparr>)"

definition release_in_flight_reader :: "pipe_buffer \<Rightarrow> pipe_buffer" where
  "release_in_flight_reader p = close_read_end (adopt_in_flight_reader p)"

definition release_in_flight_reader_orderly :: "pipe_buffer \<Rightarrow> pipe_buffer" where
  "release_in_flight_reader_orderly p = close_read_end_orderly (adopt_in_flight_reader p)"

definition release_in_flight_writer :: "pipe_buffer \<Rightarrow> pipe_buffer" where
  "release_in_flight_writer p = close_write_end (adopt_in_flight_writer p)"

definition retain_in_flight_reference :: "pipe_buffer \<Rightarrow> in_flight_pipe_ref_kind \<Rightarrow> pipe_buffer" where
  "retain_in_flight_reference p k =
     (let p1 = add_reference p k
      in case k of
           RefPath \<Rightarrow> p1
         | RefRead _ \<Rightarrow> p1\<lparr> in_flight_read_count := u32_inc (in_flight_read_count p1) \<rparr>
         | RefWrite \<Rightarrow> p1\<lparr> in_flight_write_count := u32_inc (in_flight_write_count p1) \<rparr>
         | RefReadWrite \<Rightarrow>
             p1\<lparr> in_flight_read_count := u32_inc (in_flight_read_count p1),
                 in_flight_write_count := u32_inc (in_flight_write_count p1) \<rparr>)"

definition adopt_in_flight_reference :: "pipe_buffer \<Rightarrow> in_flight_pipe_ref_kind \<Rightarrow> pipe_buffer" where
  "adopt_in_flight_reference p k =
     (case k of
        RefPath \<Rightarrow> p
      | RefRead _ \<Rightarrow> adopt_in_flight_reader p
      | RefWrite \<Rightarrow> adopt_in_flight_writer p
      | RefReadWrite \<Rightarrow> adopt_in_flight_writer (adopt_in_flight_reader p))"

definition release_in_flight_reference :: "pipe_buffer \<Rightarrow> in_flight_pipe_ref_kind \<Rightarrow> pipe_buffer" where
  "release_in_flight_reference p k = close_reference (adopt_in_flight_reference p k) k"

definition push_ancillary :: "pipe_buffer \<Rightarrow> in_flight_fd list \<Rightarrow> pipe_buffer" where
  "push_ancillary p fds = (if fds = [] then p else p\<lparr> ancillary_fds := ancillary_fds p @ [fds] \<rparr>)"

definition pop_ancillary :: "pipe_buffer \<Rightarrow> pipe_buffer \<times> in_flight_fd list option" where
  "pop_ancillary p =
     (case ancillary_fds p of
        [] \<Rightarrow> (p, None)
      | b # bs \<Rightarrow> (p\<lparr> ancillary_fds := bs \<rparr>, Some b))"

definition has_ancillary :: "pipe_buffer \<Rightarrow> bool" where
  "has_ancillary p \<longleftrightarrow> ancillary_fds p \<noteq> []"

section \<open>The ring\<close>

definition ring_wf :: "pipe_buffer \<Rightarrow> bool" where
  "ring_wf p \<longleftrightarrow> 0 < pipe_capacity p \<and> pb_head p < pipe_capacity p \<and>
     pb_len p \<le> pipe_capacity p \<and> pb_tail p = (pb_head p + pb_len p) mod pipe_capacity p"

text \<open>The bytes in the pipe, oldest first.\<close>

definition pipe_content :: "pipe_buffer \<Rightarrow> u8 list" where
  "pipe_content p = map (\<lambda>i. pb_buf p ! ((pb_head p + i) mod pipe_capacity p)) [0..<pb_len p]"

lemma length_pipe_content [simp]: "length (pipe_content p) = pb_len p"
  by (simp add: pipe_content_def)

lemma length_copy_at [simp]: "off + length d \<le> length buf \<Longrightarrow> length (copy_at buf off d) = length buf"
  by (simp add: copy_at_def)

lemma nth_copy_at:
  "off + length d \<le> length buf \<Longrightarrow> j < length buf \<Longrightarrow>
     copy_at buf off d ! j = (if off \<le> j \<and> j < off + length d then d ! (j - off) else buf ! j)"
  by (auto simp: copy_at_def nth_append)

lemma mod_neq_window: "(a :: nat) < b \<Longrightarrow> b < a + c \<Longrightarrow> a mod c \<noteq> b mod c"
proof
  assume ab: "a < b" "b < a + c" and "a mod c = b mod c"
  then have "c dvd b - a" by (metis mod_eq_dvd_iff_nat less_imp_le_nat)
  with ab show False by (auto dest: dvd_imp_le)
qed

lemma mod_wrap: "c \<le> x \<Longrightarrow> x < 2 * c \<Longrightarrow> x mod c = x - c" for c x :: nat
  by (simp add: le_mod_geq)

text \<open>The two copies of a write that wraps around store the data at consecutive ring positions.\<close>

definition ring_store :: "u8 list \<Rightarrow> nat \<Rightarrow> u8 list \<Rightarrow> u8 list" where
  "ring_store buf pos data =
     (let first = length buf - pos
      in if length data \<le> first then copy_at buf pos data
         else copy_at (copy_at buf pos (take first data)) 0 (drop first data))"

lemma ring_store_nth:
  assumes "pos < length buf" and "length data \<le> length buf"
  shows "length (ring_store buf pos data) = length buf"
    and "i < length data \<Longrightarrow> ring_store buf pos data ! ((pos + i) mod length buf) = data ! i"
    and "j < length buf \<Longrightarrow> (\<And>i. i < length data \<Longrightarrow> j \<noteq> (pos + i) mod length buf) \<Longrightarrow>
      ring_store buf pos data ! j = buf ! j"
proof -
  let ?c = "length buf" and ?n = "length data"
  show "length (ring_store buf pos data) = ?c"
    using assms by (simp add: ring_store_def Let_def)
  have small: "ring_store buf pos data = copy_at buf pos data" if "?n \<le> ?c - pos"
    using that by (simp add: ring_store_def)
  let ?first = "copy_at buf pos (take (?c - pos) data)"
  have big: "ring_store buf pos data = copy_at ?first 0 (drop (?c - pos) data)"
    and lf: "length ?first = ?c" if "\<not> ?n \<le> ?c - pos"
    using that assms by (simp_all add: ring_store_def Let_def)
  show "ring_store buf pos data ! ((pos + i) mod ?c) = data ! i" if i: "i < ?n"
  proof (cases "?n \<le> ?c - pos")
    case True
    then show ?thesis using assms i by (simp add: small nth_copy_at)
  next
    case False
    show ?thesis
    proof (cases "pos + i < ?c")
      case True
      have "\<not> pos + i < ?n - (?c - pos)" using assms(2) by linarith
      with True show ?thesis using assms i False lf [OF False] by (simp add: big nth_copy_at)
    next
      case past: False
      have "(pos + i) mod ?c = pos + i - ?c" using past assms i by (intro mod_wrap) linarith+
      then have m: "(pos + i) mod ?c = i - (?c - pos)" and k: "\<not> i < ?c - pos"
        using past assms(1) by linarith+
      have "copy_at ?first 0 (drop (?c - pos) data) ! (i - (?c - pos)) =
          drop (?c - pos) data ! (i - (?c - pos))"
        by (subst nth_copy_at) (use lf [OF False] assms i k in auto)
      then show ?thesis using big [OF False] m k i by simp
    qed
  qed
  assume j: "j < ?c" and other: "\<And>i. i < ?n \<Longrightarrow> j \<noteq> (pos + i) mod ?c"
  have no1: "\<not> (pos \<le> j \<and> j < pos + ?n)"
  proof
    assume a: "pos \<le> j \<and> j < pos + ?n"
    then have "j - pos < ?n" "pos + (j - pos) = j" by linarith+
    with other [of "j - pos"] j show False by simp
  qed
  have no2: "\<not> (?c < pos + ?n \<and> j < pos + ?n - ?c)"
  proof
    assume a: "?c < pos + ?n \<and> j < pos + ?n - ?c"
    then have "?c + j - pos < ?n" "pos + (?c + j - pos) = ?c + j" using assms j by linarith+
    with other [of "?c + j - pos"] j show False by simp
  qed
  show "ring_store buf pos data ! j = buf ! j"
  proof (cases "?n \<le> ?c - pos")
    case True
    then show ?thesis using no1 j assms by (auto simp: small nth_copy_at)
  next
    case False
    then show ?thesis using no1 no2 j assms lf [OF False] by (auto simp: big nth_copy_at)
  qed
qed

lemma pipe_write_eq:
  assumes "read_count p \<noteq> 0" and "ring_wf p" and n_def: "n = min (length data) (free_space p)"
  shows "pipe_write p data =
    (if n = 0 then (p, 0)
     else (pipe_push (p\<lparr> pb_buf := ring_store (pb_buf p) (pb_tail p) (take n data),
             pb_tail := (pb_tail p + n) mod pipe_capacity p, pb_len := pb_len p + n \<rparr>) WAKE_READABLE, n))"
  using assms
  by (auto simp: pipe_write_def n_def Let_def ring_store_def pipe_capacity_def free_space_def take_drop
      min_def)

lemma pipe_write_content:
  assumes wf: "ring_wf p" and w: "pipe_write p data = (p', n)" and r: "read_count p \<noteq> 0"
  shows "pipe_content p' = pipe_content p @ take n data" and "ring_wf p'"
    and "n = min (length data) (free_space p)"
proof -
  let ?c = "pipe_capacity p" and ?n = "min (length data) (free_space p)"
  have wfs: "0 < ?c" "pb_head p < ?c" "pb_len p \<le> ?c" "pb_tail p = (pb_head p + pb_len p) mod ?c"
    using wf by (simp_all add: ring_wf_def)
  show n: "n = ?n" using w pipe_write_eq [OF r wf refl, of data] by (auto split: if_splits)
  show "pipe_content p' = pipe_content p @ take n data" "ring_wf p'"
  proof (atomize (full), cases "?n = 0")
    case True
    then show "pipe_content p' = pipe_content p @ take n data \<and> ring_wf p'"
      using w pipe_write_eq [OF r wf refl, of data] wf n by simp
  next
    case False
    define d where "d = take ?n data"
    have len: "length d = ?n" by (simp add: d_def)
    have p': "pb_buf p' = ring_store (pb_buf p) (pb_tail p) d" "pb_head p' = pb_head p"
      "pb_tail p' = (pb_tail p + ?n) mod ?c" "pb_len p' = pb_len p + ?n"
      using w pipe_write_eq [OF r wf refl, of data] False by (auto simp: pipe_push_def d_def)
    have tl: "pb_tail p < length (pb_buf p)" "length d \<le> length (pb_buf p)"
      using wfs len by (simp_all add: pipe_capacity_def free_space_def)
    note rs = ring_store_nth [OF tl]
    have c': "pipe_capacity p' = ?c" using rs(1) p'(1) by (simp add: pipe_capacity_def)
    have "ring_wf p'"
      using wfs p' c' by (simp add: ring_wf_def free_space_def mod_add_left_eq add.assoc)
    moreover have "pipe_content p' = pipe_content p @ d"
    proof (rule nth_equalityI)
      show "length (pipe_content p') = length (pipe_content p @ d)" using p' len by simp
      fix i assume "i < length (pipe_content p')"
      then have i: "i < pb_len p + ?n" using p' by simp
      then have "pipe_content p' ! i = pb_buf p' ! ((pb_head p + i) mod ?c)"
        using p' c' by (simp add: pipe_content_def)
      also have "\<dots> = (pipe_content p @ d) ! i"
      proof (cases "i < pb_len p")
        case True
        have "(pb_head p + i) mod ?c \<noteq> (pb_tail p + k) mod length (pb_buf p)" if "k < length d" for k
        proof -
          have "pb_head p + i < pb_head p + pb_len p + k" using True by simp
          moreover have "pb_head p + pb_len p + k < pb_head p + i + ?c"
            using that len wfs(3) unfolding free_space_def by linarith
          ultimately have "(pb_head p + i) mod ?c \<noteq> (pb_head p + pb_len p + k) mod ?c"
            by (rule mod_neq_window)
          then show ?thesis by (simp add: wfs(4) pipe_capacity_def mod_add_left_eq)
        qed
        then have "pb_buf p' ! ((pb_head p + i) mod ?c) = pb_buf p ! ((pb_head p + i) mod ?c)"
          unfolding p'(1) by (intro rs(3)) (use wfs in \<open>simp_all add: pipe_capacity_def\<close>)
        with True show ?thesis by (simp add: pipe_content_def nth_append)
      next
        case False
        have lt: "i - pb_len p < length d" using False i len by linarith
        have "(pb_tail p + (i - pb_len p)) mod ?c = (pb_head p + pb_len p + (i - pb_len p)) mod ?c"
          by (simp only: wfs(4) mod_add_left_eq)
        with False have "(pb_head p + i) mod ?c = (pb_tail p + (i - pb_len p)) mod ?c" by simp
        then have "pb_buf p' ! ((pb_head p + i) mod ?c) = d ! (i - pb_len p)"
          unfolding p'(1) using rs(2) [of "i - pb_len p"] lt by (simp add: pipe_capacity_def)
        with False show ?thesis by (simp add: nth_append)
      qed
      finally show "pipe_content p' ! i = (pipe_content p @ d) ! i" .
    qed
    ultimately show "pipe_content p' = pipe_content p @ take n data \<and> ring_wf p'"
      using n by (simp add: d_def)
  qed
qed

lemma pipe_peek_content:
  assumes wf: "ring_wf p"
  shows "pipe_peek p m = take m (pipe_content p)"
proof -
  let ?c = "pipe_capacity p" and ?n = "min m (pb_len p)" and ?h = "pb_head p"
  have wfs: "0 < ?c" "?h < ?c" "pb_len p \<le> ?c" using wf by (simp_all add: ring_wf_def)
  have len: "length (pipe_peek p m) = ?n"
    using wfs by (auto simp: pipe_peek_def Let_def pipe_capacity_def)
  show ?thesis
  proof (rule nth_equalityI)
    show "length (pipe_peek p m) = length (take m (pipe_content p))" using len by simp
    fix i assume "i < length (pipe_peek p m)"
    then have i: "i < ?n" using len by simp
    have "pipe_peek p m ! i = pb_buf p ! ((?h + i) mod ?c)"
    proof (cases "?h + i < ?c")
      case True
      then show ?thesis using i wfs
        by (auto simp: pipe_peek_def Let_def nth_append pipe_capacity_def)
    next
      case False
      have "(?h + i) mod ?c = ?h + i - ?c" using False i wfs by (intro mod_wrap) linarith+
      then have "(?h + i) mod ?c = i - (?c - ?h)" using False wfs(2) by linarith
      then show ?thesis using i wfs False
        by (auto simp: pipe_peek_def Let_def nth_append pipe_capacity_def)
    qed
    with i show "pipe_peek p m ! i = take m (pipe_content p) ! i" by (simp add: pipe_content_def)
  qed
qed

lemma pipe_read_peek: "snd (pipe_read p m) = pipe_peek p m"
  by (simp add: pipe_read_def pipe_peek_def Let_def)

lemma pipe_read_content:
  assumes wf: "ring_wf p" and r: "pipe_read p m = (p', out)"
  shows "out = take m (pipe_content p)" and "pipe_content p' = drop m (pipe_content p)" and "ring_wf p'"
proof -
  let ?c = "pipe_capacity p" and ?n = "min m (pb_len p)" and ?h = "pb_head p"
  have wfs: "0 < ?c" "?h < ?c" "pb_len p \<le> ?c" "pb_tail p = (?h + pb_len p) mod ?c"
    using wf by (simp_all add: ring_wf_def)
  show "out = take m (pipe_content p)"
    using pipe_read_peek [of p m] pipe_peek_content [OF wf, of m] r by simp
  show "pipe_content p' = drop m (pipe_content p)" "ring_wf p'"
  proof (atomize (full), cases "?n = 0")
    case True
    then show "pipe_content p' = drop m (pipe_content p) \<and> ring_wf p'"
      using r wf by (cases "m = 0") (simp_all add: pipe_read_def pipe_content_def)
  next
    case False
    have "p' = fst (pipe_read p m)" using r by simp
    then have "p' = pipe_push (p\<lparr> pb_head := (?h + ?n) mod ?c, pb_len := pb_len p - ?n \<rparr>) WAKE_WRITABLE"
      using False by (simp add: pipe_read_def Let_def)
    then have p': "pb_buf p' = pb_buf p" "pb_head p' = (?h + ?n) mod ?c" "pb_len p' = pb_len p - ?n"
      "pb_tail p' = pb_tail p"
      by (simp_all add: pipe_push_def)
    have c': "pipe_capacity p' = ?c" using p' by (simp add: pipe_capacity_def)
    have "((?h + ?n) mod ?c + (pb_len p - ?n)) mod ?c = (?h + ?n + (pb_len p - ?n)) mod ?c"
      by (simp only: mod_add_left_eq)
    moreover have "?h + ?n + (pb_len p - ?n) = ?h + pb_len p" by simp
    ultimately have "ring_wf p'"
      unfolding ring_wf_def p' c' using wfs by (auto simp: min_def)
    moreover have "pipe_content p' = drop m (pipe_content p)"
      by (rule nth_equalityI)
        (auto simp: p' c' pipe_content_def mod_add_left_eq min_def add.assoc split: if_splits)
    ultimately show "pipe_content p' = drop m (pipe_content p) \<and> ring_wf p'" by simp
  qed
qed

section \<open>A pipe with a reader is a first-in first-out queue\<close>

definition pipe_live :: "pipe_buffer \<Rightarrow> bool" where
  "pipe_live p \<longleftrightarrow> ring_wf p \<and> read_count p \<noteq> 0"

lemma pipe_io_keeps:
  "pipe_write p data = (p', n) \<Longrightarrow> read_count p' = read_count p \<and> pipe_capacity p' = pipe_capacity p \<or>
     \<not> ring_wf p"
  "pipe_read p m = (p', out) \<Longrightarrow> read_count p' = read_count p"
proof -
  assume w: "pipe_write p data = (p', n)"
  show "read_count p' = read_count p \<and> pipe_capacity p' = pipe_capacity p \<or> \<not> ring_wf p"
  proof (cases "ring_wf p \<and> read_count p \<noteq> 0")
    case True
    then have wf: "ring_wf p" and r: "read_count p \<noteq> 0" by auto
    let ?n = "min (length data) (free_space p)"
    have "length (take ?n data) \<le> length (pb_buf p)" "pb_tail p < length (pb_buf p)"
      using wf by (simp_all add: ring_wf_def free_space_def pipe_capacity_def)
    then have "length (ring_store (pb_buf p) (pb_tail p) (take ?n data)) = length (pb_buf p)"
      by (intro ring_store_nth(1))
    then show ?thesis using w pipe_write_eq [OF r wf refl, of data]
      by (auto simp: pipe_push_def pipe_capacity_def split: if_splits)
  next
    case False
    then show ?thesis using w by (auto simp: pipe_write_def)
  qed
next
  assume "pipe_read p m = (p', out)"
  then show "read_count p' = read_count p" by (auto simp: pipe_read_def Let_def pipe_push_def split: if_splits)
qed

interpretation pipe_bytes: fifo_queue pipe_content pipe_write pipe_read pipe_live
proof unfold_locales
  fix q :: pipe_buffer and xs q' n
  assume q: "pipe_live q" and w: "pipe_write q xs = (q', n)"
  then have wf: "ring_wf q" and r: "read_count q \<noteq> 0" by (simp_all add: pipe_live_def)
  show "pipe_content q' = pipe_content q @ take n xs" by (rule pipe_write_content(1) [OF wf w r])
  show "pipe_live q'"
    using pipe_write_content(2) [OF wf w r] pipe_io_keeps(1) [OF w] wf r by (simp add: pipe_live_def)
next
  fix q :: pipe_buffer and m q' out
  assume q: "pipe_live q" and rd: "pipe_read q m = (q', out)"
  then have wf: "ring_wf q" by (simp add: pipe_live_def)
  note rc = pipe_read_content [OF wf rd]
  show "out @ pipe_content q' = pipe_content q" by (simp add: rc(1,2))
  show "length out = min m (length (pipe_content q))" by (simp add: rc(1) min.commute)
  show "pipe_live q'" using rc(3) pipe_io_keeps(2) [OF rd] q by (simp add: pipe_live_def)
qed

text \<open>A run of writes and reads on a pipe: the bytes accepted and the bytes delivered.\<close>

fun pipe_run :: "pipe_buffer \<Rightarrow> u8 queue_op list \<Rightarrow> pipe_buffer \<times> u8 list \<times> u8 list" where
  "pipe_run p [] = (p, [], [])"
| "pipe_run p (Put xs # ops) =
     (let (p1, n) = pipe_write p xs; (p2, acc, del) = pipe_run p1 ops in (p2, take n xs @ acc, del))"
| "pipe_run p (Get m # ops) =
     (let (p1, out) = pipe_read p m; (p2, acc, del) = pipe_run p1 ops in (p2, acc, out @ del))"

lemma pipe_run_eq: "pipe_run p ops = pipe_bytes.run p ops"
  by (induction p ops rule: pipe_run.induct) (simp_all split: prod.splits)

text \<open>C27. A pipe delivers exactly the bytes it accepted, in order: whatever sequence of writes
  and reads is made on a pipe with a reader, and however often the ring wraps around, the bytes it
  held and accepted are those delivered followed by those it still holds, and the ring stays
  well formed.\<close>

theorem pipe_is_fifo:
  assumes "pipe_live p" and "pipe_run p ops = (p', accepted, delivered)"
  shows "pipe_content p @ accepted = delivered @ pipe_content p' \<and> pipe_live p'"
  using pipe_bytes.run_conserves [OF assms(1)] assms(2) unfolding pipe_run_eq by blast

theorem pipe_is_fifo_witness:
  "let (p', accepted, delivered) = pipe_run (pipe_new 3) [Put [1, 2], Get 1, Put [3, 4, 5], Get 9]
   in accepted = [1, 2, 3, 4] \<and> delivered = [1, 2, 3, 4] \<and> pipe_content p' = []"
proof -
  have live: "pipe_live (pipe_new 3)"
    by (simp add: pipe_live_def ring_wf_def pipe_new_def pipe_capacity_def)
  obtain p' acc del where r: "pipe_run (pipe_new 3) [Put [1, 2], Get 1, Put [3, 4, 5], Get 9] = (p', acc, del)"
    using prod_cases3 by blast
  have "fst (snd (pipe_run (pipe_new 3) [Put [1, 2], Get 1, Put [3, 4, 5], Get 9])) = [1, 2, 3, 4]"
    "pipe_content (fst (pipe_run (pipe_new 3) [Put [1, 2], Get 1, Put [3, 4, 5], Get 9])) = []"
    by code_simp+
  with r have a: "acc = [1, 2, 3, 4]" "pipe_content p' = []" by simp_all
  have "pipe_content (pipe_new 3) = []" by (simp add: pipe_content_def pipe_new_def)
  with pipe_is_fifo [OF live r] a r show ?thesis by simp
qed

section \<open>Readiness is announced\<close>

text \<open>A reader can make progress: there are bytes, or every writer is gone.  A writer can make
  progress: there is room, or nobody can read, or the reader is TCP's discard sink.\<close>

definition pipe_readable :: "pipe_buffer \<Rightarrow> bool" where
  "pipe_readable p \<longleftrightarrow> pb_len p > 0 \<or> read_end_has_eof p"

definition pipe_writable :: "pipe_buffer \<Rightarrow> bool" where
  "pipe_writable p \<longleftrightarrow> free_space p > 0 \<or> read_count p = 0"

datatype pipe_op =
    OpWrite "u8 list" | OpRead nat | OpCloseRead | OpCloseReadOrderly | OpCloseWrite
  | OpAddReader | OpAddWriter | OpAddRef in_flight_pipe_ref_kind | OpCloseRef in_flight_pipe_ref_kind
  | OpRetain in_flight_pipe_ref_kind | OpAdopt in_flight_pipe_ref_kind
  | OpRelease in_flight_pipe_ref_kind | OpPublish fifo_open_side | OpCancel nat
  | OpSend "in_flight_fd list" | OpReceive

fun pipe_apply :: "pipe_op \<Rightarrow> pipe_buffer \<Rightarrow> pipe_buffer" where
  "pipe_apply (OpWrite data) p = fst (pipe_write p data)"
| "pipe_apply (OpRead m) p = fst (pipe_read p m)"
| "pipe_apply OpCloseRead p = close_read_end p"
| "pipe_apply OpCloseReadOrderly p = close_read_end_orderly p"
| "pipe_apply OpCloseWrite p = close_write_end p"
| "pipe_apply OpAddReader p = add_reader p"
| "pipe_apply OpAddWriter p = add_writer p"
| "pipe_apply (OpAddRef k) p = add_reference p k"
| "pipe_apply (OpCloseRef k) p = close_reference p k"
| "pipe_apply (OpRetain k) p = retain_in_flight_reference p k"
| "pipe_apply (OpAdopt k) p = adopt_in_flight_reference p k"
| "pipe_apply (OpRelease k) p = release_in_flight_reference p k"
| "pipe_apply (OpPublish side) p = publish_fifo_open p side"
| "pipe_apply (OpCancel owner) p = fst (cancel_fifo_open p owner)"
| "pipe_apply (OpSend fds) p = push_ancillary p fds"
| "pipe_apply OpReceive p = fst (pop_ancillary p)"

text \<open>
  \<open>announces p p'\<close>: from \<open>p\<close> to \<open>p'\<close> events of this pipe were appended, among them a
  readable event if a reader could not make progress before and can now, and a writable event if a
  writer can now.
\<close>

definition announces :: "pipe_buffer \<Rightarrow> pipe_buffer \<Rightarrow> bool" where
  "announces p p' \<longleftrightarrow> pipe_idx p' = pipe_idx p \<and>
     (\<exists>tys. pipe_wakes p' =
        pipe_wakes p @ map (\<lambda>ty. \<lparr> wake_idx = of_nat (pipe_idx p), wake_type = ty \<rparr>) tys \<and>
        (\<not> pipe_readable p \<and> pipe_readable p' \<longrightarrow> WAKE_READABLE \<in> set tys) \<and>
        (\<not> pipe_writable p \<and> pipe_writable p' \<longrightarrow> WAKE_WRITABLE \<in> set tys))"

lemma announces_refl_like:
  "pipe_idx p' = pipe_idx p \<Longrightarrow> pipe_wakes p' = pipe_wakes p \<Longrightarrow>
     pipe_readable p' = pipe_readable p \<Longrightarrow> pipe_writable p' = pipe_writable p \<Longrightarrow> announces p p'"
  unfolding announces_def by (intro conjI exI [of _ "[]"]) auto

lemma announces_trans [trans]: "announces p q \<Longrightarrow> announces q r \<Longrightarrow> announces p r"
proof -
  assume pq: "announces p q" and qr: "announces q r"
  from pq obtain t1 where 1: "pipe_idx q = pipe_idx p"
    "pipe_wakes q = pipe_wakes p @ map (\<lambda>ty. \<lparr> wake_idx = of_nat (pipe_idx p), wake_type = ty \<rparr>) t1"
    "\<not> pipe_readable p \<and> pipe_readable q \<longrightarrow> WAKE_READABLE \<in> set t1"
    "\<not> pipe_writable p \<and> pipe_writable q \<longrightarrow> WAKE_WRITABLE \<in> set t1"
    unfolding announces_def by blast
  from qr obtain t2 where 2: "pipe_idx r = pipe_idx q"
    "pipe_wakes r = pipe_wakes q @ map (\<lambda>ty. \<lparr> wake_idx = of_nat (pipe_idx q), wake_type = ty \<rparr>) t2"
    "\<not> pipe_readable q \<and> pipe_readable r \<longrightarrow> WAKE_READABLE \<in> set t2"
    "\<not> pipe_writable q \<and> pipe_writable r \<longrightarrow> WAKE_WRITABLE \<in> set t2"
    unfolding announces_def by blast
  show ?thesis unfolding announces_def using 1 2 by (intro conjI exI [of _ "t1 @ t2"]) auto
qed

lemma announces_push:
  assumes "pipe_idx q = pipe_idx p" and "pipe_wakes q = pipe_wakes p"
    and "ty = WAKE_WRITABLE \<or> (pipe_writable q \<longrightarrow> pipe_writable p)"
    and "ty = WAKE_READABLE \<or> (pipe_readable q \<longrightarrow> pipe_readable p)"
  shows "announces p (pipe_push q ty)"
proof -
  have "pipe_readable (pipe_push q ty) = pipe_readable q" "pipe_writable (pipe_push q ty) = pipe_writable q"
    by (simp_all add: pipe_push_def pipe_readable_def pipe_writable_def read_end_has_eof_def
        is_write_end_open_def free_space_def pipe_capacity_def)
  then show ?thesis
    unfolding announces_def using assms
    by (intro conjI exI [of _ "[ty]"]) (auto simp: pipe_push_def push_event_def)
qed

lemmas readiness_defs = pipe_readable_def pipe_writable_def read_end_has_eof_def
  is_write_end_open_def free_space_def pipe_capacity_def

lemma announces_endpoints:
  "announces p (close_read_end p)" "announces p (close_read_end_orderly p)"
  "announces p (close_write_end p)" "announces p (add_reader p)" "announces p (add_writer p)"
proof -
  show "announces p (close_read_end p)" "announces p (close_read_end_orderly p)"
    unfolding close_read_end_def close_read_end_orderly_def Let_def
    by (rule announces_push; simp add: discard_unreceivable_ancillary_def readiness_defs)+
  show "announces p (close_write_end p)"
    unfolding close_write_end_def Let_def
    by (rule announces_push) (auto simp: readiness_defs)
  show "announces p (add_reader p)" "announces p (add_writer p)"
    unfolding add_reader_def add_writer_def
    by (rule announces_push; simp add: readiness_defs)+
qed

lemma announces_quiet:
  "announces p (add_fifo_path_ref p)" "announces p (close_fifo_path_ref p)"
  "announces p (inherit_fifo_read_only p)" "announces p (end_reader_cohort p)"
  "announces p (adopt_in_flight_reader p)" "announces p (adopt_in_flight_writer p)"
  "announces p (publish_fifo_open p side)" "announces p (push_ancillary p fds)"
  "announces p (fst (pop_ancillary p))" "announces p (p\<lparr> in_flight_read_count := x \<rparr>)"
  "announces p (p\<lparr> in_flight_write_count := x \<rparr>)" "announces p (p\<lparr> fifo_open_waiters := ws \<rparr>)"
  "announces p (p\<lparr> fifo_read_only_count := x \<rparr>)"
  by (intro announces_refl_like;
      simp add: add_fifo_path_ref_def close_fifo_path_ref_def inherit_fifo_read_only_def
        end_reader_cohort_def adopt_in_flight_reader_def adopt_in_flight_writer_def
        publish_fifo_open_def mark_ready_def push_ancillary_def pop_ancillary_def readiness_defs Let_def
        split: fifo_open_side.splits list.splits)+

lemma announces_write:
  assumes wf: "ring_wf p"
  shows "announces p (fst (pipe_write p data))"
proof (cases "read_count p = 0 \<or> min (length data) (free_space p) = 0")
  case True
  then have "fst (pipe_write p data) = p" by (auto simp: pipe_write_def)
  then show ?thesis by (simp add: announces_refl_like)
next
  case False
  then have r: "read_count p \<noteq> 0" by simp
  let ?n = "min (length data) (free_space p)"
  have "length (ring_store (pb_buf p) (pb_tail p) (take ?n data)) = length (pb_buf p)"
    using wf by (intro ring_store_nth(1)) (simp_all add: ring_wf_def free_space_def pipe_capacity_def)
  then have "announces p (pipe_push (p\<lparr> pb_buf := ring_store (pb_buf p) (pb_tail p) (take ?n data),
      pb_tail := (pb_tail p + ?n) mod pipe_capacity p, pb_len := pb_len p + ?n \<rparr>) WAKE_READABLE)"
    by (intro announces_push) (auto simp: readiness_defs)
  then show ?thesis using False by (simp add: pipe_write_eq [OF r wf refl] announces_refl_like)
qed

lemma announces_read: "announces p (fst (pipe_read p m))"
proof (cases "min m (pb_len p) = 0")
  case True
  then show ?thesis by (simp add: pipe_read_def announces_refl_like)
next
  case False
  have "announces p (pipe_push (p\<lparr> pb_head := (pb_head p + min m (pb_len p)) mod pipe_capacity p,
      pb_len := pb_len p - min m (pb_len p) \<rparr>) WAKE_WRITABLE)"
    by (intro announces_push) (auto simp: readiness_defs)
  with False show ?thesis by (simp add: pipe_read_def Let_def announces_refl_like)
qed

lemma announces_references:
  "announces p (add_reference p k)" "announces p (close_reference p k)"
  "announces p (adopt_in_flight_reference p k)"
proof -
  have cro: "announces p (close_fifo_read_only p)" for p
    unfolding close_fifo_read_only_def
    by (rule announces_trans [OF announces_trans [OF announces_quiet(13)]])
      (rule announces_endpoints announces_quiet)+
  show "announces p (add_reference p k)"
    by (cases k) (auto intro: announces_endpoints announces_quiet announces_trans)
  show "announces p (close_reference p k)"
    by (cases k) (auto intro: announces_endpoints announces_quiet announces_trans cro)
  show "announces p (adopt_in_flight_reference p k)"
    by (cases k) (auto simp: adopt_in_flight_reference_def announces_refl_like
        intro: announces_quiet announces_trans)
qed

lemma announces_in_flight:
  "announces p (retain_in_flight_reference p k)" "announces p (release_in_flight_reference p k)"
proof -
  have two: "announces q (q\<lparr> in_flight_read_count := x, in_flight_write_count := y \<rparr>)" for q x y
    by (rule announces_refl_like) (simp_all add: readiness_defs)
  have "announces (add_reference p k) (retain_in_flight_reference p k)"
    by (cases k) (auto simp: retain_in_flight_reference_def Let_def announces_refl_like
        intro: announces_quiet two)
  with announces_references(1) show "announces p (retain_in_flight_reference p k)"
    by (rule announces_trans)
  show "announces p (release_in_flight_reference p k)"
    unfolding release_in_flight_reference_def
    by (rule announces_trans [OF announces_references(3) announces_references(2)])
qed

lemma announces_cancel: "announces p (fst (cancel_fifo_open p owner))"
proof (cases "map_of (fifo_open_waiters p) owner")
  case None
  then show ?thesis by (simp add: cancel_fifo_open_def announces_refl_like)
next
  case (Some w)
  let ?q = "p\<lparr> fifo_open_waiters := btree_remove (fifo_open_waiters p) owner \<rparr>"
  have "announces ?q (end_reader_cohort (close_read_end ?q))" "announces ?q (close_write_end ?q)"
    by (auto intro: announces_trans announces_endpoints announces_quiet)
  then show ?thesis
    using Some announces_trans [OF announces_quiet(12)]
    by (auto simp: cancel_fifo_open_def Let_def split: fifo_open_side.splits)
qed

text \<open>C28. No readiness change goes unannounced: whatever operation is made on a pipe, if it lets a
  reader that would have blocked make progress a readable event of this pipe is pushed, if it lets a
  writer that would have blocked make progress a writable one, and events already pushed stay.\<close>

theorem pipe_readiness_announced:
  assumes "ring_wf p"
  shows "announces p (pipe_apply op p)"
  using assms
  by (cases op)
    (simp_all add: announces_write announces_read announces_endpoints announces_references
      announces_in_flight announces_cancel announces_quiet)

theorem pipe_readiness_announced_witness:
  "pipe_wakes (pipe_apply (OpWrite [7]) (pipe_new 2)) = [\<lparr> wake_idx = 0, wake_type = WAKE_READABLE \<rparr>] \<and>
   announces (pipe_new 2) (pipe_apply (OpWrite [7]) (pipe_new 2))"
proof
  have wf: "ring_wf (pipe_new 2)" by (simp add: ring_wf_def pipe_new_def pipe_capacity_def)
  show "announces (pipe_new 2) (pipe_apply (OpWrite [7]) (pipe_new 2))"
    by (rule pipe_readiness_announced [OF wf])
  show "pipe_wakes (pipe_apply (OpWrite [7]) (pipe_new 2)) = [\<lparr> wake_idx = 0, wake_type = WAKE_READABLE \<rparr>]"
    by code_simp
qed

end
