(* ===== verification/Pipe_Table.thy ===== *)
theory Pipe_Table
  imports Pipe_Buffer "HOL-Library.Multiset"
begin

text \<open>
  The machine-wide table of pipes (\<^verbatim>\<open>src/crates/kernel/src/pipe.rs\<close>,
  \<open>PipeTable\<close>): allocation of slots through a free list, release of closed pipes, and the
  collection of SCM_RIGHTS messages that nobody can ever receive.  A message queued on a pipe can
  carry a socket whose receive pipe carries further messages; the collector marks what is
  reachable from a reader some process holds and drops the queues of everything else.
  \<open>pt_dropped\<close> lists the descriptors whose destructor has run.
\<close>

section \<open>The table\<close>

record pipe_table =
  pt_pipes :: "pipe_buffer option list"
  pt_free :: "nat list"
  pt_dropped :: "in_flight_fd list"

definition pipe_table_new :: pipe_table where
  "pipe_table_new = \<lparr> pt_pipes = [], pt_free = [], pt_dropped = [] \<rparr>"

definition pipe_get :: "pipe_table \<Rightarrow> nat \<Rightarrow> pipe_buffer option" where
  "pipe_get t idx = slot (pt_pipes t) idx"

text \<open>The free list is a stack: its top is the last element of the vector.\<close>

definition pipe_alloc :: "pipe_table \<Rightarrow> pipe_buffer \<Rightarrow> pipe_table \<times> nat" where
  "pipe_alloc t p =
     (if pt_free t \<noteq> []
      then (let i = List.last (pt_free t)
            in (t\<lparr> pt_free := butlast (pt_free t),
                   pt_pipes := (pt_pipes t)[i := Some (p\<lparr> pipe_idx := i \<rparr>)] \<rparr>, i))
      else (let i = length (pt_pipes t)
            in (t\<lparr> pt_pipes := pt_pipes t @ [Some (p\<lparr> pipe_idx := i \<rparr>)] \<rparr>, i)))"

text \<open>The first pair of neighbours \<open>sorted.windows(2)\<close> with consecutive indices.\<close>

fun adjacent_pair :: "nat list \<Rightarrow> (nat \<times> nat) option" where
  "adjacent_pair (a # b # xs) = (if b = a + 1 then Some (a, b) else adjacent_pair (b # xs))"
| "adjacent_pair _ = None"

definition pipe_alloc_pair :: "pipe_table \<Rightarrow> pipe_buffer \<Rightarrow> pipe_buffer \<Rightarrow> pipe_table \<times> nat \<times> nat" where
  "pipe_alloc_pair t p q =
     (case (if length (pt_free t) \<ge> 2 then adjacent_pair (sort (pt_free t)) else None) of
        Some (a, b) \<Rightarrow>
          (t\<lparr> pt_free := filter (\<lambda>x. x \<noteq> a \<and> x \<noteq> b) (pt_free t),
              pt_pipes := (pt_pipes t)[a := Some (p\<lparr> pipe_idx := a \<rparr>), b := Some (q\<lparr> pipe_idx := b \<rparr>)] \<rparr>,
           a, b)
      | None \<Rightarrow>
          (let a = length (pt_pipes t); b = a + 1
           in (t\<lparr> pt_pipes := pt_pipes t @ [Some (p\<lparr> pipe_idx := a \<rparr>), Some (q\<lparr> pipe_idx := b \<rparr>)] \<rparr>,
               a, b)))"

section \<open>Collecting messages nobody can receive\<close>

text \<open>The receive pipes of the sockets queued on a pipe, in queue order.\<close>

definition queued_receiver :: "in_flight_fd \<Rightarrow> nat option" where
  "queued_receiver fd =
     (if fl_file_type fd \<noteq> Socket then None
      else (case fl_socket fd of
              None \<Rightarrow> None
            | Some s \<Rightarrow> if \<not> fl_global_pipes s then None else fl_recv_buf_idx s))"

definition queued_receivers :: "pipe_buffer \<Rightarrow> nat list" where
  "queued_receivers p = List.map_filter queued_receiver (concat (ancillary_fds p))"

fun visit_receivers :: "nat list \<Rightarrow> bool list \<Rightarrow> nat list \<Rightarrow> bool list \<times> nat list" where
  "visit_receivers [] reach work = (reach, work)"
| "visit_receivers (r # rs) reach work =
     (if r < length reach \<and> \<not> reach ! r then visit_receivers rs (reach[r := True]) (work @ [r])
      else visit_receivers rs reach work)"

lemma visit_receivers_measure:
  "visit_receivers rs reach work = (reach', work') \<Longrightarrow>
     length (filter Not reach') + length work' = length (filter Not reach) + length work"
proof (induction rs reach work rule: visit_receivers.induct)
  case (2 r rs reach work)
  have "length (filter Not (reach[r := True])) + 1 = length (filter Not reach)"
    if "r < length reach" "\<not> reach ! r"
    using that by (induction reach arbitrary: r) (auto simp: nth_Cons split: nat.splits)
  with 2 show ?case by (auto split: if_splits)
qed simp

function mark_reachable :: "pipe_buffer option list \<Rightarrow> bool list \<Rightarrow> nat list \<Rightarrow> bool list" where
  "mark_reachable ps reach [] = reach"
| "mark_reachable ps reach (c # work) =
     (case slot ps c of
        None \<Rightarrow> mark_reachable ps reach work
      | Some p \<Rightarrow>
          (let (reach', work') = visit_receivers (queued_receivers p) reach work
           in mark_reachable ps reach' work'))"
  by pat_completeness auto

termination
  by (relation "measure (\<lambda>(ps, reach, work). length (filter Not reach) + length work)")
    (auto dest: visit_receivers_measure split: prod.splits)

definition external_roots :: "pipe_buffer option list \<Rightarrow> nat list" where
  "external_roots ps =
     filter (\<lambda>i. case ps ! i of Some p \<Rightarrow> has_external_reader p | None \<Rightarrow> False) [0..<length ps]"

definition reachable_pipes :: "pipe_buffer option list \<Rightarrow> bool list" where
  "reachable_pipes ps =
     (let roots = external_roots ps
      in mark_reachable ps (map (\<lambda>i. i \<in> set roots) [0..<length ps]) roots)"

definition sweep_pipe :: "pipe_buffer option \<Rightarrow> bool \<Rightarrow> pipe_buffer option" where
  "sweep_pipe x live = (if live then x else map_option (\<lambda>p. p\<lparr> ancillary_fds := [] \<rparr>) x)"

definition swept_fds :: "pipe_buffer option \<Rightarrow> bool \<Rightarrow> in_flight_fd list" where
  "swept_fds x live =
     (if live then [] else (case x of None \<Rightarrow> [] | Some p \<Rightarrow> concat (ancillary_fds p)))"

definition collect_unreachable_ancillary :: "pipe_table \<Rightarrow> pipe_table" where
  "collect_unreachable_ancillary t =
     (let live = reachable_pipes (pt_pipes t)
      in t\<lparr> pt_pipes := map2 sweep_pipe (pt_pipes t) live,
            pt_dropped := pt_dropped t @ concat (map2 swept_fds (pt_pipes t) live) \<rparr>)"

section \<open>Operations\<close>

definition queue_retained_ancillary :: "pipe_table \<Rightarrow> nat \<Rightarrow> in_flight_fd list \<Rightarrow> pipe_table \<times> bool" where
  "queue_retained_ancillary t carrier fds =
     (case pipe_get t carrier of
        None \<Rightarrow> (t, False)
      | Some p \<Rightarrow>
          (collect_unreachable_ancillary
             (t\<lparr> pt_pipes := (pt_pipes t)[carrier := Some (push_ancillary p fds)] \<rparr>), True))"

definition finish_ancillary_transition :: "pipe_table \<Rightarrow> pipe_table" where
  "finish_ancillary_transition t = collect_unreachable_ancillary t"

definition free_fully_closed :: "pipe_table \<Rightarrow> nat \<Rightarrow> pipe_table" where
  "free_fully_closed t idx =
     (case pipe_get t idx of
        Some p \<Rightarrow>
          if is_fully_closed p
          then t\<lparr> pt_pipes := (pt_pipes t)[idx := None], pt_free := pt_free t @ [idx],
                  pt_dropped := pt_dropped t @ concat (ancillary_fds p) \<rparr>
          else t
      | None \<Rightarrow> t)"

definition free_if_closed :: "pipe_table \<Rightarrow> nat \<Rightarrow> pipe_table" where
  "free_if_closed t idx = collect_unreachable_ancillary (free_fully_closed t idx)"

definition update_pipe :: "pipe_table \<Rightarrow> nat \<Rightarrow> (pipe_buffer \<Rightarrow> pipe_buffer) \<Rightarrow> pipe_table" where
  "update_pipe t idx f =
     (case pipe_get t idx of
        Some p \<Rightarrow> t\<lparr> pt_pipes := (pt_pipes t)[idx := Some (f p)] \<rparr>
      | None \<Rightarrow> t)"

definition discard_unclaimed :: "pipe_table \<Rightarrow> nat \<Rightarrow> pipe_table" where
  "discard_unclaimed t idx = free_if_closed (update_pipe t idx (close_write_end \<circ> close_read_end)) idx"

definition table_remove_fifo_name :: "pipe_table \<Rightarrow> nat \<Rightarrow> pipe_table" where
  "table_remove_fifo_name t idx = free_if_closed (update_pipe t idx remove_fifo_name) idx"

definition table_remove_fifo_name_at :: "pipe_table \<Rightarrow> nat \<Rightarrow> nat \<Rightarrow> nat \<Rightarrow> pipe_table" where
  "table_remove_fifo_name_at t idx sec nsec =
     free_if_closed (update_pipe t idx (\<lambda>p. remove_fifo_name_at p sec nsec)) idx"

definition find_fifo_open :: "pipe_table \<Rightarrow> nat \<Rightarrow> nat option" where
  "find_fifo_open t owner =
     List.find (\<lambda>i. case pt_pipes t ! i of
                      Some p \<Rightarrow> is_fifo p \<and> has_fifo_open_waiter p owner
                    | None \<Rightarrow> False) [0..<length (pt_pipes t)]"

definition table_take_ready_fifo_open ::
  "pipe_table \<Rightarrow> nat \<Rightarrow> pipe_table \<times> (nat \<times> fifo_open_waiter) option" where
  "table_take_ready_fifo_open t owner =
     (case find_fifo_open t owner of
        None \<Rightarrow> (t, None)
      | Some i \<Rightarrow>
          (case pipe_get t i of
             None \<Rightarrow> (t, None)
           | Some p \<Rightarrow>
               (let (p', r) = take_ready_fifo_open p owner
                in (t\<lparr> pt_pipes := (pt_pipes t)[i := Some p'] \<rparr>, map_option (Pair i) r))))"

definition table_cancel_fifo_open :: "pipe_table \<Rightarrow> nat \<Rightarrow> pipe_table \<times> fifo_open_waiter option" where
  "table_cancel_fifo_open t owner =
     (case find_fifo_open t owner of
        None \<Rightarrow> (t, None)
      | Some i \<Rightarrow>
          (case pipe_get t i of
             None \<Rightarrow> (t, None)
           | Some p \<Rightarrow>
               (let (p', r) = cancel_fifo_open p owner;
                  t' = t\<lparr> pt_pipes := (pt_pipes t)[i := Some p'] \<rparr>
                in (if r = None then t' else free_if_closed t' i, r))))"

definition cancel_process_step ::
  "nat \<Rightarrow> nat \<Rightarrow> pipe_table \<times> fifo_open_waiter list \<Rightarrow> pipe_table \<times> fifo_open_waiter list" where
  "cancel_process_step pid i st =
     (case st of (t, ws) \<Rightarrow>
        (case pipe_get t i of
           Some p \<Rightarrow>
             if is_fifo p
             then (let (p', c) = cancel_fifo_opens_for_process p pid
                   in (free_if_closed (t\<lparr> pt_pipes := (pt_pipes t)[i := Some p'] \<rparr>) i, ws @ c))
             else (free_if_closed t i, ws)
         | None \<Rightarrow> (free_if_closed t i, ws)))"

definition table_cancel_fifo_opens_for_process ::
  "pipe_table \<Rightarrow> nat \<Rightarrow> pipe_table \<times> fifo_open_waiter list" where
  "table_cancel_fifo_opens_for_process t pid =
     fold (cancel_process_step pid) [0..<length (pt_pipes t)] (t, [])"

section \<open>Slots\<close>

text \<open>The free list names exactly the empty slots, each once.\<close>

definition pipe_table_wf :: "pipe_table \<Rightarrow> bool" where
  "pipe_table_wf t \<longleftrightarrow> distinct (pt_free t) \<and>
     (\<forall>i. i \<in> set (pt_free t) \<longleftrightarrow> i < length (pt_pipes t) \<and> pt_pipes t ! i = None)"

lemma pipe_get_update_same:
  "i < length (pt_pipes t) \<Longrightarrow>
     pipe_get (t\<lparr> pt_pipes := (pt_pipes t)[i := v] \<rparr>) = (pipe_get t)(i := v)"
  by (auto simp: pipe_get_def slot_update fun_eq_iff)

lemma pipe_alloc_facts:
  assumes wf: "pipe_table_wf t" and a: "pipe_alloc t p = (t', i)"
  shows "pipe_get t i = None" and "pipe_get t' = (pipe_get t)(i \<mapsto> p\<lparr> pipe_idx := i \<rparr>)"
    and "pipe_table_wf t'"
proof -
  show "pipe_get t i = None" "pipe_get t' = (pipe_get t)(i \<mapsto> p\<lparr> pipe_idx := i \<rparr>)" "pipe_table_wf t'"
  proof (atomize (full), cases "pt_free t = []")
    case True
    then have i: "i = length (pt_pipes t)"
      "t' = t\<lparr> pt_pipes := pt_pipes t @ [Some (p\<lparr> pipe_idx := i \<rparr>)] \<rparr>"
      using a by (auto simp: pipe_alloc_def Let_def)
    have "pipe_table_wf t'" using wf True
      by (auto simp: pipe_table_wf_def i(2) nth_append less_Suc_eq)
    then show "pipe_get t i = None \<and> pipe_get t' = (pipe_get t)(i \<mapsto> p\<lparr> pipe_idx := i \<rparr>) \<and> pipe_table_wf t'"
      using i by (simp add: pipe_get_def slot_out_of_range slot_append1 fun_eq_iff)
  next
    case False
    then have i: "i = List.last (pt_free t)"
      "t' = t\<lparr> pt_free := butlast (pt_free t), pt_pipes := (pt_pipes t)[i := Some (p\<lparr> pipe_idx := i \<rparr>)] \<rparr>"
      using a by (auto simp: pipe_alloc_def Let_def)
    have "i \<in> set (pt_free t)" using False i(1) by simp
    then have free: "i < length (pt_pipes t)" "pt_pipes t ! i = None"
      using wf by (auto simp: pipe_table_wf_def)
    have split: "pt_free t = butlast (pt_free t) @ [i]" using False i(1) by simp
    have d: "distinct (butlast (pt_free t)) \<and> i \<notin> set (butlast (pt_free t))"
      using wf split unfolding pipe_table_wf_def by (metis distinct_append distinct.simps(2) disjoint_iff list.set_intros(1))
    have s: "set (pt_free t) = insert i (set (butlast (pt_free t)))"
      using arg_cong [OF split, of set] by simp
    have "pipe_table_wf t'"
      unfolding pipe_table_wf_def
    proof (intro conjI allI)
      show "distinct (pt_free t')" using d by (simp add: i(2))
      fix j
      show "j \<in> set (pt_free t') \<longleftrightarrow> j < length (pt_pipes t') \<and> pt_pipes t' ! j = None"
        using wf s d free by (cases "j = i") (auto simp: pipe_table_wf_def i(2) nth_list_update)
    qed
    then show "pipe_get t i = None \<and> pipe_get t' = (pipe_get t)(i \<mapsto> p\<lparr> pipe_idx := i \<rparr>) \<and> pipe_table_wf t'"
      using i free by (simp add: pipe_get_def slot_in_range slot_update fun_eq_iff)
  qed
qed

interpretation pipe_slots: slot_store pipe_get pipe_alloc "\<lambda>i p. p\<lparr> pipe_idx := i \<rparr>" pipe_table_wf
  by unfold_locales (blast dest: pipe_alloc_facts)+

lemma adjacent_pair_Some: "adjacent_pair xs = Some (a, b) \<Longrightarrow> b = a + 1 \<and> a \<in> set xs \<and> b \<in> set xs"
  by (induction xs rule: adjacent_pair.induct) (auto split: if_splits)

lemma pipe_alloc_pair_facts:
  assumes wf: "pipe_table_wf t" and a: "pipe_alloc_pair t p q = (t', i, j)"
  shows "j = i + 1 \<and> pipe_get t i = None \<and> pipe_get t j = None \<and>
    pipe_get t' = (pipe_get t)(i \<mapsto> p\<lparr> pipe_idx := i \<rparr>, j \<mapsto> q\<lparr> pipe_idx := j \<rparr>) \<and> pipe_table_wf t'"
proof (cases "if length (pt_free t) \<ge> 2 then adjacent_pair (sort (pt_free t)) else None")
  case None
  then have ij: "i = length (pt_pipes t)" "j = i + 1"
    "t' = t\<lparr> pt_pipes := pt_pipes t @ [Some (p\<lparr> pipe_idx := i \<rparr>), Some (q\<lparr> pipe_idx := j \<rparr>)] \<rparr>"
    using a by (auto simp: pipe_alloc_pair_def Let_def)
  have "pipe_table_wf t'" using wf
    by (auto simp: pipe_table_wf_def ij nth_append nth_Cons' less_Suc_eq)
  moreover have "pipe_get t' k = ((pipe_get t)(i \<mapsto> p\<lparr> pipe_idx := i \<rparr>, j \<mapsto> q\<lparr> pipe_idx := j \<rparr>)) k" for k
    by (auto simp: pipe_get_def ij slot_def nth_append nth_Cons')
  ultimately show ?thesis using ij by (auto simp: pipe_get_def slot_out_of_range fun_eq_iff)
next
  case (Some ab)
  obtain a' b' where ab: "ab = (a', b')" by (cases ab)
  with Some have "adjacent_pair (sort (pt_free t)) = Some (a', b')" by (simp split: if_splits)
  from adjacent_pair_Some [OF this] have b': "b' = a' + 1" and mem: "a' \<in> set (pt_free t)" "b' \<in> set (pt_free t)"
    by auto
  have ij: "i = a'" "j = b'"
    "t' = t\<lparr> pt_free := filter (\<lambda>x. x \<noteq> i \<and> x \<noteq> j) (pt_free t),
            pt_pipes := (pt_pipes t)[i := Some (p\<lparr> pipe_idx := i \<rparr>), j := Some (q\<lparr> pipe_idx := j \<rparr>)] \<rparr>"
    using a Some ab by (auto simp: pipe_alloc_pair_def)
  have free: "i < length (pt_pipes t)" "pt_pipes t ! i = None" "j < length (pt_pipes t)" "pt_pipes t ! j = None"
    using wf mem ij by (auto simp: pipe_table_wf_def)
  have "pipe_table_wf t'" unfolding pipe_table_wf_def
  proof (intro conjI allI)
    show "distinct (pt_free t')" using wf by (simp add: pipe_table_wf_def ij(3))
    show "k \<in> set (pt_free t') \<longleftrightarrow> k < length (pt_pipes t') \<and> pt_pipes t' ! k = None" for k
      using wf free by (auto simp: pipe_table_wf_def ij(3) nth_list_update)
  qed
  moreover have "pipe_get t' = (pipe_get t)(i \<mapsto> p\<lparr> pipe_idx := i \<rparr>, j \<mapsto> q\<lparr> pipe_idx := j \<rparr>)"
    using free by (simp add: pipe_get_def ij(3) slot_update fun_eq_iff)
  ultimately show ?thesis using ij free b' by (auto simp: pipe_get_def slot_in_range)
qed

section \<open>What the collector keeps\<close>

text \<open>
  A pipe is receivable when somebody outside the table holds its read end, or when a socket that
  receives from it is queued on a receivable pipe.
\<close>

inductive receivable :: "pipe_buffer option list \<Rightarrow> nat \<Rightarrow> bool" for ps where
  held: "slot ps i = Some p \<Longrightarrow> has_external_reader p \<Longrightarrow> receivable ps i"
| passed: "receivable ps i \<Longrightarrow> slot ps i = Some p \<Longrightarrow> j \<in> set (queued_receivers p) \<Longrightarrow>
    j < length ps \<Longrightarrow> receivable ps j"

lemma visit_receivers_spec:
  "visit_receivers rs reach work = (reach', work') \<Longrightarrow>
     length reach' = length reach \<and> (\<forall>i < length reach. reach' ! i \<longleftrightarrow> reach ! i \<or> i \<in> set rs) \<and>
     set work' = set work \<union> {i. i < length reach \<and> i \<in> set rs \<and> \<not> reach ! i}"
proof (induction rs reach work arbitrary: reach' work' rule: visit_receivers.induct)
  case (2 r rs reach work)
  show ?case
  proof (cases "r < length reach \<and> \<not> reach ! r")
    case True
    from 2(1) [OF True] 2(3) True show ?thesis by (auto simp: nth_list_update)
  next
    case False
    from 2(2) [OF False] 2(3) False have IH: "length reach' = length reach"
      "\<forall>i < length reach. reach' ! i \<longleftrightarrow> reach ! i \<or> i \<in> set rs"
      "set work' = set work \<union> {i. i < length reach \<and> i \<in> set rs \<and> \<not> reach ! i}" by auto
    then show ?thesis using False by auto
  qed
qed simp

definition mark_inv :: "pipe_buffer option list \<Rightarrow> bool list \<Rightarrow> nat list \<Rightarrow> bool" where
  "mark_inv ps reach work \<longleftrightarrow>
     length reach = length ps \<and>
     (\<forall>i < length ps. reach ! i \<longrightarrow> receivable ps i) \<and>
     (\<forall>i \<in> set work. i < length ps \<and> reach ! i) \<and>
     (\<forall>i p j. i < length ps \<and> reach ! i \<and> i \<notin> set work \<and> slot ps i = Some p \<and>
        j \<in> set (queued_receivers p) \<and> j < length ps \<longrightarrow> reach ! j)"

lemma mark_reachable_inv:
  "mark_inv ps reach work \<Longrightarrow>
     mark_inv ps (mark_reachable ps reach work) [] \<and>
     (\<forall>i < length ps. reach ! i \<longrightarrow> mark_reachable ps reach work ! i)"
proof (induction ps reach work rule: mark_reachable.induct)
  case (2 ps reach c work)
  show ?case
  proof (cases "slot ps c")
    case None
    have "mark_inv ps reach work"
      using 2(3) None unfolding mark_inv_def by (metis list.set_intros(2) option.distinct(1) set_ConsD)
    with 2(1) [OF None] None show ?thesis by simp
  next
    case (Some p)
    obtain reach' work' where v: "visit_receivers (queued_receivers p) reach work = (reach', work')"
      using surj_pair by metis
    from visit_receivers_spec [OF v] have l: "length reach' = length reach"
      and r: "\<And>i. i < length reach \<Longrightarrow> reach' ! i \<longleftrightarrow> reach ! i \<or> i \<in> set (queued_receivers p)"
      and w: "set work' = set work \<union> {i. i < length reach \<and> i \<in> set (queued_receivers p) \<and> \<not> reach ! i}"
      by auto
    have inv: "length reach = length ps" "\<And>i. i < length ps \<Longrightarrow> reach ! i \<Longrightarrow> receivable ps i"
      "\<And>i. i \<in> set (c # work) \<Longrightarrow> i < length ps \<and> reach ! i"
      "\<And>i p j. i < length ps \<Longrightarrow> reach ! i \<Longrightarrow> i \<notin> set (c # work) \<Longrightarrow> slot ps i = Some p \<Longrightarrow>
         j \<in> set (queued_receivers p) \<Longrightarrow> j < length ps \<Longrightarrow> reach ! j"
      using 2(3) unfolding mark_inv_def by blast+
    have "receivable ps c" using inv by simp
    have "mark_inv ps reach' work'"
      unfolding mark_inv_def
    proof (intro conjI allI ballI impI)
      show "length reach' = length ps" using l inv(1) by simp
      show "receivable ps i" if "i < length ps" "reach' ! i" for i
        using that r inv(1,2) receivable.passed [OF \<open>receivable ps c\<close> Some] by auto
      show "i < length ps" "reach' ! i" if "i \<in> set work'" for i
        using that w r inv(1,3) by auto
      show "reach' ! j" if "i < length ps \<and> reach' ! i \<and> i \<notin> set work' \<and> slot ps i = Some q \<and>
        j \<in> set (queued_receivers q) \<and> j < length ps" for i q j
      proof (cases "i = c")
        case True
        then show ?thesis using that Some r inv(1) by auto
      next
        case False
        have "reach ! i" using that w r inv(1) by auto
        moreover have "i \<notin> set (c # work)" using that False w by auto
        ultimately show ?thesis using that inv(4) r inv(1) by auto
      qed
    qed
    from 2(2) [OF Some v [symmetric] refl this] have IH:
      "mark_inv ps (mark_reachable ps reach' work') []"
      "\<forall>i < length ps. reach' ! i \<longrightarrow> mark_reachable ps reach' work' ! i" by auto
    have "mark_reachable ps reach (c # work) = mark_reachable ps reach' work'"
      using Some v by simp
    then show ?thesis using IH r inv(1) by auto
  qed
qed simp

lemma reachable_pipes_iff:
  "length (reachable_pipes ps) = length ps" (is ?len)
  "i < length ps \<Longrightarrow> reachable_pipes ps ! i \<longleftrightarrow> receivable ps i"
proof -
  define start where "start = map (\<lambda>i. i \<in> set (external_roots ps)) [0..<length ps]"
  have roots: "j \<in> set (external_roots ps) \<longleftrightarrow>
      j < length ps \<and> (\<exists>p. slot ps j = Some p \<and> has_external_reader p)" for j
    by (auto simp: external_roots_def slot_in_range split: option.splits)
  have "mark_inv ps start (external_roots ps)"
    using roots by (auto simp: mark_inv_def start_def intro: receivable.held)
  from mark_reachable_inv [OF this] have inv: "mark_inv ps (reachable_pipes ps) []"
    and grow: "\<And>j. j < length ps \<Longrightarrow> start ! j \<Longrightarrow> reachable_pipes ps ! j"
    by (auto simp: reachable_pipes_def start_def Let_def)
  show ?len using inv by (simp add: mark_inv_def)
  have "j < length ps \<and> reachable_pipes ps ! j" if "receivable ps j" for j
    using that
  proof (induction rule: receivable.induct)
    case (held k p)
    then have "k < length ps" by (auto simp: slot_def split: if_splits)
    with held grow [of k] roots show ?case by (auto simp: start_def)
  next
    case (passed k p j)
    with inv show ?case by (auto simp: mark_inv_def)
  qed
  with inv show "reachable_pipes ps ! i \<longleftrightarrow> receivable ps i" if "i < length ps"
    using that unfolding mark_inv_def by blast
qed

lemma collect_get:
  "pipe_get (collect_unreachable_ancillary t) i =
     (if receivable (pt_pipes t) i then pipe_get t i
      else map_option (\<lambda>p. p\<lparr> ancillary_fds := [] \<rparr>) (pipe_get t i))"
  using reachable_pipes_iff(2) [of i "pt_pipes t"]
  by (auto simp: collect_unreachable_ancillary_def Let_def pipe_get_def slot_def
      reachable_pipes_iff(1) sweep_pipe_def)

lemma collect_shape:
  "length (pt_pipes (collect_unreachable_ancillary t)) = length (pt_pipes t)"
  "pt_free (collect_unreachable_ancillary t) = pt_free t"
  by (simp_all add: collect_unreachable_ancillary_def Let_def reachable_pipes_iff(1))

subsection \<open>Queued descriptors are conserved\<close>

definition slot_fds :: "pipe_buffer option \<Rightarrow> in_flight_fd list" where
  "slot_fds x = (case x of None \<Rightarrow> [] | Some p \<Rightarrow> concat (ancillary_fds p))"

definition queued_fds :: "pipe_table \<Rightarrow> in_flight_fd multiset" where
  "queued_fds t = mset (concat (map slot_fds (pt_pipes t)))"

lemma sweep_conserves:
  "length xs = length live \<Longrightarrow>
     mset (concat (map2 swept_fds xs live)) + mset (concat (map slot_fds (map2 sweep_pipe xs live))) =
     mset (concat (map slot_fds xs))"
proof (induction xs live rule: list_induct2)
  case (Cons x xs l ls)
  have "mset (swept_fds x l) + mset (slot_fds (sweep_pipe x l)) = mset (slot_fds x)"
    by (cases x) (simp_all add: swept_fds_def slot_fds_def sweep_pipe_def)
  with Cons.IH show ?case by (simp add: add.assoc add.left_commute)
qed simp

lemma receivable_after_sweep:
  "receivable (pt_pipes (collect_unreachable_ancillary t)) i \<longleftrightarrow> receivable (pt_pipes t) i"
proof
  let ?t = "collect_unreachable_ancillary t"
  have get: "slot (pt_pipes ?t) i = (if receivable (pt_pipes t) i then slot (pt_pipes t) i
      else map_option (\<lambda>p. p\<lparr> ancillary_fds := [] \<rparr>) (slot (pt_pipes t) i))" for i
    using collect_get [of t i] by (simp add: pipe_get_def)
  show "receivable (pt_pipes t) i" if "receivable (pt_pipes ?t) i"
    using that
  proof (induction rule: receivable.induct)
    case (held i p)
    then obtain q where "slot (pt_pipes t) i = Some q" "has_external_reader q"
      unfolding get by (auto simp: has_external_reader_def split: if_splits)
    then show ?case by (rule receivable.held)
  next
    case (passed i p j)
    then show ?case unfolding get collect_shape by (auto intro: receivable.passed)
  qed
  show "receivable (pt_pipes ?t) i" if "receivable (pt_pipes t) i"
    using that
  proof (induction rule: receivable.induct)
    case (held i p)
    then have "slot (pt_pipes ?t) i = Some p" using receivable.held [OF held] by (simp add: get)
    then show ?case using held by (blast intro: receivable.held)
  next
    case (passed i p j)
    then have "slot (pt_pipes ?t) i = Some p" by (simp add: get)
    with passed show ?case by (auto intro: receivable.passed simp: collect_shape)
  qed
qed

lemma collect_idempotent:
  "collect_unreachable_ancillary (collect_unreachable_ancillary t) = collect_unreachable_ancillary t"
proof -
  let ?t = "collect_unreachable_ancillary t" and ?live = "reachable_pipes (pt_pipes t)"
  have "reachable_pipes (pt_pipes ?t) = ?live"
    by (rule nth_equalityI)
      (simp_all add: reachable_pipes_iff receivable_after_sweep collect_shape)
  then have t: "collect_unreachable_ancillary ?t =
      ?t\<lparr> pt_pipes := map2 sweep_pipe (pt_pipes ?t) ?live,
          pt_dropped := pt_dropped ?t @ concat (map2 swept_fds (pt_pipes ?t) ?live) \<rparr>"
    unfolding collect_unreachable_ancillary_def [of ?t] Let_def by simp
  have ps: "pt_pipes ?t = map2 sweep_pipe (pt_pipes t) ?live"
    by (simp add: collect_unreachable_ancillary_def Let_def)
  have "map2 sweep_pipe (map2 sweep_pipe xs live) live = map2 sweep_pipe xs live \<and>
      concat (map2 swept_fds (map2 sweep_pipe xs live) live) = []"
    if "length xs = length live" for xs live
    using that
    by (induction xs live rule: list_induct2)
      (auto simp: sweep_pipe_def swept_fds_def option.map_comp o_def split: option.splits)
  from this [of "pt_pipes t" ?live] have "map2 sweep_pipe (pt_pipes ?t) ?live = pt_pipes ?t"
    "concat (map2 swept_fds (pt_pipes ?t) ?live) = []"
    unfolding ps by (simp_all add: reachable_pipes_iff)
  then show ?thesis unfolding t by simp
qed

text \<open>C29. The collector is exact: it empties the message queue of every pipe that no process can
  ever receive from, directly or through a chain of queued sockets, and leaves every other pipe
  untouched; each descriptor it takes out of a queue is dropped exactly once, none is lost; and a
  second collection finds nothing more.\<close>

theorem collector_exact:
  "(\<forall>i. pipe_get (collect_unreachable_ancillary t) i =
      (if receivable (pt_pipes t) i then pipe_get t i
       else map_option (\<lambda>p. p\<lparr> ancillary_fds := [] \<rparr>) (pipe_get t i))) \<and>
   mset (pt_dropped (collect_unreachable_ancillary t)) + queued_fds (collect_unreachable_ancillary t) =
     mset (pt_dropped t) + queued_fds t \<and>
   collect_unreachable_ancillary (collect_unreachable_ancillary t) = collect_unreachable_ancillary t"
proof (intro conjI allI)
  let ?live = "reachable_pipes (pt_pipes t)"
  show "mset (pt_dropped (collect_unreachable_ancillary t)) + queued_fds (collect_unreachable_ancillary t) =
     mset (pt_dropped t) + queued_fds t"
    using sweep_conserves [of "pt_pipes t" ?live]
    by (simp add: collect_unreachable_ancillary_def Let_def queued_fds_def reachable_pipes_iff add.assoc)
qed (rule collect_get collect_idempotent)+

section \<open>Every operation keeps the table consistent\<close>

definition pipe_table_ok :: "pipe_table \<Rightarrow> bool" where
  "pipe_table_ok t \<longleftrightarrow> pipe_table_wf t \<and> (\<forall>i p. pipe_get t i = Some p \<longrightarrow> pipe_idx p = i)"

datatype table_op =
    TAlloc pipe_buffer | TAllocPair pipe_buffer pipe_buffer | TPipe nat pipe_op
  | TSend nat "in_flight_fd list" | TTransition | TFree nat | TDiscard nat
  | TUnlink nat | TUnlinkAt nat nat nat | TTake nat | TCancel nat | TCancelProcess nat

fun table_apply :: "table_op \<Rightarrow> pipe_table \<Rightarrow> pipe_table" where
  "table_apply (TAlloc p) t = fst (pipe_alloc t p)"
| "table_apply (TAllocPair p q) t = fst (pipe_alloc_pair t p q)"
| "table_apply (TPipe i op) t = update_pipe t i (pipe_apply op)"
| "table_apply (TSend i fds) t = fst (queue_retained_ancillary t i fds)"
| "table_apply TTransition t = finish_ancillary_transition t"
| "table_apply (TFree i) t = free_if_closed t i"
| "table_apply (TDiscard i) t = discard_unclaimed t i"
| "table_apply (TUnlink i) t = table_remove_fifo_name t i"
| "table_apply (TUnlinkAt i sec nsec) t = table_remove_fifo_name_at t i sec nsec"
| "table_apply (TTake owner) t = fst (table_take_ready_fifo_open t owner)"
| "table_apply (TCancel owner) t = fst (table_cancel_fifo_open t owner)"
| "table_apply (TCancelProcess pid) t = fst (table_cancel_fifo_opens_for_process t pid)"

lemma pipe_table_ok_collect: "pipe_table_ok t \<Longrightarrow> pipe_table_ok (collect_unreachable_ancillary t)"
proof -
  assume ok: "pipe_table_ok t"
  have "pt_pipes (collect_unreachable_ancillary t) ! i = None \<longleftrightarrow> pt_pipes t ! i = None"
    if "i < length (pt_pipes t)" for i
    using collect_get [of t i] that by (auto simp: pipe_get_def slot_in_range collect_shape split: if_splits)
  then have "pipe_table_wf (collect_unreachable_ancillary t)"
    using ok by (auto simp: pipe_table_ok_def pipe_table_wf_def collect_shape)
  then show ?thesis using ok by (auto simp: pipe_table_ok_def collect_get split: if_splits)
qed

lemma pipe_table_ok_store:
  assumes "pipe_table_ok t" and "pipe_get t i = Some p" and "pipe_idx q = pipe_idx p"
  shows "pipe_table_ok (t\<lparr> pt_pipes := (pt_pipes t)[i := Some q] \<rparr>)"
proof -
  have "i < length (pt_pipes t)" "pt_pipes t ! i = Some p"
    using assms(2) by (auto simp: pipe_get_def slot_def split: if_splits)
  then show ?thesis
    using assms by (auto simp: pipe_table_ok_def pipe_table_wf_def pipe_get_update_same nth_list_update
        split: if_splits)
qed

lemma pipe_table_ok_free: "pipe_table_ok t \<Longrightarrow> pipe_table_ok (free_if_closed t i)"
proof -
  assume ok: "pipe_table_ok t"
  have "pipe_table_ok (free_fully_closed t i)"
  proof (cases "\<exists>p. pipe_get t i = Some p \<and> is_fully_closed p")
    case True
    then obtain p where p: "pipe_get t i = Some p" "is_fully_closed p" by blast
    then have i: "i < length (pt_pipes t)" "pt_pipes t ! i = Some p"
      by (auto simp: pipe_get_def slot_def split: if_splits)
    then have "i \<notin> set (pt_free t)" using ok by (auto simp: pipe_table_ok_def pipe_table_wf_def)
    with i p ok show ?thesis
      by (auto simp: free_fully_closed_def pipe_table_ok_def pipe_table_wf_def pipe_get_def
          slot_simps nth_list_update split: if_splits)
  qed (use ok in \<open>auto simp: free_fully_closed_def split: option.splits\<close>)
  then show ?thesis by (simp add: free_if_closed_def pipe_table_ok_collect)
qed

lemma pipe_table_ok_update:
  "pipe_table_ok t \<Longrightarrow> (\<And>p. pipe_idx (f p) = pipe_idx p) \<Longrightarrow> pipe_table_ok (update_pipe t i f)"
  by (auto simp: update_pipe_def pipe_table_ok_store split: option.splits)

lemma cancel_fifo_open_idx: "pipe_idx (fst (cancel_fifo_open p owner)) = pipe_idx p"
  using announces_cancel [of p owner] by (simp add: announces_def)

lemma cancel_fifo_opens_idx: "pipe_idx (fst (cancel_fifo_opens_for_process p pid)) = pipe_idx p"
proof -
  have "pipe_idx (fst (fold (\<lambda>owner (p, ws). case cancel_fifo_open p owner of
      (p', Some w) \<Rightarrow> (p', ws @ [w]) | (p', None) \<Rightarrow> (p', ws)) os (p, ws))) = pipe_idx p" for os p ws
  proof (induction os arbitrary: p ws)
    case (Cons a os)
    then show ?case using cancel_fifo_open_idx [of p a] by (auto split: prod.splits option.splits)
  qed simp
  then show ?thesis by (simp add: cancel_fifo_opens_for_process_def)
qed

lemma pipe_apply_idx: "pipe_idx (pipe_apply op p) = pipe_idx p"
proof (cases op)
  case (OpWrite data)
  then show ?thesis by (simp add: pipe_write_def pipe_push_def Let_def)
qed (use announces_read announces_endpoints announces_references announces_in_flight announces_cancel
      announces_quiet in \<open>simp_all add: announces_def\<close>)

lemma pipe_table_ok_cancel_process:
  "pipe_table_ok t \<Longrightarrow> pipe_table_ok (fst (fold (cancel_process_step pid) is' (t, ws)))"
proof (induction is' arbitrary: t ws)
  case (Cons i is')
  have "pipe_table_ok (fst (cancel_process_step pid i (t, ws)))"
    using Cons.prems pipe_table_ok_store [OF Cons.prems] cancel_fifo_opens_idx
    by (auto simp: cancel_process_step_def split: option.splits prod.splits
        intro!: pipe_table_ok_free) (metis fst_conv)
  then show ?case using Cons.IH by (metis fold_simps(2) prod.collapse)
qed simp

lemma pipe_table_ok_apply: "pipe_table_ok t \<Longrightarrow> pipe_table_ok (table_apply op t)"
proof (cases op)
  case (TAlloc p)
  assume ok: "pipe_table_ok t"
  obtain t' i where "pipe_alloc t p = (t', i)" using surj_pair by metis
  with pipe_alloc_facts [OF _ this] ok TAlloc show ?thesis
    by (auto simp: pipe_table_ok_def split: if_splits)
next
  case (TAllocPair p q)
  assume ok: "pipe_table_ok t"
  obtain t' i j where "pipe_alloc_pair t p q = (t', i, j)" using surj_pair by metis
  with pipe_alloc_pair_facts [OF _ this] ok TAllocPair show ?thesis
    by (auto simp: pipe_table_ok_def split: if_splits)
next
  case (TTake owner)
  assume ok: "pipe_table_ok t"
  have "pipe_idx (fst (take_ready_fifo_open p owner)) = pipe_idx p" for p
    by (simp add: take_ready_fifo_open_def split: option.splits)
  with ok TTake show ?thesis
    by (auto simp: table_take_ready_fifo_open_def split: option.splits prod.splits
        intro!: pipe_table_ok_store) (metis fst_conv)
next
  case (TCancel owner)
  assume ok: "pipe_table_ok t"
  show ?thesis using ok TCancel cancel_fifo_open_idx pipe_table_ok_store [OF ok]
    by (auto simp: table_cancel_fifo_open_def Let_def split: option.splits prod.splits
        intro!: pipe_table_ok_free) (metis fst_conv)+
next
  case (TSend i fds)
  assume ok: "pipe_table_ok t"
  then show ?thesis using TSend
    by (auto simp: queue_retained_ancillary_def push_ancillary_def split: option.splits
        intro!: pipe_table_ok_collect pipe_table_ok_store)
next
  case (TDiscard i)
  assume ok: "pipe_table_ok t"
  have "pipe_idx ((close_write_end \<circ> close_read_end) p) = pipe_idx p" for p
    using announces_endpoints [of p] announces_endpoints [of "close_read_end p"] by (simp add: announces_def)
  with ok TDiscard show ?thesis
    by (simp only: table_apply.simps discard_unclaimed_def pipe_table_ok_free pipe_table_ok_update)
qed (simp_all add: pipe_table_ok_update pipe_apply_idx finish_ancillary_transition_def
    pipe_table_ok_collect pipe_table_ok_free table_remove_fifo_name_def table_remove_fifo_name_at_def
    remove_fifo_name_def remove_fifo_name_at_def table_cancel_fifo_opens_for_process_def
    pipe_table_ok_cancel_process Let_def)

lemma pipe_table_ok_run: "pipe_table_ok (fold table_apply ops pipe_table_new)"
proof -
  have "pipe_table_ok t \<Longrightarrow> pipe_table_ok (fold table_apply ops t)" for t
    by (induction ops arbitrary: t) (simp_all add: pipe_table_ok_apply)
  moreover have "pipe_table_ok pipe_table_new"
    by (simp add: pipe_table_ok_def pipe_table_wf_def pipe_table_new_def pipe_get_def)
  ultimately show ?thesis by blast
qed

text \<open>C30. After any sequence of operations on a fresh table the free list names each empty slot
  exactly once and every pipe carries its own index, so its wakeup events name it; hence an
  allocation never overwrites a live pipe, and the two pipes of a pair, which the host's TCP bridge
  addresses as \<open>i\<close> and \<open>i + 1\<close>, are adjacent and both fresh.\<close>

theorem pipe_table_invariant:
  "pipe_table_ok (fold table_apply ops pipe_table_new) \<and>
   (case pipe_alloc (fold table_apply ops pipe_table_new) p of (t', i) \<Rightarrow>
      pipe_get (fold table_apply ops pipe_table_new) i = None \<and>
      pipe_get t' = (pipe_get (fold table_apply ops pipe_table_new))(i \<mapsto> p\<lparr> pipe_idx := i \<rparr>)) \<and>
   (case pipe_alloc_pair (fold table_apply ops pipe_table_new) p q of (t', i, j) \<Rightarrow>
      j = i + 1 \<and>
      pipe_get (fold table_apply ops pipe_table_new) i = None \<and>
      pipe_get (fold table_apply ops pipe_table_new) j = None \<and>
      pipe_get t' = (pipe_get (fold table_apply ops pipe_table_new))
        (i \<mapsto> p\<lparr> pipe_idx := i \<rparr>, j \<mapsto> q\<lparr> pipe_idx := j \<rparr>))"
proof -
  let ?t = "fold table_apply ops pipe_table_new"
  have wf: "pipe_table_wf ?t" using pipe_table_ok_run [of ops] by (simp add: pipe_table_ok_def)
  obtain t' i where a: "pipe_alloc ?t p = (t', i)" using surj_pair by metis
  obtain u k j where b: "pipe_alloc_pair ?t p q = (u, k, j)" using surj_pair by metis
  show ?thesis
    using pipe_table_ok_run [of ops] pipe_alloc_facts [OF wf a] pipe_alloc_pair_facts [OF wf b]
    unfolding a b by auto
qed

end
