(* ===== verification/Mqueue.thy ===== *)
theory Mqueue
  imports Pipe_Buffer
begin

text \<open>
  POSIX message queues (\<^verbatim>\<open>src/crates/kernel/src/mqueue.rs\<close>).  The two
  \<open>BTreeMap\<close>s of the table, queues by name and descriptors by number, are maps; a queue's
  messages are the vector the code keeps, highest priority first.  The lemmas show that the
  vector implements one FIFO per priority, that the limits of the queue are respected, and what
  happens when a name is created again while descriptors of the unlinked queue are open.
\<close>

unbundle bit_operations_syntax

section \<open>Constants and data\<close>

definition MQ_O_CREAT :: u32 where "MQ_O_CREAT = 0x40"
definition MQ_O_EXCL :: u32 where "MQ_O_EXCL = 0x80"
definition MQ_O_NONBLOCK :: u32 where "MQ_O_NONBLOCK = 0x800"
definition MQ_O_LARGEFILE :: u32 where "MQ_O_LARGEFILE = 0x8000"
definition MQ_SIGEV_SIGNAL :: nat where "MQ_SIGEV_SIGNAL = 0"
definition MQ_SIGEV_NONE :: nat where "MQ_SIGEV_NONE = 1"
definition DEFAULT_MAXMSG :: nat where "DEFAULT_MAXMSG = 10"
definition DEFAULT_MSGSIZE :: nat where "DEFAULT_MSGSIZE = 8192"
definition MQD_BASE :: u32 where "MQD_BASE = 0x40000000"

record mq_message =
  mq_data :: "u8 list"
  mq_priority :: nat

record mq_notification =
  mqn_pid :: nat
  mqn_signo :: nat

record mq_queue =
  mq_name :: "u8 list"
  maxmsg :: nat
  msgsize :: nat
  messages :: "mq_message list"
  unlinked :: bool
  open_count :: nat
  notification :: "mq_notification option"
  mq_mode :: u32

record mq_descriptor =
  queue_name :: "u8 list"
  access_mode :: u32
  nonblock :: bool

record mq_attr =
  mqa_flags :: u32
  mqa_maxmsg :: nat
  mqa_msgsize :: nat
  mqa_curmsgs :: nat

record mqueue_table =
  queues :: "u8 list \<rightharpoonup> mq_queue"
  descriptors :: "u32 \<rightharpoonup> mq_descriptor"
  next_mqd :: u32
  pending_notification :: "mq_notification option"

definition mqueue_table_new :: mqueue_table where
  "mqueue_table_new =
     \<lparr> queues = Map.empty, descriptors = Map.empty, next_mqd = MQD_BASE, pending_notification = None \<rparr>"

definition set_pending_notification :: "mqueue_table \<Rightarrow> mq_notification \<Rightarrow> mqueue_table" where
  "set_pending_notification t n = t\<lparr> pending_notification := Some n \<rparr>"

definition take_pending_notification :: "mqueue_table \<Rightarrow> mqueue_table \<times> mq_notification option" where
  "take_pending_notification t = (t\<lparr> pending_notification := None \<rparr>, pending_notification t)"

definition is_mqd :: "mqueue_table \<Rightarrow> u32 \<Rightarrow> bool" where
  "is_mqd t fd \<longleftrightarrow> descriptors t fd \<noteq> None"

definition is_nonblock :: "mqueue_table \<Rightarrow> u32 \<Rightarrow> bool option" where
  "is_nonblock t mqd = map_option nonblock (descriptors t mqd)"

definition set_queue :: "mqueue_table \<Rightarrow> u8 list \<Rightarrow> mq_queue \<Rightarrow> mqueue_table" where
  "set_queue t n q = t\<lparr> queues := (queues t)(n \<mapsto> q) \<rparr>"

section \<open>Operations\<close>

definition queue_exists :: "mqueue_table \<Rightarrow> u8 list \<Rightarrow> bool" where
  "queue_exists t name = (case queues t name of Some q \<Rightarrow> \<not> unlinked q | None \<Rightarrow> False)"

definition add_descriptor :: "mqueue_table \<Rightarrow> u8 list \<Rightarrow> u32 \<Rightarrow> bool \<Rightarrow> mqueue_table \<times> u32 result" where
  "add_descriptor t name access nb =
     (t\<lparr> next_mqd := next_mqd t + 1,
         descriptors := (descriptors t)(next_mqd t \<mapsto>
           \<lparr> queue_name = name, access_mode = access, nonblock = nb \<rparr>) \<rparr>, Ok (next_mqd t))"

definition mq_open ::
  "mqueue_table \<Rightarrow> u8 list \<Rightarrow> u32 \<Rightarrow> u32 \<Rightarrow> nat \<Rightarrow> nat \<Rightarrow> bool \<Rightarrow> mqueue_table \<times> u32 result" where
  "mq_open t name flags0 mode attr_maxmsg attr_msgsize has_attr =
     (let flags = flags0 AND NOT MQ_O_LARGEFILE;
        access = flags AND O_ACCMODE;
        creating = flags AND MQ_O_CREAT \<noteq> 0;
        exclusive = flags AND MQ_O_EXCL \<noteq> 0;
        nb = flags AND MQ_O_NONBLOCK \<noteq> 0
      in if name = [] \<or> length name > 255 then (t, Err EINVAL)
         else if creating \<and> exclusive \<and> queue_exists t name then (t, Err EEXIST)
         else if \<not> creating \<and> \<not> queue_exists t name then (t, Err ENOENT)
         else if queue_exists t name
         then (case queues t name of
                 Some q \<Rightarrow>
                   add_descriptor (set_queue t name (q\<lparr> open_count := u32_inc (open_count q) \<rparr>))
                     name access nb
               | None \<Rightarrow> (t, Err ENOENT))
         else
           (let mm = (if has_attr then attr_maxmsg else DEFAULT_MAXMSG);
              ms = (if has_attr then attr_msgsize else DEFAULT_MSGSIZE)
            in if mm = 0 \<or> ms = 0 then (t, Err EINVAL)
               else add_descriptor
                      (set_queue t name
                         \<lparr> mq_name = name, maxmsg = mm, msgsize = ms, messages = [], unlinked = False,
                           open_count = 1, notification = None, mq_mode = mode \<rparr>)
                      name access nb))"

definition mq_close :: "mqueue_table \<Rightarrow> u32 \<Rightarrow> mqueue_table \<times> unit result" where
  "mq_close t mqd =
     (case descriptors t mqd of
        None \<Rightarrow> (t, Err EBADF)
      | Some d \<Rightarrow>
          (let t1 = t\<lparr> descriptors := (descriptors t)(mqd := None) \<rparr>
           in (case queues t1 (queue_name d) of
                 None \<Rightarrow> t1
               | Some q \<Rightarrow>
                   (let q' = q\<lparr> open_count := open_count q - 1 \<rparr>
                    in if open_count q' = 0 \<and> unlinked q'
                       then t1\<lparr> queues := (queues t1)(queue_name d := None) \<rparr>
                       else set_queue t1 (queue_name d) q'),
               Ok ())))"

definition mq_unlink :: "mqueue_table \<Rightarrow> u8 list \<Rightarrow> mqueue_table \<times> unit result" where
  "mq_unlink t name =
     (case queues t name of
        None \<Rightarrow> (t, Err ENOENT)
      | Some q \<Rightarrow>
          if unlinked q then (t, Err ENOENT)
          else if open_count q = 0 then (t\<lparr> queues := (queues t)(name := None) \<rparr>, Ok ())
          else (set_queue t name (q\<lparr> unlinked := True \<rparr>), Ok ()))"

text \<open>The position found by \<open>position(|m| priority > m.priority)\<close>, or the end.\<close>

definition enqueue_message :: "mq_message list \<Rightarrow> mq_message \<Rightarrow> mq_message list" where
  "enqueue_message ms m =
     insert_at (length (takeWhile (\<lambda>x. \<not> mq_priority m > mq_priority x) ms)) m ms"

definition mq_send ::
  "mqueue_table \<Rightarrow> u32 \<Rightarrow> u8 list \<Rightarrow> nat \<Rightarrow> mqueue_table \<times> mq_notification option result" where
  "mq_send t mqd data prio =
     (case descriptors t mqd of
        None \<Rightarrow> (t, Err EBADF)
      | Some d \<Rightarrow>
          if access_mode d = O_RDONLY then (t, Err EBADF)
          else (case queues t (queue_name d) of
             None \<Rightarrow> (t, Err EBADF)
           | Some q \<Rightarrow>
               if length data > msgsize q then (t, Err EMSGSIZE)
               else if length (messages q) \<ge> maxmsg q then (t, Err EAGAIN)
               else
                 (let q1 = q\<lparr> messages := enqueue_message (messages q) \<lparr> mq_data = data, mq_priority = prio \<rparr> \<rparr>
                  in if messages q = []
                     then (set_queue t (queue_name d) (q1\<lparr> notification := None \<rparr>), Ok (notification q))
                     else (set_queue t (queue_name d) q1, Ok None))))"

definition mq_receive :: "mqueue_table \<Rightarrow> u32 \<Rightarrow> nat \<Rightarrow> mqueue_table \<times> mq_message result" where
  "mq_receive t mqd buf_size =
     (case descriptors t mqd of
        None \<Rightarrow> (t, Err EBADF)
      | Some d \<Rightarrow>
          if access_mode d = O_WRONLY then (t, Err EBADF)
          else (case queues t (queue_name d) of
             None \<Rightarrow> (t, Err EBADF)
           | Some q \<Rightarrow>
               if buf_size < msgsize q then (t, Err EMSGSIZE)
               else (case messages q of
                  [] \<Rightarrow> (t, Err EAGAIN)
                | m # ms \<Rightarrow> (set_queue t (queue_name d) (q\<lparr> messages := ms \<rparr>), Ok m))))"

definition mq_notify ::
  "mqueue_table \<Rightarrow> u32 \<Rightarrow> nat \<Rightarrow> nat option \<Rightarrow> nat \<Rightarrow> mqueue_table \<times> unit result" where
  "mq_notify t mqd pid sigev_notify signo =
     (case descriptors t mqd of
        None \<Rightarrow> (t, Err EBADF)
      | Some d \<Rightarrow>
          (case queues t (queue_name d) of
             None \<Rightarrow> (t, Err EBADF)
           | Some q \<Rightarrow>
               (case sigev_notify of
                  None \<Rightarrow> (set_queue t (queue_name d) (q\<lparr> notification := None \<rparr>), Ok ())
                | Some k \<Rightarrow>
                    if k = MQ_SIGEV_NONE
                    then (if notification q \<noteq> None then (t, Err EBUSY)
                          else (set_queue t (queue_name d)
                                  (q\<lparr> notification := Some \<lparr> mqn_pid = pid, mqn_signo = 0 \<rparr> \<rparr>), Ok ()))
                    else if k = MQ_SIGEV_SIGNAL
                    then (if notification q \<noteq> None then (t, Err EBUSY)
                          else (set_queue t (queue_name d)
                                  (q\<lparr> notification := Some \<lparr> mqn_pid = pid, mqn_signo = signo \<rparr> \<rparr>), Ok ()))
                    else (t, Err EINVAL))))"

definition mq_getsetattr :: "mqueue_table \<Rightarrow> u32 \<Rightarrow> u32 option \<Rightarrow> mqueue_table \<times> mq_attr result" where
  "mq_getsetattr t mqd new_flags =
     (case descriptors t mqd of
        None \<Rightarrow> (t, Err EBADF)
      | Some d \<Rightarrow>
          (case queues t (queue_name d) of
             None \<Rightarrow> (t, Err EBADF)
           | Some q \<Rightarrow>
               (case new_flags of
                  None \<Rightarrow> t
                | Some f \<Rightarrow>
                    t\<lparr> descriptors := (descriptors t)(mqd \<mapsto> d\<lparr> nonblock := (f AND MQ_O_NONBLOCK \<noteq> 0) \<rparr>) \<rparr>,
                Ok \<lparr> mqa_flags = (if nonblock d then MQ_O_NONBLOCK else 0), mqa_maxmsg = maxmsg q,
                     mqa_msgsize = msgsize q, mqa_curmsgs = length (messages q) mod 2 ^ 32 \<rparr>)))"

definition mq_cleanup_process :: "mqueue_table \<Rightarrow> nat \<Rightarrow> mqueue_table" where
  "mq_cleanup_process t pid =
     t\<lparr> queues := (\<lambda>n. map_option
          (\<lambda>q. case notification q of
                 Some k \<Rightarrow> if mqn_pid k = pid then q\<lparr> notification := None \<rparr> else q
               | None \<Rightarrow> q) (queues t n)) \<rparr>"

section \<open>One FIFO per priority\<close>

definition of_priority :: "nat \<Rightarrow> mq_message list \<Rightarrow> mq_message list" where
  "of_priority k ms = filter (\<lambda>m. mq_priority m = k) ms"

definition by_priority :: "mq_message list \<Rightarrow> bool" where
  "by_priority ms \<longleftrightarrow> sorted_wrt (\<lambda>a b. mq_priority b \<le> mq_priority a) ms"

lemma enqueue_message_eq:
  "enqueue_message ms m =
     takeWhile (\<lambda>x. mq_priority m \<le> mq_priority x) ms @ m # dropWhile (\<lambda>x. mq_priority m \<le> mq_priority x) ms"
  by (simp add: enqueue_message_def insert_at_def not_less takeWhile_eq_take [symmetric] dropWhile_eq_drop [symmetric])

lemma dropWhile_by_priority:
  "by_priority ms \<Longrightarrow> x \<in> set (dropWhile (\<lambda>x. k \<le> mq_priority x) ms) \<Longrightarrow> mq_priority x < k"
  by (induction ms) (auto simp: by_priority_def not_le split: if_splits intro: le_less_trans)

lemma enqueue_message_fifo:
  assumes "by_priority ms"
  shows "by_priority (enqueue_message ms m)"
    and "of_priority k (enqueue_message ms m) =
           of_priority k ms @ (if k = mq_priority m then [m] else [])"
proof -
  let ?P = "\<lambda>x. mq_priority m \<le> mq_priority x"
  have low: "\<forall>x \<in> set (dropWhile ?P ms). mq_priority x < mq_priority m"
    using dropWhile_by_priority [OF assms] by blast
  have high: "\<forall>x \<in> set (takeWhile ?P ms). mq_priority m \<le> mq_priority x"
    by (blast dest: set_takeWhileD)
  have "by_priority (takeWhile ?P ms)" "by_priority (dropWhile ?P ms)"
    using assms unfolding by_priority_def by (induction ms) (auto dest: set_takeWhileD)
  moreover have "mq_priority y \<le> mq_priority x"
    if "x \<in> set (takeWhile ?P ms)" "y \<in> set (dropWhile ?P ms)" for x y
    using low high that by (meson le_trans less_imp_le)
  ultimately show "by_priority (enqueue_message ms m)"
    using low high unfolding by_priority_def enqueue_message_eq sorted_wrt_append sorted_wrt.simps set_simps
    by (blast intro: less_imp_le)
  have "of_priority k ms = of_priority k (takeWhile ?P ms) @ of_priority k (dropWhile ?P ms)"
    unfolding of_priority_def filter_append [symmetric] by simp
  moreover have "of_priority (mq_priority m) (dropWhile ?P ms) = []"
    using low by (auto simp: of_priority_def filter_empty_conv)
  ultimately show "of_priority k (enqueue_message ms m) =
      of_priority k ms @ (if k = mq_priority m then [m] else [])"
    by (auto simp: enqueue_message_eq of_priority_def)
qed

section \<open>The table invariant\<close>

definition mq_queue_ok :: "mq_queue \<Rightarrow> bool" where
  "mq_queue_ok q \<longleftrightarrow> by_priority (messages q) \<and> length (messages q) \<le> maxmsg q \<and>
     0 < maxmsg q \<and> 0 < msgsize q \<and> list_all (\<lambda>m. length (mq_data m) \<le> msgsize q) (messages q)"

definition mqueue_ok :: "mqueue_table \<Rightarrow> bool" where
  "mqueue_ok t \<longleftrightarrow>
     (\<forall>n q. queues t n = Some q \<longrightarrow> mq_name q = n \<and> n \<noteq> [] \<and> length n \<le> 255 \<and> mq_queue_ok q)"

datatype mq_op =
    MqOpen "u8 list" u32 u32 nat nat bool | MqClose u32 | MqUnlink "u8 list"
  | MqSend u32 "u8 list" nat | MqReceive u32 nat | MqNotify u32 nat "nat option" nat
  | MqSetattr u32 "u32 option" | MqExit nat | MqSetPending mq_notification | MqTakePending

fun mq_apply :: "mq_op \<Rightarrow> mqueue_table \<Rightarrow> mqueue_table" where
  "mq_apply (MqOpen n fl md mm ms at) t = fst (mq_open t n fl md mm ms at)"
| "mq_apply (MqClose d) t = fst (mq_close t d)"
| "mq_apply (MqUnlink n) t = fst (mq_unlink t n)"
| "mq_apply (MqSend d data prio) t = fst (mq_send t d data prio)"
| "mq_apply (MqReceive d bufsz) t = fst (mq_receive t d bufsz)"
| "mq_apply (MqNotify d pid ev signo) t = fst (mq_notify t d pid ev signo)"
| "mq_apply (MqSetattr d fl) t = fst (mq_getsetattr t d fl)"
| "mq_apply (MqExit pid) t = mq_cleanup_process t pid"
| "mq_apply (MqSetPending n) t = set_pending_notification t n"
| "mq_apply MqTakePending t = fst (take_pending_notification t)"

definition mq_run :: "mq_op list \<Rightarrow> mqueue_table" where
  "mq_run ops = fold mq_apply ops mqueue_table_new"

lemma mqueue_ok_set_queue:
  "mqueue_ok t \<Longrightarrow> mq_name q = n \<Longrightarrow> n \<noteq> [] \<Longrightarrow> length n \<le> 255 \<Longrightarrow> mq_queue_ok q \<Longrightarrow>
     mqueue_ok (set_queue t n q)"
  by (simp add: mqueue_ok_def set_queue_def)

lemma mqueue_ok_get:
  "mqueue_ok t \<Longrightarrow> queues t n = Some q \<Longrightarrow> mq_name q = n \<and> n \<noteq> [] \<and> length n \<le> 255 \<and> mq_queue_ok q"
  by (simp add: mqueue_ok_def)

lemma mqueue_ok_quiet:
  "mqueue_ok (t\<lparr> descriptors := d \<rparr>) = mqueue_ok t" "mqueue_ok (t\<lparr> next_mqd := i \<rparr>) = mqueue_ok t"
  "mqueue_ok (t\<lparr> pending_notification := p \<rparr>) = mqueue_ok t"
  "mqueue_ok t \<Longrightarrow> mqueue_ok (t\<lparr> queues := (queues t)(n := None) \<rparr>)"
  by (auto simp: mqueue_ok_def)

lemma mq_queue_ok_quiet:
  "mq_queue_ok (q\<lparr> open_count := c \<rparr>) = mq_queue_ok q" "mq_queue_ok (q\<lparr> unlinked := u \<rparr>) = mq_queue_ok q"
  "mq_queue_ok (q\<lparr> notification := k \<rparr>) = mq_queue_ok q"
  by (simp_all add: mq_queue_ok_def)

lemma mq_queue_ok_send:
  "mq_queue_ok q \<Longrightarrow> length (mq_data m) \<le> msgsize q \<Longrightarrow> length (messages q) < maxmsg q \<Longrightarrow>
     mq_queue_ok (q\<lparr> messages := enqueue_message (messages q) m \<rparr>)"
  by (auto simp: mq_queue_ok_def enqueue_message_fifo list_all_iff) (auto simp: enqueue_message_def)

lemma mqueue_ok_add_descriptor: "mqueue_ok (fst (add_descriptor t n acc nb)) = mqueue_ok t"
  by (simp add: add_descriptor_def mqueue_ok_def)

lemma mqueue_ok_open:
  assumes ok: "mqueue_ok t"
  shows "mqueue_ok (fst (mq_open t n fl md mm ms at))"
proof (cases "n = [] \<or> length n > 255 \<or> (\<exists>e. snd (mq_open t n fl md mm ms at) = Err e)")
  case True
  then have "fst (mq_open t n fl md mm ms at) = t"
    by (auto simp: mq_open_def Let_def add_descriptor_def split: option.splits if_splits)
  then show ?thesis using ok by simp
next
  case False
  then have n: "n \<noteq> []" "length n \<le> 255" by auto
  from False consider
      q acc nb where "queues t n = Some q"
        "mq_open t n fl md mm ms at =
           add_descriptor (set_queue t n (q\<lparr> open_count := u32_inc (open_count q) \<rparr>)) n acc nb"
    | x y acc nb where "x \<noteq> 0" "y \<noteq> 0"
        "mq_open t n fl md mm ms at =
           add_descriptor (set_queue t n
             \<lparr> mq_name = n, maxmsg = x, msgsize = y, messages = [], unlinked = False,
               open_count = 1, notification = None, mq_mode = md \<rparr>) n acc nb"
    by (simp add: mq_open_def Let_def split: option.splits if_splits) blast+
  then show ?thesis
  proof cases
    case 1
    then show ?thesis using mqueue_ok_get [OF ok 1(1)] ok
      by (simp add: mqueue_ok_add_descriptor mqueue_ok_set_queue mq_queue_ok_quiet)
  next
    case 2
    then show ?thesis using ok n
      by (simp add: mqueue_ok_add_descriptor mqueue_ok_set_queue mq_queue_ok_def by_priority_def)
  qed
qed

lemma mqueue_ok_close:
  assumes ok: "mqueue_ok t"
  shows "mqueue_ok (fst (mq_close t d))"
proof -
  have "mqueue_ok (t\<lparr> descriptors := x \<rparr>)" for x using ok by (simp add: mqueue_ok_quiet)
  then show ?thesis using ok
    by (auto simp: mq_close_def Let_def mq_queue_ok_quiet dest: mqueue_ok_get [OF ok]
        intro!: mqueue_ok_set_queue split: option.splits) (simp add: mqueue_ok_def)
qed

lemma mqueue_ok_send:
  assumes ok: "mqueue_ok t"
  shows "mqueue_ok (fst (mq_send t d data prio))"
proof (cases "\<exists>e. snd (mq_send t d data prio) = Err e")
  case True
  then have "fst (mq_send t d data prio) = t"
    by (auto simp: mq_send_def Let_def split: option.splits if_splits)
  then show ?thesis using ok by simp
next
  case False
  then obtain ds q where q: "descriptors t d = Some ds" "access_mode ds \<noteq> O_RDONLY"
      "queues t (queue_name ds) = Some q" "length data \<le> msgsize q" "length (messages q) < maxmsg q"
    by (auto simp: mq_send_def Let_def not_le not_less split: option.splits if_splits)
  define q1 where "q1 = q\<lparr> messages := enqueue_message (messages q) \<lparr> mq_data = data, mq_priority = prio \<rparr> \<rparr>"
  have "fst (mq_send t d data prio) = set_queue t (queue_name ds)
      (if messages q = [] then q1\<lparr> notification := None \<rparr> else q1)"
    using q by (simp add: mq_send_def Let_def not_less q1_def)
  moreover have "mq_queue_ok q1" "mq_name q1 = queue_name ds"
    using mqueue_ok_get [OF ok q(3)] q by (simp_all add: mq_queue_ok_send q1_def)
  ultimately show ?thesis
    using mqueue_ok_get [OF ok q(3)] ok by (simp add: mqueue_ok_set_queue mq_queue_ok_quiet)
qed

lemma mqueue_ok_apply:
  assumes ok: "mqueue_ok t"
  shows "mqueue_ok (mq_apply op t)"
proof (cases op)
  case (MqOpen n fl md mm ms at)
  then show ?thesis by (simp add: mqueue_ok_open ok)
next
  case (MqClose d)
  then show ?thesis by (simp add: mqueue_ok_close ok)
next
  case (MqUnlink n)
  then show ?thesis using ok
    by (auto simp: mq_unlink_def mq_queue_ok_quiet dest: mqueue_ok_get [OF ok]
        intro!: mqueue_ok_set_queue mqueue_ok_quiet split: option.splits)
next
  case (MqSend d data prio)
  then show ?thesis by (simp add: mqueue_ok_send ok)
next
  case (MqReceive d bufsz)
  have tail: "mq_queue_ok q \<Longrightarrow> messages q = m # ms \<Longrightarrow> mq_queue_ok (q\<lparr> messages := ms \<rparr>)" for q m ms
    by (auto simp: mq_queue_ok_def by_priority_def)
  from MqReceive show ?thesis using ok
    by (auto simp: mq_receive_def Let_def dest: mqueue_ok_get [OF ok]
        intro!: mqueue_ok_set_queue intro: tail split: option.splits list.splits)
next
  case (MqNotify d pid ev signo)
  then show ?thesis using ok
    by (auto simp: mq_notify_def mq_queue_ok_quiet dest: mqueue_ok_get [OF ok]
        intro!: mqueue_ok_set_queue split: option.splits)
next
  case (MqExit pid)
  then show ?thesis using ok
    by (auto simp: mq_cleanup_process_def mqueue_ok_def mq_queue_ok_quiet split: option.splits)
qed (use ok in \<open>auto simp: mq_getsetattr_def set_pending_notification_def take_pending_notification_def
      mqueue_ok_quiet split: option.splits\<close>)

lemma mqueue_ok_run: "mqueue_ok (mq_run ops)"
proof -
  have "mqueue_ok t \<Longrightarrow> mqueue_ok (fold mq_apply ops t)" for t
    by (induction ops arbitrary: t) (simp_all add: mqueue_ok_apply)
  moreover have "mqueue_ok mqueue_table_new" by (simp add: mqueue_ok_def mqueue_table_new_def)
  ultimately show ?thesis by (simp add: mq_run_def)
qed

text \<open>C31. A receive takes the oldest of the messages of the highest priority: after any sequence of
  operations, a successful receive returns a message at least as urgent as every other of the queue,
  the first one sent among those of its priority, and takes it out of the queue, leaving the FIFO of
  every other priority and the other queues as they were; and the next send to the same queue goes
  to the end of its priority's FIFO.\<close>

theorem mq_priority_fifo:
  assumes "mq_receive (mq_run ops) mqd bufsz = (t', Ok m)"
  shows "\<exists>d q q'. descriptors (mq_run ops) mqd = Some d \<and> queues (mq_run ops) (queue_name d) = Some q \<and>
    t' = set_queue (mq_run ops) (queue_name d) q' \<and>
    (\<forall>x. x \<in> set (messages q) \<longrightarrow> mq_priority x \<le> mq_priority m) \<and>
    (\<forall>k. of_priority k (messages q) =
       (if k = mq_priority m then [m] else []) @ of_priority k (messages q')) \<and>
    (\<forall>k n. of_priority k (enqueue_message (messages q') n) =
       of_priority k (messages q') @ (if k = mq_priority n then [n] else []))"
proof -
  obtain d q ms where q: "descriptors (mq_run ops) mqd = Some d" "queues (mq_run ops) (queue_name d) = Some q"
    "messages q = m # ms" "t' = set_queue (mq_run ops) (queue_name d) (q\<lparr> messages := ms \<rparr>)"
    using assms by (auto simp: mq_receive_def split: option.splits if_splits list.splits)
  have s: "by_priority (m # ms)"
    using mqueue_ok_get [OF mqueue_ok_run q(2)] q(3) by (simp add: mq_queue_ok_def)
  then have "by_priority ms" by (simp add: by_priority_def)
  then show ?thesis
    using q s enqueue_message_fifo(2)
    by (intro exI [of _ d] exI [of _ q] exI [of _ "q\<lparr> messages := ms \<rparr>"])
      (auto simp: by_priority_def of_priority_def)
qed

text \<open>The witness sends priorities 1, 5, 5 through a read-write descriptor and receives.\<close>

definition mq_demo :: "mq_op list" where
  "mq_demo = [MqOpen [47, 113] 0x42 0 4 8 True, MqSend MQD_BASE [1] 1, MqSend MQD_BASE [2] 5,
              MqSend MQD_BASE [3] 5]"

theorem mq_priority_fifo_witness:
  "snd (mq_receive (mq_run mq_demo) MQD_BASE 8) = Ok \<lparr> mq_data = [2], mq_priority = 5 \<rparr> \<and>
   (\<exists>d q. \<exists>q' :: mq_queue. descriptors (mq_run mq_demo) MQD_BASE = Some d \<and>
      queues (mq_run mq_demo) (queue_name d) = Some q \<and>
      of_priority 5 (messages q) = [\<lparr> mq_data = [2], mq_priority = 5 \<rparr>] @ of_priority 5 (messages q'))"
proof -
  have r: "snd (mq_receive (mq_run mq_demo) MQD_BASE 8) = Ok \<lparr> mq_data = [2], mq_priority = 5 \<rparr>"
    by code_simp
  then have "mq_receive (mq_run mq_demo) MQD_BASE 8 =
      (fst (mq_receive (mq_run mq_demo) MQD_BASE 8), Ok \<lparr> mq_data = [2], mq_priority = 5 \<rparr>)"
    by (metis prod.collapse)
  from mq_priority_fifo [OF this] obtain d q and q' :: mq_queue where
    "descriptors (mq_run mq_demo) MQD_BASE = Some d" "queues (mq_run mq_demo) (queue_name d) = Some q"
    and fifo: "\<forall>k. of_priority k (messages q) =
       (if k = mq_priority \<lparr> mq_data = [2], mq_priority = 5 \<rparr> then [\<lparr> mq_data = [2], mq_priority = 5 \<rparr>] else []) @
       of_priority k (messages q')" by (elim exE conjE) (rule that; assumption)
  moreover from fifo have "of_priority 5 (messages q) =
      [\<lparr> mq_data = [2], mq_priority = 5 \<rparr>] @ of_priority 5 (messages q')" by simp
  ultimately show ?thesis using r by blast
qed

text \<open>C32. The limits hold at all times: whatever is opened, sent, received, closed or unlinked, no
  queue ever holds more than \<open>maxmsg\<close> messages or a message longer than \<open>msgsize\<close>, its messages stay
  in priority order, and it is stored under its own valid name.\<close>

theorem mqueue_limits: "mqueue_ok (mq_run ops)"
  by (rule mqueue_ok_run)

section \<open>A name created again\<close>

text \<open>
  Descriptors name their queue by its path.  After \<open>mq_unlink\<close> the open descriptors should keep the
  old queue, but creating the name again replaces it in the table: a message sent through the old
  descriptor arrives in the new queue, and closing the old descriptor takes away the reference of
  the new one, so that unlinking the new queue makes its open descriptor invalid.
\<close>

definition mq_recreate_demo :: "mq_op list" where
  "mq_recreate_demo =
     [MqOpen [47, 113] 0x42 0 4 8 True, MqUnlink [47, 113], MqOpen [47, 113] 0x42 0 4 8 True]"

theorem mq_recreate_aliases:
  "snd (mq_receive (mq_run (mq_recreate_demo @ [MqSend MQD_BASE [9] 0])) (MQD_BASE + 1) 8) =
     Ok \<lparr> mq_data = [9], mq_priority = 0 \<rparr> \<and>
   snd (mq_receive (mq_run (mq_recreate_demo @ [MqClose MQD_BASE, MqUnlink [47, 113]])) (MQD_BASE + 1) 8) =
     Err EBADF"
proof
  show "snd (mq_receive (mq_run (mq_recreate_demo @ [MqSend MQD_BASE [9] 0])) (MQD_BASE + 1) 8) =
     Ok \<lparr> mq_data = [9], mq_priority = 0 \<rparr>" by code_simp
  show "snd (mq_receive (mq_run (mq_recreate_demo @ [MqClose MQD_BASE, MqUnlink [47, 113]])) (MQD_BASE + 1) 8) =
     Err EBADF" by code_simp
qed

end
