(* ===== verification/Sysv_Ipc.thy ===== *)
theory Sysv_Ipc
  imports Sorted_Vector Errno
begin

text \<open>
  System V message queues, semaphore sets and shared memory segments
  (\<^verbatim>\<open>src/crates/kernel/src/ipc.rs\<close>).  The fields the three kinds of object have in common
  (key, identifier, permissions, owner) are one record that each extends, so the permission checks
  and the search by key are written once.  The three tables are ordered maps from identifiers; the
  clock the code reads is the argument \<open>now\<close>.  Offsets and lengths of shared memory chunks are
  added without wrap-around: the segment and the buffer are two allocations of one 32-bit memory;
  so are the byte counts of a message queue, which never exceed \<open>MSGMNB\<close> (shown below).
\<close>

unbundle bit_operations_syntax

section \<open>Constants\<close>

definition IPC_CREAT :: u32 where "IPC_CREAT = 0x200"
definition IPC_EXCL :: u32 where "IPC_EXCL = 0x400"
definition IPC_NOWAIT :: u32 where "IPC_NOWAIT = 0x800"
definition IPC_PRIVATE :: int where "IPC_PRIVATE = 0"
definition IPC_RMID :: int where "IPC_RMID = 0"
definition IPC_SET :: int where "IPC_SET = 1"
definition IPC_STAT :: int where "IPC_STAT = 2"
definition IPC_R :: u32 where "IPC_R = 0x100"
definition IPC_W :: u32 where "IPC_W = 0x80"
definition IPC_PERM_MASK :: u32 where "IPC_PERM_MASK = 0x1FF"
definition SHM_RDONLY :: u32 where "SHM_RDONLY = 0x1000"
definition MSG_NOERROR :: u32 where "MSG_NOERROR = 0x1000"
definition MSG_EXCEPT :: u32 where "MSG_EXCEPT = 0x2000"
definition GETPID :: int where "GETPID = 11"
definition GETVAL :: int where "GETVAL = 12"
definition GETALL :: int where "GETALL = 13"
definition GETNCNT :: int where "GETNCNT = 14"
definition GETZCNT :: int where "GETZCNT = 15"
definition SETVAL :: int where "SETVAL = 16"
definition SETALL :: int where "SETALL = 17"
definition MSGMAX :: nat where "MSGMAX = 8192"
definition MSGMNB :: nat where "MSGMNB = 16384"
definition SEMMSL :: nat where "SEMMSL = 32"

section \<open>Objects\<close>

record ipc_perm =
  ipc_key :: int
  ipc_mode :: u32
  ipc_uid :: nat
  ipc_gid :: nat
  ipc_cuid :: nat
  ipc_cgid :: nat
  ipc_ctime :: int
  ipc_seq :: int

record ipc_object = ipc_perm +
  ipc_id :: int

record msg_entry =
  mtype :: int
  mdata :: "u8 list"

record msg_queue = ipc_object +
  qbytes :: nat
  msgs :: "msg_entry list"
  cbytes :: nat
  lspid :: int
  lrpid :: int
  msg_stime :: int
  msg_rtime :: int

record msg_queue_info = ipc_perm +
  mi_stime :: int
  mi_rtime :: int
  mi_cbytes :: nat
  mi_qnum :: nat
  mi_qbytes :: nat
  mi_lspid :: int
  mi_lrpid :: int

record sem_value =
  sem_val :: u16
  sem_pid :: nat
  ncnt :: nat
  zcnt :: nat

record sem_set = ipc_object +
  nsems :: nat
  sem_values :: "sem_value list"
  sem_otime :: int

record sem_set_info = ipc_perm +
  si_nsems :: nat
  si_otime :: int

record sem_op =
  so_num :: nat
  so_op :: int
  so_flg :: u16

record shm_segment = ipc_object +
  segsz :: nat
  shm_data :: "u8 list"
  shm_cpid :: int
  shm_lpid :: int
  nattch :: nat
  shm_atime :: int
  shm_dtime :: int

record shm_seg_info = ipc_perm +
  hi_segsz :: nat
  hi_cpid :: int
  hi_lpid :: int
  hi_nattch :: nat
  hi_atime :: int
  hi_dtime :: int

datatype sem_ctl_result = SemOk | SemValue int | SemStat sem_set_info | SemAll "u16 list"

record ipc_table =
  msg_queues :: "(int \<times> msg_queue) list"
  sem_sets :: "(int \<times> sem_set) list"
  shm_segments :: "(int \<times> shm_segment) list"
  next_id :: int

definition ipc_table_new :: ipc_table where
  "ipc_table_new = \<lparr> msg_queues = [], sem_sets = [], shm_segments = [], next_id = 0 \<rparr>"

section \<open>Permissions and identifiers\<close>

definition ipc_has_perm :: "nat \<Rightarrow> nat \<Rightarrow> nat \<Rightarrow> nat \<Rightarrow> u32 \<Rightarrow> u32 \<Rightarrow> bool" where
  "ipc_has_perm uid gid owner_uid owner_gid mode perm \<longleftrightarrow>
     uid = 0 \<or> perm = 0 \<or>
     (let available =
        (if uid = owner_uid then drop_bit 6 mode AND 7
         else if gid = owner_gid then drop_bit 3 mode AND 7
         else mode AND 7);
        requested = drop_bit 6 perm AND 7
      in available AND requested = requested)"

definition ipc_check_perm :: "nat \<Rightarrow> nat \<Rightarrow> 'a ipc_perm_scheme \<Rightarrow> u32 \<Rightarrow> unit result" where
  "ipc_check_perm uid gid q perm =
     (if ipc_has_perm uid gid (ipc_uid q) (ipc_gid q) (ipc_mode q) perm then Ok () else Err EACCES)"

definition ipc_check_owner :: "nat \<Rightarrow> 'a ipc_perm_scheme \<Rightarrow> unit result" where
  "ipc_check_owner uid q =
     (if uid = 0 \<or> uid = ipc_uid q \<or> uid = ipc_cuid q then Ok () else Err EPERM)"

definition alloc_id :: "ipc_table \<Rightarrow> ipc_table \<times> int" where
  "alloc_id t = (t\<lparr> next_id := (next_id t + 1) mod 2 ^ 31 \<rparr>, next_id t)"

text \<open>
  The first object of the table with the key, if the key is not private, and what the get call
  answers for it.
\<close>

definition ipc_find_key :: "(int \<times> 'a ipc_object_scheme) list \<Rightarrow> int \<Rightarrow> 'a ipc_object_scheme option" where
  "ipc_find_key xs key =
     (if key = IPC_PRIVATE then None else map_option snd (List.find (\<lambda>(_, q). ipc_key q = key) xs))"

definition ipc_open_existing ::
  "'a ipc_object_scheme \<Rightarrow> u32 \<Rightarrow> nat \<Rightarrow> nat \<Rightarrow> int result" where
  "ipc_open_existing q flags uid gid =
     (if flags AND IPC_CREAT \<noteq> 0 \<and> flags AND IPC_EXCL \<noteq> 0 then Err EEXIST
      else (case ipc_check_perm uid gid q (flags AND IPC_PERM_MASK) of
              Inl e \<Rightarrow> Err e
            | Inr _ \<Rightarrow> Ok (ipc_id q)))"

section \<open>Message queues\<close>

definition msgget :: "int \<Rightarrow> ipc_table \<Rightarrow> int \<Rightarrow> u32 \<Rightarrow> nat \<Rightarrow> nat \<Rightarrow> ipc_table \<times> int result" where
  "msgget now t key flags uid gid =
     (case ipc_find_key (msg_queues t) key of
        Some q \<Rightarrow> (t, ipc_open_existing q flags uid gid)
      | None \<Rightarrow>
          if flags AND IPC_CREAT = 0 \<and> key \<noteq> IPC_PRIVATE then (t, Err ENOENT)
          else
            (let (t1, i) = alloc_id t;
               q = \<lparr> ipc_key = key, ipc_mode = flags AND 0x1FF, ipc_uid = uid, ipc_gid = gid,
                     ipc_cuid = uid, ipc_cgid = gid, ipc_ctime = now, ipc_seq = i, ipc_id = i, qbytes = MSGMNB,
                     msgs = [], cbytes = 0, lspid = 0, lrpid = 0, msg_stime = 0, msg_rtime = 0 \<rparr>
             in (t1\<lparr> msg_queues := btree_insert (msg_queues t1) i q \<rparr>, Ok i)))"

definition msgsnd ::
  "int \<Rightarrow> ipc_table \<Rightarrow> int \<Rightarrow> int \<Rightarrow> u8 list \<Rightarrow> u32 \<Rightarrow> nat \<Rightarrow> nat \<Rightarrow> nat \<Rightarrow> ipc_table \<times> unit result" where
  "msgsnd now t qid ty data flags pid uid gid =
     (if ty \<le> 0 then (t, Err EINVAL)
      else (case map_of (msg_queues t) qid of
        None \<Rightarrow> (t, Err EINVAL)
      | Some q \<Rightarrow>
          (case ipc_check_perm uid gid q IPC_W of
             Inl e \<Rightarrow> (t, Err e)
           | Inr _ \<Rightarrow>
               if length data > MSGMAX then (t, Err EINVAL)
               else if cbytes q + length data > qbytes q then (t, Err EAGAIN)
               else
                 (t\<lparr> msg_queues := btree_update (msg_queues t) qid (\<lambda>q.
                      q\<lparr> cbytes := cbytes q + length data,
                         msgs := msgs q @ [\<lparr> mtype = ty, mdata = data \<rparr>],
                         lspid := as_i32 pid, msg_stime := now \<rparr>) \<rparr>, Ok ()))))"

definition position :: "('a \<Rightarrow> bool) \<Rightarrow> 'a list \<Rightarrow> nat option" where
  "position P xs = List.find (\<lambda>i. P (xs ! i)) [0..<length xs]"

definition neg_i32 :: "int \<Rightarrow> int" where
  "neg_i32 n = (if n = - (2 ^ 31) then n else - n)"

definition msg_select :: "msg_entry list \<Rightarrow> int \<Rightarrow> bool \<Rightarrow> nat option" where
  "msg_select ms msgtype exc =
     (if msgtype = 0 then (if ms = [] then None else Some 0)
      else if msgtype > 0
      then (if exc then position (\<lambda>m. mtype m \<noteq> msgtype) ms else position (\<lambda>m. mtype m = msgtype) ms)
      else position (\<lambda>m. mtype m \<le> neg_i32 msgtype) ms)"

definition msgrcv ::
  "int \<Rightarrow> ipc_table \<Rightarrow> int \<Rightarrow> nat \<Rightarrow> int \<Rightarrow> u32 \<Rightarrow> nat \<Rightarrow> nat \<Rightarrow> nat \<Rightarrow> ipc_table \<times> msg_entry result" where
  "msgrcv now t qid max_size msgtype flags pid uid gid =
     (case map_of (msg_queues t) qid of
        None \<Rightarrow> (t, Err EINVAL)
      | Some q \<Rightarrow>
          (case ipc_check_perm uid gid q IPC_R of
             Inl e \<Rightarrow> (t, Err e)
           | Inr _ \<Rightarrow>
               (case msg_select (msgs q) msgtype (flags AND MSG_EXCEPT \<noteq> 0) of
                  None \<Rightarrow> (t, Err (if flags AND IPC_NOWAIT \<noteq> 0 then ENOMSG else EAGAIN))
                | Some i \<Rightarrow>
                    (let m = msgs q ! i
                     in if length (mdata m) > max_size \<and> flags AND MSG_NOERROR = 0 then (t, Err E2BIG)
                        else
                          (let data = take max_size (mdata m)
                           in (t\<lparr> msg_queues := btree_update (msg_queues t) qid (\<lambda>q.
                                  q\<lparr> msgs := remove_at i (msgs q), cbytes := cbytes q - length data,
                                     lrpid := as_i32 pid, msg_rtime := now \<rparr>) \<rparr>,
                               Ok \<lparr> mtype = mtype m, mdata = data \<rparr>))))))"

definition msgctl ::
  "int \<Rightarrow> ipc_table \<Rightarrow> int \<Rightarrow> int \<Rightarrow> nat \<Rightarrow> nat \<Rightarrow> ipc_table \<times> msg_queue_info option result" where
  "msgctl now t qid cmd uid gid =
     (if cmd = IPC_STAT
      then (case map_of (msg_queues t) qid of
              None \<Rightarrow> (t, Err EINVAL)
            | Some q \<Rightarrow>
                (case ipc_check_perm uid gid q IPC_R of
                   Inl e \<Rightarrow> (t, Err e)
                 | Inr _ \<Rightarrow>
                     (t, Ok (Some \<lparr> ipc_key = ipc_key q, ipc_mode = ipc_mode q,
                        ipc_uid = ipc_uid q, ipc_gid = ipc_gid q, ipc_cuid = ipc_cuid q,
                        ipc_cgid = ipc_cgid q, ipc_ctime = ipc_ctime q, ipc_seq = ipc_seq q,
                        mi_stime = msg_stime q, mi_rtime = msg_rtime q, mi_cbytes = cbytes q,
                        mi_qnum = length (msgs q) mod 2 ^ 32, mi_qbytes = qbytes q,
                        mi_lspid = lspid q, mi_lrpid = lrpid q \<rparr>))))
      else if cmd = IPC_RMID
      then (case map_of (msg_queues t) qid of
              None \<Rightarrow> (t, Err EINVAL)
            | Some q \<Rightarrow>
                (case ipc_check_owner uid q of
                   Inl e \<Rightarrow> (t, Err e)
                 | Inr _ \<Rightarrow> (t\<lparr> msg_queues := btree_remove (msg_queues t) qid \<rparr>, Ok None)))
      else if cmd = IPC_SET
      then (case map_of (msg_queues t) qid of
              None \<Rightarrow> (t, Err EINVAL)
            | Some q \<Rightarrow>
                (case ipc_check_owner uid q of
                   Inl e \<Rightarrow> (t, Err e)
                 | Inr _ \<Rightarrow>
                     (t\<lparr> msg_queues := btree_update (msg_queues t) qid (\<lambda>q. q\<lparr> ipc_ctime := now \<rparr>) \<rparr>,
                      Ok None)))
      else (t, Err EINVAL))"

section \<open>Semaphores\<close>

definition semget :: "int \<Rightarrow> ipc_table \<Rightarrow> int \<Rightarrow> nat \<Rightarrow> u32 \<Rightarrow> nat \<Rightarrow> nat \<Rightarrow> ipc_table \<times> int result" where
  "semget now t key n flags uid gid =
     (case ipc_find_key (sem_sets t) key of
        Some s \<Rightarrow> (t, ipc_open_existing s flags uid gid)
      | None \<Rightarrow>
          if flags AND IPC_CREAT = 0 \<and> key \<noteq> IPC_PRIVATE then (t, Err ENOENT)
          else if n = 0 \<or> n > SEMMSL then (t, Err EINVAL)
          else
            (let (t1, i) = alloc_id t;
               s = \<lparr> ipc_key = key, ipc_mode = flags AND 0x1FF, ipc_uid = uid, ipc_gid = gid,
                     ipc_cuid = uid, ipc_cgid = gid, ipc_ctime = now, ipc_seq = i, ipc_id = i, nsems = n,
                     sem_values = replicate n \<lparr> sem_val = 0, sem_pid = 0, ncnt = 0, zcnt = 0 \<rparr>,
                     sem_otime = 0 \<rparr>
             in (t1\<lparr> sem_sets := btree_insert (sem_sets t1) i s \<rparr>, Ok i)))"

definition semop_perm :: "sem_op list \<Rightarrow> u32" where
  "semop_perm sops = fold (\<lambda>op perm. perm OR (if so_op op = 0 then IPC_R else IPC_W)) sops 0"

fun semop_validate :: "sem_set \<Rightarrow> sem_op list \<Rightarrow> unit result" where
  "semop_validate s [] = Ok ()"
| "semop_validate s (op # sops) =
     (if so_num op \<ge> nsems s then Err EFBIG
      else
        (let cur = uint (sem_val (sem_values s ! so_num op))
         in if so_op op < 0 \<and> cur + so_op op < 0 then Err EAGAIN
            else if so_op op = 0 \<and> cur \<noteq> 0 then Err EAGAIN
            else semop_validate s sops))"

definition semop_apply1 :: "nat \<Rightarrow> sem_op \<Rightarrow> sem_value list \<Rightarrow> sem_value list" where
  "semop_apply1 pid op vs =
     (let v = vs ! so_num op;
        v1 = (if so_op op \<noteq> 0 then v\<lparr> sem_val := sem_val v + of_int (so_op op) \<rparr> else v)
      in vs[so_num op := v1\<lparr> sem_pid := pid \<rparr>])"

definition semop ::
  "int \<Rightarrow> ipc_table \<Rightarrow> int \<Rightarrow> sem_op list \<Rightarrow> nat \<Rightarrow> nat \<Rightarrow> nat \<Rightarrow> ipc_table \<times> unit result" where
  "semop now t semid sops pid uid gid =
     (case map_of (sem_sets t) semid of
        None \<Rightarrow> (t, Err EINVAL)
      | Some s \<Rightarrow>
          (case ipc_check_perm uid gid s (semop_perm sops) of
             Inl e \<Rightarrow> (t, Err e)
           | Inr _ \<Rightarrow>
               (case semop_validate s sops of
                  Inl e \<Rightarrow> (t, Err e)
                | Inr _ \<Rightarrow>
                    (t\<lparr> sem_sets := btree_update (sem_sets t) semid (\<lambda>s.
                         s\<lparr> sem_values := fold (semop_apply1 pid) sops (sem_values s),
                            sem_otime := now \<rparr>) \<rparr>, Ok ()))))"

text \<open>The commands that read one semaphore share their checks.\<close>

definition sem_read ::
  "ipc_table \<Rightarrow> int \<Rightarrow> int \<Rightarrow> nat \<Rightarrow> nat \<Rightarrow> (sem_value \<Rightarrow> int) \<Rightarrow> ipc_table \<times> sem_ctl_result result" where
  "sem_read t semid semnum uid gid f =
     (case map_of (sem_sets t) semid of
        None \<Rightarrow> (t, Err EINVAL)
      | Some s \<Rightarrow>
          (case ipc_check_perm uid gid s IPC_R of
             Inl e \<Rightarrow> (t, Err e)
           | Inr _ \<Rightarrow>
               if semnum < 0 \<or> nat semnum \<ge> nsems s then (t, Err EINVAL)
               else (t, Ok (SemValue (f (sem_values s ! nat semnum))))))"

definition semctl ::
  "int \<Rightarrow> ipc_table \<Rightarrow> int \<Rightarrow> int \<Rightarrow> int \<Rightarrow> int \<Rightarrow> nat \<Rightarrow> nat \<Rightarrow> ipc_table \<times> sem_ctl_result result" where
  "semctl now t semid semnum cmd arg uid gid =
     (if cmd = IPC_STAT
      then (case map_of (sem_sets t) semid of
              None \<Rightarrow> (t, Err EINVAL)
            | Some s \<Rightarrow>
                (case ipc_check_perm uid gid s IPC_R of
                   Inl e \<Rightarrow> (t, Err e)
                 | Inr _ \<Rightarrow>
                     (t, Ok (SemStat \<lparr> ipc_key = ipc_key s, ipc_mode = ipc_mode s,
                        ipc_uid = ipc_uid s, ipc_gid = ipc_gid s, ipc_cuid = ipc_cuid s,
                        ipc_cgid = ipc_cgid s, ipc_ctime = ipc_ctime s, ipc_seq = ipc_seq s,
                        si_nsems = nsems s, si_otime = sem_otime s \<rparr>))))
      else if cmd = IPC_RMID
      then (case map_of (sem_sets t) semid of
              None \<Rightarrow> (t, Err EINVAL)
            | Some s \<Rightarrow>
                (case ipc_check_owner uid s of
                   Inl e \<Rightarrow> (t, Err e)
                 | Inr _ \<Rightarrow> (t\<lparr> sem_sets := btree_remove (sem_sets t) semid \<rparr>, Ok SemOk)))
      else if cmd = IPC_SET
      then (case map_of (sem_sets t) semid of
              None \<Rightarrow> (t, Err EINVAL)
            | Some s \<Rightarrow>
                (case ipc_check_owner uid s of
                   Inl e \<Rightarrow> (t, Err e)
                 | Inr _ \<Rightarrow>
                     (t\<lparr> sem_sets := btree_update (sem_sets t) semid (\<lambda>s. s\<lparr> ipc_ctime := now \<rparr>) \<rparr>,
                      Ok SemOk)))
      else if cmd = GETVAL then sem_read t semid semnum uid gid (\<lambda>v. uint (sem_val v))
      else if cmd = SETVAL
      then (case map_of (sem_sets t) semid of
              None \<Rightarrow> (t, Err EINVAL)
            | Some s \<Rightarrow>
                (case ipc_check_perm uid gid s IPC_W of
                   Inl e \<Rightarrow> (t, Err e)
                 | Inr _ \<Rightarrow>
                     if semnum < 0 \<or> nat semnum \<ge> nsems s then (t, Err EINVAL)
                     else if arg < 0 \<or> arg > 32767 then (t, Err ERANGE)
                     else
                       (t\<lparr> sem_sets := btree_update (sem_sets t) semid (\<lambda>s.
                            s\<lparr> sem_values := (sem_values s)[nat semnum :=
                                 (sem_values s ! nat semnum)\<lparr> sem_val := of_int arg \<rparr>],
                               ipc_ctime := now \<rparr>) \<rparr>, Ok SemOk)))
      else if cmd = GETALL
      then (case map_of (sem_sets t) semid of
              None \<Rightarrow> (t, Err EINVAL)
            | Some s \<Rightarrow>
                (case ipc_check_perm uid gid s IPC_R of
                   Inl e \<Rightarrow> (t, Err e)
                 | Inr _ \<Rightarrow> (t, Ok (SemAll (map sem_val (sem_values s))))))
      else if cmd = SETALL then (t, Err EINVAL)
      else if cmd = GETPID then sem_read t semid semnum uid gid (\<lambda>v. as_i32 (sem_pid v))
      else if cmd = GETNCNT then sem_read t semid semnum uid gid (\<lambda>v. as_i32 (ncnt v))
      else if cmd = GETZCNT then sem_read t semid semnum uid gid (\<lambda>v. as_i32 (zcnt v))
      else (t, Err EINVAL))"

definition semctl_set_all ::
  "int \<Rightarrow> ipc_table \<Rightarrow> int \<Rightarrow> u16 list \<Rightarrow> nat \<Rightarrow> nat \<Rightarrow> ipc_table \<times> unit result" where
  "semctl_set_all now t semid vals uid gid =
     (case map_of (sem_sets t) semid of
        None \<Rightarrow> (t, Err EINVAL)
      | Some s \<Rightarrow>
          (case ipc_check_perm uid gid s IPC_W of
             Inl e \<Rightarrow> (t, Err e)
           | Inr _ \<Rightarrow>
               if length vals \<noteq> nsems s then (t, Err EINVAL)
               else
                 (t\<lparr> sem_sets := btree_update (sem_sets t) semid (\<lambda>s.
                      s\<lparr> sem_values := map2 (\<lambda>v x. v\<lparr> sem_val := x \<rparr>) (sem_values s) vals,
                         ipc_ctime := now \<rparr>) \<rparr>, Ok ())))"

section \<open>Shared memory\<close>

definition shmget :: "int \<Rightarrow> ipc_table \<Rightarrow> int \<Rightarrow> nat \<Rightarrow> u32 \<Rightarrow> nat \<Rightarrow> nat \<Rightarrow> nat \<Rightarrow> ipc_table \<times> int result" where
  "shmget now t key sz flags pid uid gid =
     (case ipc_find_key (shm_segments t) key of
        Some s \<Rightarrow> (t, ipc_open_existing s flags uid gid)
      | None \<Rightarrow>
          if flags AND IPC_CREAT = 0 \<and> key \<noteq> IPC_PRIVATE then (t, Err ENOENT)
          else if sz = 0 then (t, Err EINVAL)
          else
            (let (t1, i) = alloc_id t;
               s = \<lparr> ipc_key = key, ipc_mode = flags AND 0x1FF, ipc_uid = uid, ipc_gid = gid,
                     ipc_cuid = uid, ipc_cgid = gid, ipc_ctime = now, ipc_seq = i, ipc_id = i, segsz = sz,
                     shm_data = replicate sz 0, shm_cpid = as_i32 pid, shm_lpid = 0, nattch = 0,
                     shm_atime = 0, shm_dtime = 0 \<rparr>
             in (t1\<lparr> shm_segments := btree_insert (shm_segments t1) i s \<rparr>, Ok i)))"

definition shmat :: "int \<Rightarrow> ipc_table \<Rightarrow> int \<Rightarrow> nat \<Rightarrow> u32 \<Rightarrow> nat \<Rightarrow> nat \<Rightarrow> ipc_table \<times> nat result" where
  "shmat now t shmid pid flags uid gid =
     (case map_of (shm_segments t) shmid of
        None \<Rightarrow> (t, Err EINVAL)
      | Some s \<Rightarrow>
          (case ipc_check_perm uid gid s (if flags AND SHM_RDONLY \<noteq> 0 then IPC_R else IPC_R OR IPC_W) of
             Inl e \<Rightarrow> (t, Err e)
           | Inr _ \<Rightarrow>
               (t\<lparr> shm_segments := btree_update (shm_segments t) shmid (\<lambda>s.
                    s\<lparr> nattch := (nattch s + 1) mod 2 ^ 32, shm_lpid := as_i32 pid, shm_atime := now \<rparr>) \<rparr>,
                Ok (segsz s))))"

text \<open>A read returns the caller's buffer with the chunk copied to its front.\<close>

definition shm_read_chunk :: "ipc_table \<Rightarrow> int \<Rightarrow> nat \<Rightarrow> u8 list \<Rightarrow> u8 list \<times> nat result" where
  "shm_read_chunk t shmid offset buf =
     (case map_of (shm_segments t) shmid of
        None \<Rightarrow> (buf, Err EINVAL)
      | Some s \<Rightarrow>
          if offset \<ge> length (shm_data s) then (buf, Ok 0)
          else
            (let e = min (offset + length buf) (length (shm_data s)); n = e - offset
             in (take n (drop offset (shm_data s)) @ drop n buf, Ok n)))"

definition shm_write_chunk :: "ipc_table \<Rightarrow> int \<Rightarrow> nat \<Rightarrow> u8 list \<Rightarrow> ipc_table \<times> nat result" where
  "shm_write_chunk t shmid offset data =
     (case map_of (shm_segments t) shmid of
        None \<Rightarrow> (t, Err EINVAL)
      | Some s \<Rightarrow>
          if offset \<ge> length (shm_data s) then (t, Ok 0)
          else
            (let e = min (offset + length data) (length (shm_data s)); n = e - offset
             in (t\<lparr> shm_segments := btree_update (shm_segments t) shmid (\<lambda>s.
                     s\<lparr> shm_data := take offset (shm_data s) @ take n data @ drop e (shm_data s) \<rparr>) \<rparr>,
                 Ok n)))"

definition shmdt :: "int \<Rightarrow> ipc_table \<Rightarrow> int \<Rightarrow> nat \<Rightarrow> ipc_table \<times> unit result" where
  "shmdt now t shmid pid =
     (case map_of (shm_segments t) shmid of
        None \<Rightarrow> (t, Err EINVAL)
      | Some s \<Rightarrow>
          (t\<lparr> shm_segments := btree_update (shm_segments t) shmid (\<lambda>s.
               s\<lparr> nattch := nattch s - 1, shm_lpid := as_i32 pid, shm_dtime := now \<rparr>) \<rparr>, Ok ()))"

definition shmctl ::
  "int \<Rightarrow> ipc_table \<Rightarrow> int \<Rightarrow> int \<Rightarrow> nat \<Rightarrow> nat \<Rightarrow> ipc_table \<times> shm_seg_info option result" where
  "shmctl now t shmid cmd uid gid =
     (if cmd = IPC_STAT
      then (case map_of (shm_segments t) shmid of
              None \<Rightarrow> (t, Err EINVAL)
            | Some s \<Rightarrow>
                (case ipc_check_perm uid gid s IPC_R of
                   Inl e \<Rightarrow> (t, Err e)
                 | Inr _ \<Rightarrow>
                     (t, Ok (Some \<lparr> ipc_key = ipc_key s, ipc_mode = ipc_mode s,
                        ipc_uid = ipc_uid s, ipc_gid = ipc_gid s, ipc_cuid = ipc_cuid s,
                        ipc_cgid = ipc_cgid s, ipc_ctime = ipc_ctime s, ipc_seq = ipc_seq s,
                        hi_segsz = segsz s, hi_cpid = shm_cpid s, hi_lpid = shm_lpid s,
                        hi_nattch = nattch s, hi_atime = shm_atime s, hi_dtime = shm_dtime s \<rparr>))))
      else if cmd = IPC_RMID
      then (case map_of (shm_segments t) shmid of
              None \<Rightarrow> (t, Err EINVAL)
            | Some s \<Rightarrow>
                (case ipc_check_owner uid s of
                   Inl e \<Rightarrow> (t, Err e)
                 | Inr _ \<Rightarrow> (t\<lparr> shm_segments := btree_remove (shm_segments t) shmid \<rparr>, Ok None)))
      else if cmd = IPC_SET
      then (case map_of (shm_segments t) shmid of
              None \<Rightarrow> (t, Err EINVAL)
            | Some s \<Rightarrow>
                (case ipc_check_owner uid s of
                   Inl e \<Rightarrow> (t, Err e)
                 | Inr _ \<Rightarrow>
                     (t\<lparr> shm_segments := btree_update (shm_segments t) shmid (\<lambda>s. s\<lparr> ipc_ctime := now \<rparr>) \<rparr>,
                      Ok None)))
      else (t, Err EINVAL))"

section \<open>Well-formed tables\<close>

text \<open>
  Every table is sorted by identifier, an object is stored under its own identifier, and no two
  objects share a key other than the private one.
\<close>

definition objects_ok :: "('a ipc_object_scheme \<Rightarrow> bool) \<Rightarrow> (int \<times> 'a ipc_object_scheme) list \<Rightarrow> bool" where
  "objects_ok P xs \<longleftrightarrow> keys_sorted xs \<and>
     (\<forall>i q. map_of xs i = Some q \<longrightarrow> ipc_id q = i \<and> 0 \<le> i \<and> i < 2 ^ 31 \<and> P q) \<and>
     (\<forall>i j q r. map_of xs i = Some q \<and> map_of xs j = Some r \<and> ipc_key q = ipc_key r \<and>
        ipc_key q \<noteq> IPC_PRIVATE \<longrightarrow> i = j)"

definition queued_bytes :: "msg_entry list \<Rightarrow> nat" where
  "queued_bytes ms = sum_list (map (\<lambda>m. length (mdata m)) ms)"

definition msg_queue_ok :: "msg_queue \<Rightarrow> bool" where
  "msg_queue_ok q \<longleftrightarrow> queued_bytes (msgs q) \<le> cbytes q \<and> cbytes q \<le> qbytes q \<and> qbytes q = MSGMNB \<and>
     list_all (\<lambda>m. 0 < mtype m \<and> length (mdata m) \<le> MSGMAX) (msgs q)"

definition sem_set_ok :: "sem_set \<Rightarrow> bool" where
  "sem_set_ok s \<longleftrightarrow> length (sem_values s) = nsems s \<and> 0 < nsems s \<and> nsems s \<le> SEMMSL"

definition shm_segment_ok :: "shm_segment \<Rightarrow> bool" where
  "shm_segment_ok s \<longleftrightarrow> length (shm_data s) = segsz s \<and> 0 < segsz s"

definition ipc_ok :: "ipc_table \<Rightarrow> bool" where
  "ipc_ok t \<longleftrightarrow> objects_ok msg_queue_ok (msg_queues t) \<and> objects_ok sem_set_ok (sem_sets t) \<and>
     objects_ok shm_segment_ok (shm_segments t) \<and> 0 \<le> next_id t \<and> next_id t < 2 ^ 31"

lemma ipc_find_key_None:
  assumes "keys_sorted xs" "ipc_find_key xs key = None" "key \<noteq> IPC_PRIVATE" "map_of xs i = Some q"
  shows "ipc_key q \<noteq> key"
  using assms map_of_SomeD [OF assms(4)] by (auto simp: ipc_find_key_def find_None_iff)

lemma objects_okI:
  assumes "keys_sorted xs"
    and "\<And>i q. map_of xs i = Some q \<Longrightarrow> ipc_id q = i \<and> 0 \<le> i \<and> i < 2 ^ 31 \<and> P q"
    and "\<And>i j q r. map_of xs i = Some q \<Longrightarrow> map_of xs j = Some r \<Longrightarrow> ipc_key q = ipc_key r \<Longrightarrow>
      ipc_key q \<noteq> IPC_PRIVATE \<Longrightarrow> i = j"
  shows "objects_ok P xs"
  using assms unfolding objects_ok_def by blast

lemma objects_ok_sorted: "objects_ok P xs \<Longrightarrow> keys_sorted xs"
  by (simp add: objects_ok_def)

lemma objects_ok_id: "objects_ok P xs \<Longrightarrow> map_of xs i = Some q \<Longrightarrow> ipc_id q = i \<and> 0 \<le> i \<and> i < 2 ^ 31 \<and> P q"
  unfolding objects_ok_def by blast

lemma objects_ok_key:
  "objects_ok P xs \<Longrightarrow> map_of xs i = Some q \<Longrightarrow> map_of xs j = Some r \<Longrightarrow> ipc_key q = ipc_key r \<Longrightarrow>
     ipc_key q \<noteq> IPC_PRIVATE \<Longrightarrow> i = j"
  unfolding objects_ok_def by blast

lemma objects_ok_insert:
  assumes ok: "objects_ok P xs" and new: "ipc_find_key xs (ipc_key q) = None"
    and q: "ipc_id q = i" "0 \<le> i" "i < 2 ^ 31" "P q"
  shows "objects_ok P (btree_insert xs i q)"
proof (rule objects_okI)
  note s = objects_ok_sorted [OF ok] and m = map_of_btree_insert [OF objects_ok_sorted [OF ok]]
  show "keys_sorted (btree_insert xs i q)" by (rule btree_insert_sorted [OF s])
  show "ipc_id r = j \<and> 0 \<le> j \<and> j < 2 ^ 31 \<and> P r" if "map_of (btree_insert xs i q) j = Some r" for j r
    using that q objects_ok_id [OF ok, of j r] by (cases "j = i") (auto simp: m)
  show "j = k" if jk: "map_of (btree_insert xs i q) j = Some r" "map_of (btree_insert xs i q) k = Some u"
    "ipc_key r = ipc_key u" "ipc_key r \<noteq> IPC_PRIVATE" for j k r u
  proof (cases "j = i \<or> k = i")
    case True
    then show ?thesis
      using jk ipc_find_key_None [OF s new, of j r] ipc_find_key_None [OF s new, of k u]
      by (cases "j = i"; cases "k = i") (auto simp: m)
  qed (use jk objects_ok_key [OF ok, of j r k u] in \<open>simp add: m\<close>)
qed

lemma objects_ok_remove: "objects_ok P xs \<Longrightarrow> objects_ok P (btree_remove xs i)"
proof (rule objects_okI)
  assume ok: "objects_ok P xs"
  have m: "map_of (btree_remove xs i) j = Some q \<Longrightarrow> map_of xs j = Some q" for j q
    by (simp add: map_of_btree_remove split: if_splits)
  show "keys_sorted (btree_remove xs i)" by (rule btree_remove_sorted [OF objects_ok_sorted [OF ok]])
  show "ipc_id q = j \<and> 0 \<le> j \<and> j < 2 ^ 31 \<and> P q" if "map_of (btree_remove xs i) j = Some q" for j q
    using objects_ok_id [OF ok m [OF that]] .
  show "j = k" if "map_of (btree_remove xs i) j = Some q" "map_of (btree_remove xs i) k = Some r"
    "ipc_key q = ipc_key r" "ipc_key q \<noteq> IPC_PRIVATE" for j k q r
    using objects_ok_key [OF ok m [OF that(1)] m [OF that(2)] that(3,4)] .
qed

lemma objects_ok_update:
  assumes ok: "objects_ok P xs"
    and f: "map_of xs i = Some p" "ipc_id (f p) = ipc_id p" "ipc_key (f p) = ipc_key p" "P (f p)"
  shows "objects_ok P (btree_update xs i f)"
proof (rule objects_okI)
  have m: "\<exists>r. map_of xs j = Some r \<and> ipc_id q = ipc_id r \<and> ipc_key q = ipc_key r \<and> P q"
    if "map_of (btree_update xs i f) j = Some q" for j q
  proof (cases "j = i")
    case True
    then show ?thesis using that f by (auto simp: map_of_btree_update)
  next
    case False
    then have "map_of xs j = Some q" using that by (simp add: map_of_btree_update)
    then show ?thesis using objects_ok_id [OF ok] by blast
  qed
  show "keys_sorted (btree_update xs i f)" using objects_ok_sorted [OF ok] by simp
  show "ipc_id q = j \<and> 0 \<le> j \<and> j < 2 ^ 31 \<and> P q" if "map_of (btree_update xs i f) j = Some q" for j q
    using m [OF that] objects_ok_id [OF ok, of j] by metis
  show "j = k" if jk: "map_of (btree_update xs i f) j = Some q" "map_of (btree_update xs i f) k = Some r"
    "ipc_key q = ipc_key r" "ipc_key q \<noteq> IPC_PRIVATE" for j k q r
    using m [OF jk(1)] m [OF jk(2)] jk(3,4) objects_ok_key [OF ok, of j _ k] by metis
qed

lemma objects_ok_get: "objects_ok P xs \<Longrightarrow> map_of xs i = Some q \<Longrightarrow> P q"
  by (simp add: objects_ok_def)

datatype ipc_op =
    MsgGet int u32 nat nat | MsgSnd int int "u8 list" u32 nat nat nat | MsgRcv int nat int u32 nat nat nat
  | MsgCtl int int nat nat | SemGet int nat u32 nat nat | SemOps int "sem_op list" nat nat nat
  | SemCtl int int int int nat nat | SemSetAll int "u16 list" nat nat
  | ShmGet int nat u32 nat nat nat | ShmAt int nat u32 nat nat | ShmWrite int nat "u8 list"
  | ShmDt int nat | ShmCtl int int nat nat

text \<open>A run is a list of calls, each with the time at which it is made.\<close>

fun ipc_apply :: "int \<times> ipc_op \<Rightarrow> ipc_table \<Rightarrow> ipc_table" where
  "ipc_apply (now, MsgGet key fl uid gid) t = fst (msgget now t key fl uid gid)"
| "ipc_apply (now, MsgSnd q ty data fl pid uid gid) t = fst (msgsnd now t q ty data fl pid uid gid)"
| "ipc_apply (now, MsgRcv q sz ty fl pid uid gid) t = fst (msgrcv now t q sz ty fl pid uid gid)"
| "ipc_apply (now, MsgCtl q cmd uid gid) t = fst (msgctl now t q cmd uid gid)"
| "ipc_apply (now, SemGet key n fl uid gid) t = fst (semget now t key n fl uid gid)"
| "ipc_apply (now, SemOps s ops pid uid gid) t = fst (semop now t s ops pid uid gid)"
| "ipc_apply (now, SemCtl s n cmd arg uid gid) t = fst (semctl now t s n cmd arg uid gid)"
| "ipc_apply (now, SemSetAll s vals uid gid) t = fst (semctl_set_all now t s vals uid gid)"
| "ipc_apply (now, ShmGet key sz fl pid uid gid) t = fst (shmget now t key sz fl pid uid gid)"
| "ipc_apply (now, ShmAt s pid fl uid gid) t = fst (shmat now t s pid fl uid gid)"
| "ipc_apply (now, ShmWrite s off data) t = fst (shm_write_chunk t s off data)"
| "ipc_apply (now, ShmDt s pid) t = fst (shmdt now t s pid)"
| "ipc_apply (now, ShmCtl s cmd uid gid) t = fst (shmctl now t s cmd uid gid)"

definition ipc_run :: "(int \<times> ipc_op) list \<Rightarrow> ipc_table" where
  "ipc_run ops = fold ipc_apply ops ipc_table_new"

subsection \<open>Message queues\<close>

lemma position_Some: "position P xs = Some i \<Longrightarrow> i < length xs \<and> P (xs ! i)"
  by (auto simp: position_def find_upt_Some)

lemma msg_select_Some: "msg_select ms ty ex = Some i \<Longrightarrow> i < length ms"
  by (auto simp: msg_select_def dest: position_Some split: if_splits)

lemma queued_bytes_remove:
  "i < length ms \<Longrightarrow> queued_bytes ms = length (mdata (ms ! i)) + queued_bytes (remove_at i ms)"
  using arg_cong [OF id_take_nth_drop [of i ms], of queued_bytes]
  by (simp add: queued_bytes_def remove_at_def)

lemma msg_queue_ok_receive:
  assumes "msg_queue_ok q" "i < length (msgs q)"
  shows "msg_queue_ok (q\<lparr> msgs := remove_at i (msgs q),
    cbytes := cbytes q - length (take sz (mdata (msgs q ! i))), lrpid := x, msg_rtime := y \<rparr>)"
  using assms queued_bytes_remove [OF assms(2)] set_remove_at_subset [of i "msgs q"]
  by (auto simp: msg_queue_ok_def list_all_iff)

lemma ipc_ok_msg:
  assumes ok: "ipc_ok t"
  shows "ipc_ok (fst (msgget now t key fl uid gid))"
    and "ipc_ok (fst (msgsnd now t q ty data fl pid uid gid))"
    and "ipc_ok (fst (msgrcv now t q sz ty fl pid uid gid))"
    and "ipc_ok (fst (msgctl now t q cmd uid gid))"
proof -
  have m: "objects_ok msg_queue_ok (msg_queues t)" using ok by (simp add: ipc_ok_def)
  note get = objects_ok_get [OF m]
  show "ipc_ok (fst (msgget now t key fl uid gid))"
    using ok by (auto simp: msgget_def alloc_id_def Let_def ipc_ok_def msg_queue_ok_def queued_bytes_def
        intro!: objects_ok_insert split: option.splits)
  show "ipc_ok (fst (msgsnd now t q ty data fl pid uid gid))"
    using ok by (auto simp: msgsnd_def ipc_ok_def intro!: objects_ok_update split: option.splits sum.splits)
      (drule get, simp add: msg_queue_ok_def queued_bytes_def)
  show "ipc_ok (fst (msgrcv now t q sz ty fl pid uid gid))"
    using ok by (auto simp: msgrcv_def ipc_ok_def Let_def simp del: length_take
        intro!: objects_ok_update msg_queue_ok_receive dest: get msg_select_Some split: option.splits sum.splits)
  show "ipc_ok (fst (msgctl now t q cmd uid gid))"
    using ok by (auto simp: msgctl_def ipc_ok_def intro!: objects_ok_update objects_ok_remove
        split: option.splits sum.splits) (drule get, simp add: msg_queue_ok_def)+
qed

subsection \<open>Semaphore sets\<close>

lemma length_semop_apply1 [simp]: "length (semop_apply1 pid op vs) = length vs"
  by (simp add: semop_apply1_def Let_def)

lemma length_semop_fold [simp]: "length (fold (semop_apply1 pid) sops vs) = length vs"
  by (induction sops arbitrary: vs) simp_all

lemma ipc_ok_semctl:
  assumes ok: "ipc_ok t"
  shows "ipc_ok (fst (semctl now t s num cmd arg uid gid))"
proof (cases "cmd \<in> {IPC_RMID, IPC_SET, SETVAL}")
  case True
  have m: "objects_ok sem_set_ok (sem_sets t)" using ok by (simp add: ipc_ok_def)
  note get = objects_ok_get [OF m]
  have tables: "ipc_ok (t\<lparr> sem_sets := xs \<rparr>)" if "objects_ok sem_set_ok xs" for xs
    using that ok by (simp add: ipc_ok_def)
  from True consider "cmd = IPC_RMID" | "cmd = IPC_SET" | "cmd = SETVAL" by blast
  then show ?thesis
  proof cases
    case 1
    then show ?thesis using ok objects_ok_remove [OF m]
      by (auto simp: semctl_def IPC_RMID_def IPC_STAT_def tables split: option.splits sum.splits)
  next
    case 2
    then show ?thesis using ok
      by (auto simp: semctl_def IPC_RMID_def IPC_STAT_def IPC_SET_def tables
          intro!: tables objects_ok_update [OF m] split: option.splits sum.splits)
        (drule get, simp add: sem_set_ok_def)
  next
    case 3
    then show ?thesis using ok
      by (auto simp: semctl_def IPC_RMID_def IPC_STAT_def IPC_SET_def SETVAL_def GETVAL_def
          intro!: tables objects_ok_update [OF m] split: option.splits sum.splits)
        (drule get, simp add: sem_set_ok_def)
  qed
next
  case False
  have read: "fst (sem_read t s num uid gid f) = t" for f
    by (simp add: sem_read_def split: option.splits sum.splits)
  consider "cmd = IPC_STAT" | "cmd = GETALL" | "cmd \<noteq> IPC_STAT" "cmd \<noteq> GETALL" by blast
  then have "fst (semctl now t s num cmd arg uid gid) = t"
  proof cases
    case 1
    then show ?thesis by (simp add: semctl_def split: option.splits sum.splits)
  next
    case 2
    then show ?thesis
      by (simp add: semctl_def GETALL_def IPC_STAT_def IPC_RMID_def IPC_SET_def GETVAL_def SETVAL_def
          split: option.splits sum.splits)
  next
    case 3
    then show ?thesis using False by (simp add: semctl_def read)
  qed
  then show ?thesis using ok by simp
qed

lemma ipc_ok_sem:
  assumes ok: "ipc_ok t"
  shows "ipc_ok (fst (semget now t key n fl uid gid))"
    and "ipc_ok (fst (semop now t s ops pid uid gid))"
    and "ipc_ok (fst (semctl now t s num cmd arg uid gid))"
    and "ipc_ok (fst (semctl_set_all now t s vals uid gid))"
proof -
  have m: "objects_ok sem_set_ok (sem_sets t)" using ok by (simp add: ipc_ok_def)
  note get = objects_ok_get [OF m]
  show "ipc_ok (fst (semget now t key n fl uid gid))"
    using ok by (auto simp: semget_def alloc_id_def Let_def ipc_ok_def sem_set_ok_def
        intro!: objects_ok_insert split: option.splits)
  show "ipc_ok (fst (semop now t s ops pid uid gid))"
    using ok by (auto simp: semop_def ipc_ok_def intro!: objects_ok_update split: option.splits sum.splits)
      (drule get, simp add: sem_set_ok_def)
  show "ipc_ok (fst (semctl now t s num cmd arg uid gid))" by (rule ipc_ok_semctl [OF ok])
  show "ipc_ok (fst (semctl_set_all now t s vals uid gid))"
  proof (cases "map_of (sem_sets t) s")
    case None
    then show ?thesis using ok by (simp add: semctl_set_all_def)
  next
    case (Some x)
    have "objects_ok sem_set_ok (btree_update (sem_sets t) s (\<lambda>s.
        s\<lparr> sem_values := map2 (\<lambda>v x. v\<lparr> sem_val := x \<rparr>) (sem_values s) vals, ipc_ctime := now \<rparr>))"
      if "length vals = nsems x"
      by (rule objects_ok_update [OF m Some]) (use get [OF Some] that in \<open>simp_all add: sem_set_ok_def\<close>)
    then show ?thesis using ok Some by (simp add: semctl_set_all_def ipc_ok_def split: sum.splits)
  qed
qed

subsection \<open>Shared memory segments\<close>

lemma ipc_ok_shm:
  assumes ok: "ipc_ok t"
  shows "ipc_ok (fst (shmget now t key sz fl pid uid gid))"
    and "ipc_ok (fst (shmat now t s pid fl uid gid))"
    and "ipc_ok (fst (shm_write_chunk t s off data))"
    and "ipc_ok (fst (shmdt now t s pid))"
    and "ipc_ok (fst (shmctl now t s cmd uid gid))"
proof -
  have m: "objects_ok shm_segment_ok (shm_segments t)" using ok by (simp add: ipc_ok_def)
  note get = objects_ok_get [OF m]
  show "ipc_ok (fst (shmget now t key sz fl pid uid gid))"
    using ok by (auto simp: shmget_def alloc_id_def Let_def ipc_ok_def shm_segment_ok_def
        intro!: objects_ok_insert split: option.splits)
  show "ipc_ok (fst (shmat now t s pid fl uid gid))"
    using ok by (auto simp: shmat_def ipc_ok_def intro!: objects_ok_update split: option.splits sum.splits)
      (drule get, simp add: shm_segment_ok_def)+
  show "ipc_ok (fst (shm_write_chunk t s off data))"
    using ok by (auto simp: shm_write_chunk_def Let_def ipc_ok_def intro!: objects_ok_update
        split: option.splits) (drule get, auto simp: shm_segment_ok_def)
  show "ipc_ok (fst (shmdt now t s pid))"
    using ok by (auto simp: shmdt_def ipc_ok_def intro!: objects_ok_update split: option.splits)
      (drule get, simp add: shm_segment_ok_def)
  show "ipc_ok (fst (shmctl now t s cmd uid gid))"
    using ok by (auto simp: shmctl_def ipc_ok_def intro!: objects_ok_update objects_ok_remove
        split: option.splits sum.splits) (drule get, simp add: shm_segment_ok_def)+
qed

lemma ipc_ok_run: "ipc_ok (ipc_run ops)"
proof -
  have "ipc_ok t \<Longrightarrow> ipc_ok (ipc_apply op t)" for op t
    by (cases "(op, t)" rule: ipc_apply.cases) (simp_all add: ipc_ok_msg ipc_ok_sem ipc_ok_shm)
  then have "ipc_ok t \<Longrightarrow> ipc_ok (fold ipc_apply ops t)" for t
    by (induction ops arbitrary: t) simp_all
  moreover have "ipc_ok ipc_table_new" by (simp add: ipc_ok_def ipc_table_new_def objects_ok_def)
  ultimately show ?thesis by (simp add: ipc_run_def)
qed

text \<open>C33. Whatever calls are made, and whenever, the three tables stay well-formed: every object is
  stored under its own identifier, which is a non-negative 31-bit number; no two objects of a kind
  share a key other than the private one; a message queue counts at least the bytes it holds and
  never more than its limit, and holds only messages with a positive type and at most \<open>MSGMAX\<close>
  bytes; a semaphore set has as many values as semaphores, between 1 and \<open>SEMMSL\<close>; and a segment
  as many bytes as its size, so no operation indexes out of range.\<close>

theorem sysv_objects_wf: "ipc_ok (ipc_run ops)"
  by (rule ipc_ok_run)

section \<open>Semaphore operations\<close>

text \<open>What a list of operations adds to semaphore \<open>i\<close>.\<close>

definition semop_total :: "nat \<Rightarrow> sem_op list \<Rightarrow> int" where
  "semop_total i sops = sum_list (map so_op (filter (\<lambda>op. so_num op = i) sops))"

lemma semop_fold_nth:
  "i < length vs \<Longrightarrow>
     sem_val (fold (semop_apply1 pid) sops vs ! i) = sem_val (vs ! i) + of_int (semop_total i sops) \<and>
     sem_pid (fold (semop_apply1 pid) sops vs ! i) =
       (if i \<in> so_num ` set sops then pid else sem_pid (vs ! i))"
proof (induction sops arbitrary: vs)
  case (Cons op sops)
  have one: "sem_val (semop_apply1 pid op vs ! i) =
      sem_val (vs ! i) + (if so_num op = i then of_int (so_op op) else 0)"
    "sem_pid (semop_apply1 pid op vs ! i) = (if so_num op = i then pid else sem_pid (vs ! i))"
    using Cons.prems by (auto simp: semop_apply1_def Let_def nth_list_update)
  show ?case
    using Cons.IH [of "semop_apply1 pid op vs"] Cons.prems one by (auto simp: semop_total_def)
qed (simp add: semop_total_def)

lemma semop_validate_Ok:
  "semop_validate s sops = Ok () \<Longrightarrow> op \<in> set sops \<Longrightarrow>
     so_num op < nsems s \<and> 0 \<le> uint (sem_val (sem_values s ! so_num op)) + min (so_op op) 0 \<and>
     (so_op op = 0 \<longrightarrow> sem_val (sem_values s ! so_num op) = 0)"
  by (induction s sops rule: semop_validate.induct)
    (auto simp: Let_def min_def not_less uint_0_iff split: if_splits)

lemma semop_total_distinct:
  "distinct (map so_num sops) \<Longrightarrow> op \<in> set sops \<Longrightarrow> semop_total (so_num op) sops = so_op op"
proof (induction sops)
  case (Cons x sops)
  show ?case
  proof (cases "op = x")
    case True
    then have "filter (\<lambda>y. so_num y = so_num op) sops = []"
      using Cons.prems by (auto simp: filter_empty_conv image_iff)
    then show ?thesis using True by (simp add: semop_total_def)
  next
    case False
    then have "so_num x \<noteq> so_num op" using Cons.prems by auto
    then show ?thesis using Cons False by (simp add: semop_total_def)
  qed
qed simp

lemma uint_add_exact:
  assumes "0 \<le> uint v + x" "uint v + x < 2 ^ 16"
  shows "uint (v + word_of_int x :: u16) = uint v + x"
proof -
  have "v + word_of_int x = word_of_int (uint v + x)" by simp
  then show ?thesis using assms by (simp only: uint_word_of_int_eq) (simp add: take_bit_int_eq_self)
qed

text \<open>C34. semop is all or nothing: if it fails the table is unchanged; if it succeeds then, with the
  set as it was before the call, every named semaphore exists, every decrement was covered and
  every wait-for-zero found zero, each semaphore changes by the sum of its operations modulo
  \<open>2 ^ 16\<close>, exactly the named ones record the caller, and no other set is touched.  When no
  semaphore is named twice, decrements are exact: no value wraps below zero.\<close>

theorem semop_atomic:
  assumes "semop now (ipc_run ops) semid sops pid uid gid = (t', r)"
  shows "case r of
      Inl e \<Rightarrow> t' = ipc_run ops
    | Inr _ \<Rightarrow> \<exists>s vs. map_of (sem_sets (ipc_run ops)) semid = Some s \<and>
        t' = (ipc_run ops)\<lparr> sem_sets := btree_update (sem_sets (ipc_run ops)) semid
               (\<lambda>s. s\<lparr> sem_values := vs, sem_otime := now \<rparr>) \<rparr> \<and>
        length vs = nsems s \<and>
        (\<forall>op \<in> set sops. so_num op < nsems s \<and>
           0 \<le> uint (sem_val (sem_values s ! so_num op)) + min (so_op op) 0 \<and>
           (so_op op = 0 \<longrightarrow> sem_val (sem_values s ! so_num op) = 0)) \<and>
        (\<forall>i < nsems s.
           sem_val (vs ! i) = sem_val (sem_values s ! i) + of_int (semop_total i sops) \<and>
           sem_pid (vs ! i) = (if i \<in> so_num ` set sops then pid else sem_pid (sem_values s ! i))) \<and>
        (distinct (map so_num sops) \<longrightarrow>
           (\<forall>op \<in> set sops. so_op op \<le> 0 \<longrightarrow>
              uint (sem_val (vs ! so_num op)) = uint (sem_val (sem_values s ! so_num op)) + so_op op))"
proof (cases r)
  case (Inl e)
  then show ?thesis using assms by (auto simp: semop_def split: option.splits sum.splits)
next
  case (Inr u)
  let ?t = "ipc_run ops"
  obtain s where s: "map_of (sem_sets ?t) semid = Some s" and v: "semop_validate s sops = Ok ()"
    and t': "t' = ?t\<lparr> sem_sets := btree_update (sem_sets ?t) semid
      (\<lambda>s. s\<lparr> sem_values := fold (semop_apply1 pid) sops (sem_values s), sem_otime := now \<rparr>) \<rparr>"
    using assms Inr by (auto simp: semop_def split: option.splits sum.splits)
  have n: "length (sem_values s) = nsems s"
    using objects_ok_get [OF _ s, of sem_set_ok] ipc_ok_run [of ops] by (simp add: ipc_ok_def sem_set_ok_def)
  define vs where "vs = fold (semop_apply1 pid) sops (sem_values s)"
  have "keys_sorted (sem_sets ?t)" using ipc_ok_run [of ops] by (simp add: ipc_ok_def objects_ok_def)
  then have "btree_update (sem_sets ?t) semid
      (\<lambda>s. s\<lparr> sem_values := fold (semop_apply1 pid) sops (sem_values s), sem_otime := now \<rparr>) =
    btree_update (sem_sets ?t) semid (\<lambda>s. s\<lparr> sem_values := vs, sem_otime := now \<rparr>)"
    using s by (rule btree_update_cong) (simp add: vs_def)
  then have t'': "t' = ?t\<lparr> sem_sets := btree_update (sem_sets ?t) semid
      (\<lambda>s. s\<lparr> sem_values := vs, sem_otime := now \<rparr>) \<rparr>" by (simp add: t')
  have nth: "sem_val (vs ! i) = sem_val (sem_values s ! i) + of_int (semop_total i sops) \<and>
      sem_pid (vs ! i) = (if i \<in> so_num ` set sops then pid else sem_pid (sem_values s ! i))"
    if "i < nsems s" for i
    using semop_fold_nth [of i "sem_values s" pid sops] that n by (simp add: vs_def)
  have exact: "uint (sem_val (vs ! so_num op)) = uint (sem_val (sem_values s ! so_num op)) + so_op op"
    if d: "distinct (map so_num sops)" and op: "op \<in> set sops" and le: "so_op op \<le> 0" for op
  proof -
    let ?v = "sem_val (sem_values s ! so_num op)"
    have lo: "so_num op < nsems s" "0 \<le> uint ?v + so_op op"
      using semop_validate_Ok [OF v op] le by (auto simp: min_def split: if_splits)
    have "uint ?v + so_op op < 2 ^ 16" using le uint_lt2p [of ?v] by simp
    with lo(2) show ?thesis
      using nth [OF lo(1)] semop_total_distinct [OF d op] by (simp add: uint_add_exact)
  qed
  have "length vs = nsems s" using n by (simp add: vs_def)
  then show ?thesis
    unfolding Inr sum.case using s t'' nth exact semop_validate_Ok [OF v] by blast
qed

text \<open>The witness takes one unit each from two semaphores of a set that holds 2 and 1.\<close>

definition sem_demo :: "(int \<times> ipc_op) list" where
  "sem_demo = [(0, SemGet 7 2 0x3FF 0 0), (0, SemCtl 0 0 SETVAL 2 0 0), (0, SemCtl 0 1 SETVAL 1 0 0)]"

definition take_one :: "nat \<Rightarrow> sem_op" where
  "take_one i = \<lparr> so_num = i, so_op = -1, so_flg = 0 \<rparr>"

theorem semop_atomic_witness:
  "snd (semctl 0 (fst (semop 9 (ipc_run sem_demo) 0 [take_one 0, take_one 1] 5 0 0)) 0 0 GETALL 0 0 0) =
     Ok (SemAll [1, 0]) \<and>
   (\<exists>s. \<exists>vs :: sem_value list. map_of (sem_sets (ipc_run sem_demo)) 0 = Some s \<and> length vs = nsems s \<and>
      uint (sem_val (vs ! 0)) = uint (sem_val (sem_values s ! 0)) - 1)"
proof
  show "snd (semctl 0 (fst (semop 9 (ipc_run sem_demo) 0 [take_one 0, take_one 1] 5 0 0)) 0 0 GETALL 0 0 0) =
     Ok (SemAll [1, 0])" by code_simp
  have "snd (semop 9 (ipc_run sem_demo) 0 [take_one 0, take_one 1] 5 0 0) = Ok ()" by code_simp
  then have "semop 9 (ipc_run sem_demo) 0 [take_one 0, take_one 1] 5 0 0 =
      (fst (semop 9 (ipc_run sem_demo) 0 [take_one 0, take_one 1] 5 0 0), Ok ())" by (metis prod.collapse)
  from semop_atomic [OF this] obtain s and vs :: "sem_value list" where
    "map_of (sem_sets (ipc_run sem_demo)) 0 = Some s" "length vs = nsems s" and
    d: "distinct (map so_num [take_one 0, take_one 1]) \<longrightarrow>
      (\<forall>op \<in> set [take_one 0, take_one 1]. so_op op \<le> 0 \<longrightarrow>
         uint (sem_val (vs ! so_num op)) = uint (sem_val (sem_values s ! so_num op)) + so_op op)"
    unfolding sum.case by (elim exE conjE) (rule that; assumption)
  moreover from d have "uint (sem_val (vs ! 0)) = uint (sem_val (sem_values s ! 0)) - 1"
    by (simp add: take_one_def)
  ultimately show "\<exists>s. \<exists>vs :: sem_value list. map_of (sem_sets (ipc_run sem_demo)) 0 = Some s \<and> length vs = nsems s \<and>
      uint (sem_val (vs ! 0)) = uint (sem_val (sem_values s ! 0)) - 1" by blast
qed

text \<open>
  The validation pass looks at the values before the call only: two decrements of one semaphore that
  holds 1 both pass, and the second wraps to 65535.
\<close>

theorem semop_repeated_wraps:
  "snd (semop 0 (ipc_run sem_demo) 0 [take_one 1, take_one 1] 5 0 0) = Ok () \<and>
   snd (semctl 0 (fst (semop 0 (ipc_run sem_demo) 0 [take_one 1, take_one 1] 5 0 0)) 0 1 GETVAL 0 0 0) =
     Ok (SemValue 65535)"
  by (intro conjI; code_simp)

section \<open>Shared memory chunks\<close>

definition shm_byte :: "ipc_table \<Rightarrow> int \<Rightarrow> nat \<Rightarrow> u8 option" where
  "shm_byte t shmid k =
     (case map_of (shm_segments t) shmid of
        None \<Rightarrow> None
      | Some s \<Rightarrow> if k < length (shm_data s) then Some (shm_data s ! k) else None)"

lemma shm_read_chunk_bytes:
  assumes "shm_read_chunk t shmid offset buf = (b, Ok m)"
  shows "length b = length buf" "drop m b = drop m buf"
    "\<forall>k < m. shm_byte t shmid (offset + k) = Some (b ! k)"
    "m < length buf \<Longrightarrow> shm_byte t shmid (offset + m) = None"
proof -
  obtain s where s: "map_of (shm_segments t) shmid = Some s"
    using assms by (auto simp: shm_read_chunk_def split: option.splits)
  define n where "n = min (offset + length buf) (length (shm_data s)) - offset"
  have mb: "m = (if offset \<ge> length (shm_data s) then 0 else n)"
    "b = (if offset \<ge> length (shm_data s) then buf else take n (drop offset (shm_data s)) @ drop n buf)"
    using assms s by (auto simp: shm_read_chunk_def Let_def n_def split: if_splits)
  have n: "n \<le> length buf" "offset < length (shm_data s) \<Longrightarrow> offset + n \<le> length (shm_data s)"
    by (auto simp: n_def)
  show "length b = length buf" "drop m b = drop m buf" using n by (auto simp: mb)
  show "\<forall>k < m. shm_byte t shmid (offset + k) = Some (b ! k)"
    using n s by (auto simp: mb shm_byte_def nth_append)
  show "m < length buf \<Longrightarrow> shm_byte t shmid (offset + m) = None"
    using s by (auto simp: mb shm_byte_def n_def min_def split: if_splits)
qed

text \<open>C35. Writing a chunk and reading it back: a write stores exactly the bytes it reports, clipped to
  the end of the segment, and changes no other byte of any segment; a later read at any offset
  fills the front of the caller's buffer with the stored bytes, leaves the rest of the buffer
  alone, and comes back short only at the end of the segment.\<close>

theorem shm_chunk_roundtrip:
  assumes "shm_write_chunk t shmid offset data = (t', Ok n)"
  shows "n \<le> length data \<and>
    (\<forall>i k. shm_byte t' i k =
       (if i = shmid \<and> offset \<le> k \<and> k < offset + n then Some (data ! (k - offset)) else shm_byte t i k)) \<and>
    (n < length data \<longrightarrow> shm_byte t shmid (offset + n) = None) \<and>
    (\<forall>off buf b m. shm_read_chunk t' shmid off buf = (b, Ok m) \<longrightarrow>
       length b = length buf \<and> drop m b = drop m buf \<and>
       (\<forall>k < m. shm_byte t' shmid (off + k) = Some (b ! k)) \<and>
       (m < length buf \<longrightarrow> shm_byte t' shmid (off + m) = None))"
proof -
  obtain s where s: "map_of (shm_segments t) shmid = Some s"
    using assms by (auto simp: shm_write_chunk_def split: option.splits)
  let ?d = "shm_data s"
  have "n \<le> length data \<and>
    (\<forall>i k. shm_byte t' i k =
       (if i = shmid \<and> offset \<le> k \<and> k < offset + n then Some (data ! (k - offset)) else shm_byte t i k)) \<and>
    (n < length data \<longrightarrow> shm_byte t shmid (offset + n) = None)"
  proof (cases "offset \<ge> length ?d")
    case True
    then show ?thesis using assms s by (auto simp: shm_write_chunk_def shm_byte_def)
  next
    case False
    define e where "e = min (offset + length data) (length ?d)"
    have n: "n = e - offset" and t': "map_of (shm_segments t') =
        (map_of (shm_segments t))(shmid \<mapsto> s\<lparr> shm_data := take offset ?d @ take n data @ drop e ?d \<rparr>)"
      using assms s False by (auto simp: shm_write_chunk_def Let_def map_of_btree_update e_def)
    have e: "offset \<le> e" "e \<le> length ?d" "n \<le> length data" "offset + n = e"
      using False by (auto simp: e_def n)
    have new: "(take offset ?d @ take n data @ drop e ?d) ! k =
        (if offset \<le> k \<and> k < offset + n then data ! (k - offset) else ?d ! k)"
      if "k < length ?d" for k
      using e that by (auto simp: nth_append)
    have "length (take offset ?d @ take n data @ drop e ?d) = length ?d" using e by simp
    then have "shm_byte t' shmid k =
        (if offset \<le> k \<and> k < offset + n then Some (data ! (k - offset)) else shm_byte t shmid k)" for k
      using s e new [of k] by (simp add: shm_byte_def t')
    moreover have "shm_byte t' i k = shm_byte t i k" if "i \<noteq> shmid" for i k
      using that by (simp add: shm_byte_def t')
    moreover have short: "n < length data \<longrightarrow> shm_byte t shmid (offset + n) = None"
      using s False by (auto simp: shm_byte_def n e_def)
    ultimately have "shm_byte t' i k =
        (if i = shmid \<and> offset \<le> k \<and> k < offset + n then Some (data ! (k - offset)) else shm_byte t i k)"
      for i k by (cases "i = shmid") simp_all
    with short e(3) show ?thesis by blast
  qed
  moreover have "length b = length buf \<and> drop m b = drop m buf \<and>
      (\<forall>k < m. shm_byte t' shmid (off + k) = Some (b ! k)) \<and>
      (m < length buf \<longrightarrow> shm_byte t' shmid (off + m) = None)"
    if "shm_read_chunk t' shmid off buf = (b, Ok m)" for off buf b m
    using shm_read_chunk_bytes [OF that] by blast
  ultimately show ?thesis by simp
qed

lemmas shm_eval = ipc_run_def ipc_table_new_def shmget_def ipc_find_key_def alloc_id_def IPC_PRIVATE_def
  IPC_CREAT_def btree_insert_def binary_search_key_def partition_point_def insert_at_def
  shm_write_chunk_def shm_read_chunk_def btree_update_def

theorem shm_chunk_roundtrip_witness:
  "snd (shm_write_chunk (ipc_run [(0, ShmGet 0 4 0 1 0 0)]) 0 2 [5, 6, 7]) = Ok 2 \<and>
   shm_read_chunk (fst (shm_write_chunk (ipc_run [(0, ShmGet 0 4 0 1 0 0)]) 0 2 [5, 6, 7])) 0 1 [9, 9, 9, 9] =
     ([0, 5, 6, 9], Ok 3) \<and>
   shm_byte (fst (shm_write_chunk (ipc_run [(0, ShmGet 0 4 0 1 0 0)]) 0 2 [5, 6, 7])) 0 3 = Some 6"
proof (intro conjI)
  let ?w = "shm_write_chunk (ipc_run [(0, ShmGet 0 4 0 1 0 0)]) 0 2 [5, 6, 7]"
  have z: "replicate 4 (0 :: u8) = [0, 0, 0, 0]" by (simp add: numeral_eq_Suc)
  show w: "snd ?w = Ok 2" by (simp add: shm_eval z)
  show "shm_read_chunk (fst ?w) 0 1 [9, 9, 9, 9] = ([0, 5, 6, 9], Ok 3)" by (simp add: shm_eval z)
  have "?w = (fst ?w, Ok 2)" using w by (metis prod.collapse)
  from shm_chunk_roundtrip [OF this] have "\<forall>i k. shm_byte (fst ?w) i k =
      (if i = 0 \<and> 2 \<le> k \<and> k < 2 + 2 then Some ([5, 6, 7] ! (k - 2))
       else shm_byte (ipc_run [(0, ShmGet 0 4 0 1 0 0)]) i k)" by (elim conjE)
  then show "shm_byte (fst ?w) 0 3 = Some 6" by (simp add: numeral_eq_Suc)
qed

section \<open>Two deviations of message reception\<close>

text \<open>
  A receive with \<open>MSG_NOERROR\<close> subtracts only the bytes it returns, so the bytes it cuts off stay
  accounted to the queue for ever; and a negative type selects the first message at or below the
  bound in queue order, not the one of the lowest type.
\<close>

definition msg_demo :: "(int \<times> ipc_op) list" where
  "msg_demo = [(0, MsgGet 7 0x3FF 0 0), (0, MsgSnd 0 3 [1, 2, 3, 4] 0 5 0 0), (0, MsgSnd 0 1 [9] 0 5 0 0)]"

theorem msgrcv_deviations:
  "snd (msgrcv 0 (ipc_run msg_demo) 0 8 (-3) 0 5 0 0) = Ok \<lparr> mtype = 3, mdata = [1, 2, 3, 4] \<rparr> \<and>
   map_option (\<lambda>q. (cbytes q, msgs q))
     (map_of (msg_queues (ipc_run (msg_demo @ [(0, MsgRcv 0 8 1 0 5 0 0), (0, MsgRcv 0 1 3 MSG_NOERROR 5 0 0)]))) 0) =
     Some (3, [])"
  by (simp add: msg_demo_def ipc_run_def ipc_table_new_def msgget_def msgsnd_def msgrcv_def msg_select_def
      position_def neg_i32_def ipc_find_key_def alloc_id_def IPC_PRIVATE_def IPC_CREAT_def IPC_NOWAIT_def
      MSG_NOERROR_def MSG_EXCEPT_def MSGMAX_def MSGMNB_def IPC_R_def IPC_W_def ipc_check_perm_def
      ipc_has_perm_def btree_insert_def binary_search_key_def partition_point_def insert_at_def
      remove_at_def btree_update_def)

end
