(* ===== verification/Pshared.thy ===== *)
theory Pshared
  imports Kandelo_Prelude Errno "HOL-Library.Multiset"
begin

text \<open>
  Process-shared mutexes, condition variables and barriers kept by the kernel
  (\<^verbatim>\<open>src/crates/kernel/src/pshared.rs\<close>).  A blocking call answers EAGAIN and the host
  makes it again later, so a thread that waits is one that keeps calling; identifiers are 32-bit
  words and process numbers naturals, 0 standing for no owner.  The lemmas show mutual exclusion
  under every interleaving of calls, and that a barrier releases a round exactly when its last
  thread arrives and names one serial thread.
\<close>

unbundle bit_operations_syntax

definition MUTEX_TYPE_RECURSIVE :: u32 where "MUTEX_TYPE_RECURSIVE = 1"
definition MUTEX_TYPE_ERRORCHECK :: u32 where "MUTEX_TYPE_ERRORCHECK = 2"
definition PTHREAD_BARRIER_SERIAL_THREAD :: int where "PTHREAD_BARRIER_SERIAL_THREAD = -1"

record pshared_mutex =
  owner :: nat
  recursive_count :: nat
  mx_type :: u32

record cond_waiter =
  cw_pid :: nat
  cw_mutex :: u32
  signaled :: bool

record barrier_waiter =
  bw_pid :: nat
  is_serial :: bool
  released :: bool

record pshared_barrier =
  b_count :: nat
  b_waiters :: "barrier_waiter list"

record pshared_table =
  mutexes :: "u32 \<rightharpoonup> pshared_mutex"
  conds :: "u32 \<rightharpoonup> cond_waiter list"
  barriers :: "u32 \<rightharpoonup> pshared_barrier"
  ps_next :: u32

definition pshared_new :: pshared_table where
  "pshared_new = \<lparr> mutexes = Map.empty, conds = Map.empty, barriers = Map.empty, ps_next = 1 \<rparr>"

definition ps_alloc_id :: "pshared_table \<Rightarrow> pshared_table \<times> u32" where
  "ps_alloc_id t = (t\<lparr> ps_next := (if ps_next t + 1 = 0 then 1 else ps_next t + 1) \<rparr>, ps_next t)"

section \<open>Mutexes\<close>

definition mutex_init :: "pshared_table \<Rightarrow> u32 \<Rightarrow> pshared_table \<times> u32" where
  "mutex_init t ty =
     (let (t1, i) = ps_alloc_id t
      in (t1\<lparr> mutexes := (mutexes t1)(i \<mapsto> \<lparr> owner = 0, recursive_count = 0, mx_type = ty AND 0xF \<rparr>) \<rparr>, i))"

definition mutex_destroy :: "pshared_table \<Rightarrow> u32 \<Rightarrow> pshared_table \<times> unit result" where
  "mutex_destroy t i =
     (case mutexes t i of
        None \<Rightarrow> (t, Err EINVAL)
      | Some m \<Rightarrow>
          if owner m \<noteq> 0 then (t, Err EBUSY)
          else (t\<lparr> mutexes := (mutexes t)(i := None) \<rparr>, Ok ()))"

definition set_mutex :: "pshared_table \<Rightarrow> u32 \<Rightarrow> pshared_mutex \<Rightarrow> pshared_table" where
  "set_mutex t i m = t\<lparr> mutexes := (mutexes t)(i \<mapsto> m) \<rparr>"

definition mutex_trylock :: "pshared_table \<Rightarrow> u32 \<Rightarrow> nat \<Rightarrow> pshared_table \<times> unit result" where
  "mutex_trylock t i pid =
     (case mutexes t i of
        None \<Rightarrow> (t, Err EINVAL)
      | Some m \<Rightarrow>
          if owner m = 0 then (set_mutex t i (m\<lparr> owner := pid, recursive_count := 0 \<rparr>), Ok ())
          else if owner m = pid
          then (if mx_type m = MUTEX_TYPE_RECURSIVE
                then (set_mutex t i (m\<lparr> recursive_count := saturating_add_to U32_MAX (recursive_count m) 1 \<rparr>), Ok ())
                else if mx_type m = MUTEX_TYPE_ERRORCHECK then (t, Err EDEADLK)
                else (t, Err EBUSY))
          else (t, Err EBUSY))"

definition mutex_lock :: "pshared_table \<Rightarrow> u32 \<Rightarrow> nat \<Rightarrow> pshared_table \<times> unit result" where
  "mutex_lock t i pid =
     (case mutex_trylock t i pid of
        (t', Inr u) \<Rightarrow> (t', Ok u)
      | (t', Inl e) \<Rightarrow> if e = EBUSY then (t', Err EAGAIN) else (t', Err e))"

definition mutex_unlock :: "pshared_table \<Rightarrow> u32 \<Rightarrow> nat \<Rightarrow> pshared_table \<times> unit result" where
  "mutex_unlock t i pid =
     (case mutexes t i of
        None \<Rightarrow> (t, Err EINVAL)
      | Some m \<Rightarrow>
          if owner m \<noteq> pid then (t, Err EPERM)
          else if mx_type m = MUTEX_TYPE_RECURSIVE \<and> recursive_count m > 0
          then (set_mutex t i (m\<lparr> recursive_count := recursive_count m - 1 \<rparr>), Ok ())
          else (set_mutex t i (m\<lparr> owner := 0, recursive_count := 0 \<rparr>), Ok ()))"

section \<open>Condition variables\<close>

definition cond_init :: "pshared_table \<Rightarrow> pshared_table \<times> u32" where
  "cond_init t = (let (t1, i) = ps_alloc_id t in (t1\<lparr> conds := (conds t1)(i \<mapsto> []) \<rparr>, i))"

definition cond_destroy :: "pshared_table \<Rightarrow> u32 \<Rightarrow> pshared_table \<times> unit result" where
  "cond_destroy t i =
     (case conds t i of
        None \<Rightarrow> (t, Err EINVAL)
      | Some ws \<Rightarrow>
          if ws \<noteq> [] then (t, Err EBUSY) else (t\<lparr> conds := (conds t)(i := None) \<rparr>, Ok ()))"

definition cond_wait_begin :: "pshared_table \<Rightarrow> u32 \<Rightarrow> u32 \<Rightarrow> nat \<Rightarrow> pshared_table \<times> unit result" where
  "cond_wait_begin t c i pid =
     (case mutexes t i of
        None \<Rightarrow> (t, Err EINVAL)
      | Some m \<Rightarrow>
          if owner m \<noteq> pid then (t, Err EPERM)
          else
            (let t1 = set_mutex t i (m\<lparr> owner := 0, recursive_count := 0 \<rparr>)
             in (case conds t1 c of
                   None \<Rightarrow> (t1, Err EINVAL)
                 | Some ws \<Rightarrow>
                     if list_ex (\<lambda>w. cw_pid w = pid) ws then (t1, Ok ())
                     else (t1\<lparr> conds := (conds t1)(c \<mapsto>
                             ws @ [\<lparr> cw_pid = pid, cw_mutex = i, signaled = False \<rparr>]) \<rparr>, Ok ()))))"

definition waiter_index :: "('w \<Rightarrow> nat) \<Rightarrow> 'w list \<Rightarrow> nat \<Rightarrow> nat option" where
  "waiter_index pid_of ws pid = List.find (\<lambda>k. pid_of (ws ! k) = pid) [0..<length ws]"

definition cond_wait_check :: "pshared_table \<Rightarrow> u32 \<Rightarrow> u32 \<Rightarrow> nat \<Rightarrow> pshared_table \<times> unit result" where
  "cond_wait_check t c i pid =
     (case conds t c of
        None \<Rightarrow> (t, Err EINVAL)
      | Some ws \<Rightarrow>
          (case waiter_index cw_pid ws pid of
             None \<Rightarrow> (t, Err EINVAL)
           | Some k \<Rightarrow>
               if cw_mutex (ws ! k) \<noteq> i then (t, Err EINVAL)
               else if \<not> signaled (ws ! k) then (t, Err EAGAIN)
               else (case mutexes t i of
                  None \<Rightarrow> (t, Err EINVAL)
                | Some m \<Rightarrow>
                    if owner m \<noteq> 0 \<and> owner m \<noteq> pid then (t, Err EAGAIN)
                    else ((set_mutex t i (m\<lparr> owner := pid, recursive_count := 0 \<rparr>))\<lparr>
                            conds := (conds t)(c \<mapsto> remove_at k ws) \<rparr>, Ok ()))))"

definition cond_wait_abort :: "pshared_table \<Rightarrow> u32 \<Rightarrow> nat \<Rightarrow> pshared_table" where
  "cond_wait_abort t c pid =
     (case conds t c of
        None \<Rightarrow> t
      | Some ws \<Rightarrow> t\<lparr> conds := (conds t)(c \<mapsto> filter (\<lambda>w. cw_pid w \<noteq> pid) ws) \<rparr>)"

fun signal_first :: "cond_waiter list \<Rightarrow> cond_waiter list \<times> nat" where
  "signal_first [] = ([], 0)"
| "signal_first (w # ws) =
     (if \<not> signaled w then (w\<lparr> signaled := True \<rparr> # ws, cw_pid w)
      else (let (ws', p) = signal_first ws in (w # ws', p)))"

definition cond_signal :: "pshared_table \<Rightarrow> u32 \<Rightarrow> pshared_table \<times> nat result" where
  "cond_signal t c =
     (case conds t c of
        None \<Rightarrow> (t, Err EINVAL)
      | Some ws \<Rightarrow>
          (let (ws', p) = signal_first ws in (t\<lparr> conds := (conds t)(c \<mapsto> ws') \<rparr>, Ok p)))"

definition cond_broadcast :: "pshared_table \<Rightarrow> u32 \<Rightarrow> pshared_table \<times> nat result" where
  "cond_broadcast t c =
     (case conds t c of
        None \<Rightarrow> (t, Err EINVAL)
      | Some ws \<Rightarrow>
          (t\<lparr> conds := (conds t)(c \<mapsto> map (\<lambda>w. w\<lparr> signaled := True \<rparr>) ws) \<rparr>,
           Ok (length (filter (\<lambda>w. \<not> signaled w) ws) mod 2 ^ 32)))"

section \<open>Barriers\<close>

definition barrier_init :: "pshared_table \<Rightarrow> nat \<Rightarrow> pshared_table \<times> u32 result" where
  "barrier_init t n =
     (if n = 0 then (t, Err EINVAL)
      else (let (t1, i) = ps_alloc_id t
            in (t1\<lparr> barriers := (barriers t1)(i \<mapsto> \<lparr> b_count = n, b_waiters = [] \<rparr>) \<rparr>, Ok i)))"

definition barrier_destroy :: "pshared_table \<Rightarrow> u32 \<Rightarrow> pshared_table \<times> unit result" where
  "barrier_destroy t i =
     (case barriers t i of
        None \<Rightarrow> (t, Err EINVAL)
      | Some b \<Rightarrow>
          if b_waiters b \<noteq> [] then (t, Err EBUSY)
          else (t\<lparr> barriers := (barriers t)(i := None) \<rparr>, Ok ()))"

text \<open>One barrier's part of \<open>barrier_wait\<close>.\<close>

definition barrier_arrive :: "pshared_barrier \<Rightarrow> nat \<Rightarrow> pshared_barrier \<times> int result" where
  "barrier_arrive b pid =
     (case waiter_index bw_pid (b_waiters b) pid of
        Some k \<Rightarrow>
          if released (b_waiters b ! k)
          then (b\<lparr> b_waiters := remove_at k (b_waiters b) \<rparr>,
                Ok (if is_serial (b_waiters b ! k) then PTHREAD_BARRIER_SERIAL_THREAD else 0))
          else (b, Err EAGAIN)
      | None \<Rightarrow>
          (let ws = b_waiters b @ [\<lparr> bw_pid = pid, is_serial = False, released = False \<rparr>]
           in if length ws mod 2 ^ 32 = b_count b
              then (let ws1 = ws[length ws - 1 := (List.last ws)\<lparr> is_serial := True \<rparr>];
                      ws2 = map (\<lambda>w. w\<lparr> released := True \<rparr>) ws1
                    in (b\<lparr> b_waiters := remove_at (length ws - 1) ws2 \<rparr>, Ok PTHREAD_BARRIER_SERIAL_THREAD))
              else (b\<lparr> b_waiters := ws \<rparr>, Err EAGAIN)))"

definition barrier_wait :: "pshared_table \<Rightarrow> u32 \<Rightarrow> nat \<Rightarrow> pshared_table \<times> int result" where
  "barrier_wait t i pid =
     (case barriers t i of
        None \<Rightarrow> (t, Err EINVAL)
      | Some b \<Rightarrow>
          (let (b', r) = barrier_arrive b pid in (t\<lparr> barriers := (barriers t)(i \<mapsto> b') \<rparr>, r)))"

section \<open>Process exit\<close>

definition ps_cleanup_process :: "pshared_table \<Rightarrow> nat \<Rightarrow> pshared_table" where
  "ps_cleanup_process t pid =
     t\<lparr> mutexes := (\<lambda>i. map_option
          (\<lambda>m. if owner m = pid then m\<lparr> owner := 0, recursive_count := 0 \<rparr> else m) (mutexes t i)),
        conds := (\<lambda>i. map_option (filter (\<lambda>w. cw_pid w \<noteq> pid)) (conds t i)),
        barriers := (\<lambda>i. map_option
          (\<lambda>b. b\<lparr> b_waiters := filter (\<lambda>w. bw_pid w \<noteq> pid) (b_waiters b) \<rparr>) (barriers t i)) \<rparr>"

section \<open>Mutual exclusion\<close>

datatype ps_op =
    MutexInit u32 | MutexDestroy u32 | MutexTrylock u32 nat | MutexLock u32 nat | MutexUnlock u32 nat
  | CondInit | CondDestroy u32 | CondBegin u32 u32 nat | CondCheck u32 u32 nat | CondAbort u32 nat
  | CondSignal u32 | CondBroadcast u32 | BarrierInit nat | BarrierDestroy u32 | BarrierWait u32 nat
  | PsExit nat

fun ps_apply :: "ps_op \<Rightarrow> pshared_table \<Rightarrow> pshared_table" where
  "ps_apply (MutexInit ty) t = fst (mutex_init t ty)"
| "ps_apply (MutexDestroy i) t = fst (mutex_destroy t i)"
| "ps_apply (MutexTrylock i p) t = fst (mutex_trylock t i p)"
| "ps_apply (MutexLock i p) t = fst (mutex_lock t i p)"
| "ps_apply (MutexUnlock i p) t = fst (mutex_unlock t i p)"
| "ps_apply CondInit t = fst (cond_init t)"
| "ps_apply (CondDestroy c) t = fst (cond_destroy t c)"
| "ps_apply (CondBegin c i p) t = fst (cond_wait_begin t c i p)"
| "ps_apply (CondCheck c i p) t = fst (cond_wait_check t c i p)"
| "ps_apply (CondAbort c p) t = cond_wait_abort t c p"
| "ps_apply (CondSignal c) t = fst (cond_signal t c)"
| "ps_apply (CondBroadcast c) t = fst (cond_broadcast t c)"
| "ps_apply (BarrierInit n) t = fst (barrier_init t n)"
| "ps_apply (BarrierDestroy i) t = fst (barrier_destroy t i)"
| "ps_apply (BarrierWait i p) t = fst (barrier_wait t i p)"
| "ps_apply (PsExit p) t = ps_cleanup_process t p"

definition ps_run :: "ps_op list \<Rightarrow> pshared_table" where
  "ps_run ops = fold ps_apply ops pshared_new"

text \<open>The process that makes a call, for the calls made on behalf of one.\<close>

fun ps_actor :: "ps_op \<Rightarrow> nat option" where
  "ps_actor (MutexTrylock i p) = Some p"
| "ps_actor (MutexLock i p) = Some p"
| "ps_actor (MutexUnlock i p) = Some p"
| "ps_actor (CondBegin c i p) = Some p"
| "ps_actor (CondCheck c i p) = Some p"
| "ps_actor (PsExit p) = Some p"
| "ps_actor _ = None"

definition held_by :: "pshared_table \<Rightarrow> u32 \<Rightarrow> nat \<Rightarrow> bool" where
  "held_by t i p \<longleftrightarrow> (case mutexes t i of Some m \<Rightarrow> owner m = p | None \<Rightarrow> False)"

text \<open>Until the 32-bit counter wraps, identifiers in use are below the next one.\<close>

definition ids_below :: "nat \<Rightarrow> pshared_table \<Rightarrow> bool" where
  "ids_below n t \<longleftrightarrow> 1 \<le> unat (ps_next t) \<and> unat (ps_next t) \<le> n + 1 \<and>
     (\<forall>i. i \<in> dom (mutexes t) \<longrightarrow> unat i < unat (ps_next t))"

lemma ids_below_alloc:
  assumes "ids_below n t" "n + 2 < 2 ^ 32"
  shows "unat (ps_next (fst (ps_alloc_id t))) = unat (ps_next t) + 1"
proof -
  have "unat (ps_next t) + 1 < 2 ^ LENGTH(32)" using assms by (simp add: ids_below_def)
  then have "unat (ps_next t + 1) = unat (ps_next t) + 1" by (simp add: unat_add_lem [THEN iffD1])
  moreover from this have "ps_next t + 1 \<noteq> 0" by auto
  ultimately show ?thesis by (simp add: ps_alloc_id_def)
qed

lemma ps_apply_mutexes:
  "ps_next (ps_apply op t) = ps_next t \<or> ps_next (ps_apply op t) = ps_next (fst (ps_alloc_id t))"
  "dom (mutexes (ps_apply op t)) \<subseteq>
     (if ps_next (ps_apply op t) = ps_next t then dom (mutexes t) else insert (ps_next t) (dom (mutexes t))) \<or>
   (\<exists>ty. op = MutexInit ty \<and> dom (mutexes (ps_apply op t)) = insert (ps_next t) (dom (mutexes t)))"
  by (cases op; auto simp: mutex_init_def mutex_destroy_def mutex_trylock_def mutex_lock_def mutex_unlock_def
      cond_init_def cond_destroy_def cond_wait_begin_def cond_wait_check_def cond_wait_abort_def
      cond_signal_def cond_broadcast_def barrier_init_def barrier_destroy_def barrier_wait_def
      ps_cleanup_process_def set_mutex_def ps_alloc_id_def Let_def split: option.splits if_splits prod.splits sum.splits)+

lemma ids_below_apply:
  assumes ids: "ids_below n t" and n: "n + 2 < 2 ^ 32"
  shows "ids_below (n + 1) (ps_apply op t)"
proof -
  note a = ids_below_alloc [OF ids n]
  consider "ps_next (ps_apply op t) = ps_next t" "dom (mutexes (ps_apply op t)) \<subseteq> dom (mutexes t)"
    | "ps_next (ps_apply op t) = ps_next (fst (ps_alloc_id t))"
      "dom (mutexes (ps_apply op t)) \<subseteq> insert (ps_next t) (dom (mutexes t))"
  proof (cases "\<exists>ty. op = MutexInit ty")
    case True
    then have "ps_next (ps_apply op t) = ps_next (fst (ps_alloc_id t))"
      by (auto simp: mutex_init_def ps_alloc_id_def)
    with ps_apply_mutexes(2) [of op t] show thesis by (intro that(2)) (auto split: if_splits)
  next
    case False
    with ps_apply_mutexes [of op t] show thesis using that by (auto split: if_splits)
  qed
  then show ?thesis
  proof cases
    case 1
    then show ?thesis using ids by (auto simp: ids_below_def)
  next
    case 2
    have "unat i < unat (ps_next t) + 1" if "i \<in> dom (mutexes (ps_apply op t))" for i
    proof (cases "i = ps_next t")
      case False
      then have "i \<in> dom (mutexes t)" using 2(2) that by blast
      then have "unat i < unat (ps_next t)" using ids unfolding ids_below_def by blast
      then show ?thesis by simp
    qed simp
    then show ?thesis using ids 2(1) a by (simp add: ids_below_def)
  qed
qed

lemma ids_below_run:
  "ids_below n t \<Longrightarrow> n + length ops + 1 < 2 ^ 32 \<Longrightarrow> ids_below (n + length ops) (fold ps_apply ops t)"
proof (induction ops arbitrary: n t)
  case (Cons op ops)
  then show ?case using Cons.IH [OF ids_below_apply [of n t op]] by simp
qed simp

lemma ids_below_new: "ids_below 0 pshared_new"
  by (simp add: ids_below_def pshared_new_def)

lemma held_by_apply:
  assumes "held_by t i p" "p \<noteq> 0" "ps_actor op \<noteq> Some p" "i \<noteq> ps_next t"
  shows "held_by (ps_apply op t) i p"
  using assms
  by (cases op; auto simp: held_by_def mutex_init_def mutex_destroy_def mutex_trylock_def mutex_lock_def mutex_unlock_def
      cond_init_def cond_destroy_def cond_wait_begin_def cond_wait_check_def cond_wait_abort_def
      cond_signal_def cond_broadcast_def barrier_init_def barrier_destroy_def barrier_wait_def
      ps_cleanup_process_def set_mutex_def ps_alloc_id_def Let_def split: option.splits if_splits prod.splits sum.splits)

lemma held_by_run:
  assumes "held_by t i p" "p \<noteq> 0" "list_all (\<lambda>op. ps_actor op \<noteq> Some p) ops" "ids_below n t"
    "n + length ops + 1 < 2 ^ 32"
  shows "held_by (fold ps_apply ops t) i p"
  using assms
proof (induction ops arbitrary: t n)
  case (Cons op ops)
  have "i \<in> dom (mutexes t)" using Cons.prems(1) by (auto simp: held_by_def split: option.splits)
  then have "unat i < unat (ps_next t)" using Cons.prems(4) by (simp add: ids_below_def)
  then have "held_by (ps_apply op t) i p" using Cons.prems held_by_apply by auto
  then show ?case using Cons.IH [of _ "n + 1"] Cons.prems ids_below_apply [of n t op] by simp
qed simp

lemma held_by_lock:
  "mutex_lock t i p = (t', Ok ()) \<Longrightarrow> held_by t' i p"
  by (auto simp: mutex_lock_def mutex_trylock_def held_by_def set_mutex_def
      split: option.splits if_splits prod.splits sum.splits)

lemma held_by_excludes:
  assumes "held_by t i p" "p \<noteq> 0" "q \<noteq> p"
  shows "mutex_lock t i q = (t, Err EAGAIN)" "mutex_trylock t i q = (t, Err EBUSY)"
    "mutex_unlock t i q = (t, Err EPERM)" "mutex_destroy t i = (t, Err EBUSY)"
    "snd (cond_wait_check t c i q) \<noteq> Ok ()"
  using assms
  by (auto simp: held_by_def mutex_lock_def mutex_trylock_def mutex_unlock_def mutex_destroy_def
      cond_wait_check_def split: option.splits if_splits)

text \<open>C36. Mutual exclusion: after a process has locked a mutex, and while it makes no mutex or
  condition call and does not exit, no sequence of calls of other processes, in any interleaving,
  lets another process lock, unlock or destroy that mutex, or come back from a condition wait
  holding it; they are told to retry.  (The bound on the number of calls keeps the 32-bit
  identifiers from wrapping.)\<close>

theorem mutex_exclusion:
  assumes "mutex_lock (ps_run before) i p = (t, Ok ())" and "p \<noteq> 0" and "q \<noteq> p"
    and "list_all (\<lambda>op. ps_actor op \<noteq> Some p) during"
    and "length before + length during + 2 < 2 ^ 32"
  shows "mutex_lock (fold ps_apply during t) i q = (fold ps_apply during t, Err EAGAIN) \<and>
    mutex_trylock (fold ps_apply during t) i q = (fold ps_apply during t, Err EBUSY) \<and>
    mutex_unlock (fold ps_apply during t) i q = (fold ps_apply during t, Err EPERM) \<and>
    mutex_destroy (fold ps_apply during t) i = (fold ps_apply during t, Err EBUSY) \<and>
    snd (cond_wait_check (fold ps_apply during t) c i q) \<noteq> Ok ()"
proof -
  have t: "t = fold ps_apply (before @ [MutexLock i p]) pshared_new"
    using assms(1) by (simp add: ps_run_def)
  have "ids_below (length (before @ [MutexLock i p])) t"
    using ids_below_run [OF ids_below_new, of "before @ [MutexLock i p]"] assms(5) t by simp
  from held_by_run [OF held_by_lock [OF assms(1)] assms(2,4) this] assms(5)
  have "held_by (fold ps_apply during t) i p" by simp
  from held_by_excludes [OF this assms(2,3)] show ?thesis by blast
qed

theorem mutex_exclusion_witness:
  "mutex_lock (fold ps_apply [MutexUnlock 1 8, CondInit] (fst (mutex_lock (ps_run [MutexInit 0]) 1 7))) 1 8 =
     (fold ps_apply [MutexUnlock 1 8, CondInit] (fst (mutex_lock (ps_run [MutexInit 0]) 1 7)), Err EAGAIN)"
proof -
  have "snd (mutex_lock (ps_run [MutexInit 0]) 1 7) = Ok ()"
    by (simp add: ps_run_def pshared_new_def mutex_init_def ps_alloc_id_def mutex_lock_def mutex_trylock_def)
  then have "mutex_lock (ps_run [MutexInit 0]) 1 7 = (fst (mutex_lock (ps_run [MutexInit 0]) 1 7), Ok ())"
    by (metis prod.collapse)
  from mutex_exclusion [OF this, of 8 "[MutexUnlock 1 8, CondInit]"] show ?thesis by simp
qed

section \<open>A barrier round\<close>

fun barrier_calls :: "pshared_table \<Rightarrow> u32 \<Rightarrow> nat list \<Rightarrow> pshared_table \<times> int result list" where
  "barrier_calls t i [] = (t, [])"
| "barrier_calls t i (p # ps) =
     (let (t1, r) = barrier_wait t i p; (t2, rs) = barrier_calls t1 i ps in (t2, r # rs))"

abbreviation waiting :: "nat \<Rightarrow> barrier_waiter" where
  "waiting p \<equiv> \<lparr> bw_pid = p, is_serial = False, released = False \<rparr>"

abbreviation let_go :: "nat \<Rightarrow> barrier_waiter" where
  "let_go p \<equiv> \<lparr> bw_pid = p, is_serial = False, released = True \<rparr>"

lemma waiter_index_None: "waiter_index f ws p = None \<longleftrightarrow> p \<notin> f ` set ws"
  by (force simp: waiter_index_def find_upt_None in_set_conv_nth image_iff)

lemma waiter_index_Some: "waiter_index f ws p = Some k \<Longrightarrow> k < length ws \<and> f (ws ! k) = p"
  by (auto simp: waiter_index_def find_upt_Some)

lemma barrier_arrive_early:
  assumes "p \<notin> set ps" "length ps + 1 < n" "n < 2 ^ 32"
  shows "barrier_arrive \<lparr> b_count = n, b_waiters = map waiting ps \<rparr> p =
    (\<lparr> b_count = n, b_waiters = map waiting (ps @ [p]) \<rparr>, Err EAGAIN)"
proof -
  have "waiter_index bw_pid (map waiting ps) p = None" using assms(1) by (auto simp: waiter_index_None)
  then show ?thesis using assms by (simp add: barrier_arrive_def Let_def)
qed

lemma barrier_arrive_last:
  assumes "p \<notin> set ps" "length ps + 1 = n" "n < 2 ^ 32"
  shows "barrier_arrive \<lparr> b_count = n, b_waiters = map waiting ps \<rparr> p =
    (\<lparr> b_count = n, b_waiters = map let_go ps \<rparr>, Ok PTHREAD_BARRIER_SERIAL_THREAD)"
proof -
  have "waiter_index bw_pid (map waiting ps) p = None" using assms(1) by (auto simp: waiter_index_None)
  then show ?thesis
    using assms by (auto simp: barrier_arrive_def Let_def remove_at_def list_update_append o_def)
qed

lemma barrier_arrive_waiting:
  assumes "p \<in> set ps"
  shows "barrier_arrive \<lparr> b_count = n, b_waiters = map waiting ps \<rparr> p =
    (\<lparr> b_count = n, b_waiters = map waiting ps \<rparr>, Err EAGAIN)"
proof -
  have "waiter_index bw_pid (map waiting ps) p \<noteq> None" using assms by (auto simp: waiter_index_None image_iff)
  then obtain k where k: "waiter_index bw_pid (map waiting ps) p = Some k" by blast
  then show ?thesis using waiter_index_Some [OF k] by (simp add: barrier_arrive_def)
qed

lemma barrier_arrive_released:
  assumes "p \<in> set ps" "distinct ps"
  shows "barrier_arrive \<lparr> b_count = n, b_waiters = map let_go ps \<rparr> p =
    (\<lparr> b_count = n, b_waiters = map let_go (remove1 p ps) \<rparr>, Ok 0)"
proof -
  have "waiter_index bw_pid (map let_go ps) p \<noteq> None" using assms by (auto simp: waiter_index_None image_iff)
  then obtain k where k: "waiter_index bw_pid (map let_go ps) p = Some k" by blast
  from waiter_index_Some [OF k] have kp: "k < length ps" "ps ! k = p" by auto
  have "take k ps @ drop (Suc k) ps = remove1 p ps"
  proof -
    have "ps = take k ps @ p # drop (Suc k) ps" using id_take_nth_drop [OF kp(1)] kp(2) by simp
    moreover from this assms(2) have "p \<notin> set (take k ps)"
      by (metis disjoint_iff distinct_append list.set_intros(1))
    ultimately show ?thesis by (metis remove1.simps(2) remove1_append)
  qed
  then show ?thesis
    using k kp by (simp add: barrier_arrive_def remove_at_def take_map drop_map flip: map_append)
qed

text \<open>The callers in the order of their first call.\<close>

fun first_calls :: "nat list \<Rightarrow> nat list \<Rightarrow> nat list" where
  "first_calls ps [] = ps"
| "first_calls ps (q # qs) = first_calls (if q \<in> set ps then ps else ps @ [q]) qs"

lemma first_calls_set: "set (first_calls ps qs) = set ps \<union> set qs"
  by (induction qs arbitrary: ps) auto

lemma first_calls_distinct: "distinct ps \<Longrightarrow> distinct (first_calls ps qs)"
  by (induction qs arbitrary: ps) auto

lemma barrier_calls_gather:
  assumes "barriers t i = Some \<lparr> b_count = n, b_waiters = map waiting ps \<rparr>" "distinct ps"
    "card (set ps \<union> set qs) < n" "n < 2 ^ 32"
  shows "barrier_calls t i qs =
    (t\<lparr> barriers := (barriers t)(i \<mapsto> \<lparr> b_count = n, b_waiters = map waiting (first_calls ps qs) \<rparr>) \<rparr>,
     replicate (length qs) (Err EAGAIN))"
  using assms
proof (induction qs arbitrary: t ps)
  case Nil
  then have "(barriers t)(i \<mapsto> \<lparr> b_count = n, b_waiters = map waiting ps \<rparr>) = barriers t"
    by (simp add: fun_upd_idem_iff)
  then show ?case by simp
next
  case (Cons q qs)
  let ?ps = "if q \<in> set ps then ps else ps @ [q]"
  let ?t = "t\<lparr> barriers := (barriers t)(i \<mapsto> \<lparr> b_count = n, b_waiters = map waiting ?ps \<rparr>) \<rparr>"
  have room: "length ps + 1 < n" if "q \<notin> set ps"
  proof -
    have "card (set (ps @ [q])) \<le> card (set ps \<union> set (q # qs))" by (rule card_mono) auto
    moreover have "card (set (ps @ [q])) = length (ps @ [q])"
      by (rule distinct_card) (use Cons.prems(2) that in simp)
    ultimately show ?thesis using Cons.prems(3) by simp
  qed
  have "barrier_wait t i q = (?t, Err EAGAIN)"
    using Cons.prems(1,4) barrier_arrive_early [of q ps n] barrier_arrive_waiting [of q ps n] room
    by (simp add: barrier_wait_def)
  moreover have "set ?ps \<union> set qs = set ps \<union> set (q # qs)" by auto
  ultimately show ?case using Cons.IH [of ?t ?ps] Cons.prems by (simp cong: if_cong)
qed

lemma barrier_calls_append:
  "barrier_calls t i (ps @ qs) =
    (let (t1, rs) = barrier_calls t i ps; (t2, rs') = barrier_calls t1 i qs in (t2, rs @ rs'))"
  by (induction ps arbitrary: t) (auto simp: Let_def split: prod.splits)

lemma barrier_calls_drain:
  assumes "barriers t i = Some \<lparr> b_count = n, b_waiters = map let_go ps \<rparr>" "distinct ps"
    "mset qs = mset ps"
  shows "barrier_calls t i qs =
    (t\<lparr> barriers := (barriers t)(i \<mapsto> \<lparr> b_count = n, b_waiters = [] \<rparr>) \<rparr>, replicate (length qs) (Ok 0))"
  using assms
proof (induction qs arbitrary: t ps)
  case Nil
  then have "(barriers t)(i \<mapsto> \<lparr> b_count = n, b_waiters = [] \<rparr>) = barriers t"
    by (simp add: fun_upd_idem_iff)
  then show ?case by simp
next
  case (Cons q qs)
  let ?t = "t\<lparr> barriers := (barriers t)(i \<mapsto> \<lparr> b_count = n, b_waiters = map let_go (remove1 q ps) \<rparr>) \<rparr>"
  have q: "q \<in> set ps" using Cons.prems(3) by (metis list.set_intros(1) mset_eq_setD)
  have "barrier_wait t i q = (?t, Ok 0)"
    using Cons.prems(1) barrier_arrive_released [OF q Cons.prems(2)] by (simp add: barrier_wait_def)
  moreover have "mset qs = mset (remove1 q ps)" using Cons.prems(3) by (metis mset.simps(2) mset_remove1 add_mset_remove_trivial)
  ultimately show ?case using Cons.IH [of ?t "remove1 q ps"] Cons.prems(2) by (simp cong: if_cong)
qed

text \<open>C37. A round of an idle barrier of \<open>n\<close> threads, with arrivals and retries in any interleaving:
  until \<open>n\<close> different threads have called, every call (a first arrival or a retry) is told to try again,
  and the threads waiting are exactly those that called, in the order of their first calls; the call of
  the \<open>n\<close>th thread returns at once as the serial thread; after that each of the others, in whatever order
  they retry, returns 0, and the table is as it was before the round.\<close>

theorem barrier_round:
  assumes "barriers t i = Some \<lparr> b_count = n, b_waiters = [] \<rparr>" and "card (set cs) + 1 = n" and "n < 2 ^ 32"
    and "l \<notin> set cs" and "distinct qs" "set qs = set cs"
  shows "barriers (fst (barrier_calls t i cs)) i =
      Some \<lparr> b_count = n, b_waiters = map waiting (first_calls [] cs) \<rparr> \<and>
    barrier_calls t i (cs @ [l] @ qs) =
      (t, replicate (length cs) (Err EAGAIN) @ [Ok PTHREAD_BARRIER_SERIAL_THREAD] @ replicate (n - 1) (Ok 0))"
proof -
  let ?ps = "first_calls [] cs"
  define t1 where "t1 = t\<lparr> barriers := (barriers t)(i \<mapsto> \<lparr> b_count = n, b_waiters = map waiting ?ps \<rparr>) \<rparr>"
  define t2 where "t2 = t\<lparr> barriers := (barriers t)(i \<mapsto> \<lparr> b_count = n, b_waiters = map let_go ?ps \<rparr>) \<rparr>"
  have ps: "distinct ?ps" "set ?ps = set cs" using first_calls_distinct [of "[]"] first_calls_set [of "[]" cs] by simp_all
  have g: "barrier_calls t i cs = (t1, replicate (length cs) (Err EAGAIN))"
    using barrier_calls_gather [of t i n "[]" cs] assms(1-3) by (simp add: t1_def)
  have len: "length ?ps + 1 = n" using distinct_card [OF ps(1)] ps(2) assms(2) by simp
  then have s: "barrier_wait t1 i l = (t2, Ok PTHREAD_BARRIER_SERIAL_THREAD)"
    using barrier_arrive_last [of l ?ps n] ps(2) assms(3,4) by (simp add: barrier_wait_def t1_def t2_def)
  have m: "mset qs = mset ?ps" using ps assms(5,6) set_eq_iff_mset_eq_distinct by metis
  then have "length qs = n - 1" using len by (metis size_mset add_diff_cancel_right')
  moreover have "(barriers t)(i \<mapsto> \<lparr> b_count = n, b_waiters = [] \<rparr>) = barriers t"
    using assms(1) by (simp add: fun_upd_idem_iff)
  ultimately have "barrier_calls t2 i qs = (t, replicate (n - 1) (Ok 0))"
    using barrier_calls_drain [of t2 i n ?ps qs] ps(1) m by (simp add: t2_def)
  then show ?thesis using g s by (simp add: barrier_calls_append) (simp add: t1_def)
qed

text \<open>Three threads, the first of which tries three times before the third arrives.\<close>

theorem barrier_round_witness:
  "snd (barrier_calls (fst (barrier_init pshared_new 3)) 1 [5, 5, 6, 5, 7, 6, 5]) =
     [Err EAGAIN, Err EAGAIN, Err EAGAIN, Err EAGAIN, Ok PTHREAD_BARRIER_SERIAL_THREAD, Ok 0, Ok 0]"
proof -
  have "barriers (fst (barrier_init pshared_new 3)) 1 = Some \<lparr> b_count = 3, b_waiters = [] \<rparr>"
    by (simp add: barrier_init_def pshared_new_def ps_alloc_id_def)
  from barrier_round [OF this, of "[5, 5, 6, 5]" 7 "[6, 5]", THEN conjunct2] show ?thesis
    by (simp add: insert_commute numeral_3_eq_3)
qed

section \<open>Two defects\<close>

text \<open>
  A thread that comes back for the next round before the others have collected their release is
  counted together with them: with two threads, 6 completes a second round that 5 never joined.
  And a condition wait on an unknown condition variable reports EINVAL after it has released the
  caller's mutex.
\<close>

theorem barrier_counts_released:
  "snd (barrier_calls (fst (barrier_init pshared_new 2)) 1 [5, 6, 6]) =
     [Err EAGAIN, Ok PTHREAD_BARRIER_SERIAL_THREAD, Ok PTHREAD_BARRIER_SERIAL_THREAD]"
  by (simp add: barrier_init_def pshared_new_def ps_alloc_id_def barrier_wait_def barrier_arrive_def
      waiter_index_def remove_at_def Let_def)

theorem cond_wait_bad_cond_unlocks:
  assumes "held_by t i p" and "conds t c = None"
  shows "snd (cond_wait_begin t c i p) = Err EINVAL \<and> held_by (fst (cond_wait_begin t c i p)) i 0"
  using assms by (auto simp: held_by_def cond_wait_begin_def set_mutex_def Let_def split: option.splits)

end
