(* ===== verification/Path.thy ===== *)
theory Path
  imports Kandelo_Prelude
begin

text \<open>
  Lexical pathname functions (\<^verbatim>\<open>src/crates/kernel/src/path.rs\<close>).  A path is its byte
  string; \<open>components\<close> is the code's split at the separator.
\<close>

abbreviation slash :: u8 where "slash \<equiv> 0x2F"
abbreviation dot :: u8 where "dot \<equiv> 0x2E"

section \<open>Definitions\<close>

definition make_absolute :: "u8 list \<Rightarrow> u8 list \<Rightarrow> u8 list" where
  "make_absolute path cwd =
     (if path = [] then []
      else if hd path = slash then path
      else
        (let absolute = (if cwd = [] \<or> List.last cwd \<noteq> slash then cwd @ [slash] else cwd)
         in absolute @ path))"

fun split_path :: "u8 list \<Rightarrow> u8 list list" where
  "split_path [] = [[]]"
| "split_path (b # bs) =
     (if b = slash then [] # split_path bs
      else (case split_path bs of c # cs \<Rightarrow> (b # c) # cs | [] \<Rightarrow> [[b]]))"

definition push_component :: "u8 list list \<Rightarrow> u8 list \<Rightarrow> u8 list list" where
  "push_component cs c =
     (if c = [] \<or> c = [dot] then cs
      else if c = [dot, dot] then butlast cs
      else cs @ [c])"

definition join_path :: "u8 list list \<Rightarrow> u8 list" where
  "join_path cs = concat (map (\<lambda>c. slash # c) cs)"

definition normalize_path :: "u8 list \<Rightarrow> u8 list" where
  "normalize_path path =
     (let cs = foldl push_component [] (split_path path)
      in if cs = [] then [slash] else join_path cs)"

definition resolve_path :: "u8 list \<Rightarrow> u8 list \<Rightarrow> u8 list" where
  "resolve_path path cwd =
     (if path \<noteq> [] \<and> hd path = slash then normalize_path path
      else
        (let resolved = (if cwd = [] \<or> List.last cwd \<noteq> slash then cwd @ [slash] else cwd)
         in normalize_path (resolved @ path)))"

section \<open>Splitting and joining\<close>

lemma split_path_not_Nil [simp]: "split_path bs \<noteq> []"
  by (cases bs) (auto split: list.splits)

lemma split_path_slash: "split_path (x @ slash # y) = split_path x @ split_path y"
proof (induction x)
  case (Cons b x)
  then show ?case by (cases "split_path x") (auto split: list.splits)
qed simp

lemma split_path_append: "slash \<notin> set c \<Longrightarrow> split_path (c @ slash # bs) = c # split_path bs"
  by (induction c) auto

lemma split_path_no_slash: "slash \<notin> set c \<Longrightarrow> split_path c = [c]"
  by (induction c) auto

lemma split_path_parts: "c \<in> set (split_path bs) \<Longrightarrow> slash \<notin> set c"
  by (induction bs arbitrary: c rule: split_path.induct) (auto split: list.splits if_splits)

definition plain :: "u8 list \<Rightarrow> bool" where
  "plain c \<longleftrightarrow> c \<noteq> [] \<and> c \<noteq> [dot] \<and> c \<noteq> [dot, dot] \<and> slash \<notin> set c"

lemma split_join: "list_all plain cs \<Longrightarrow> cs \<noteq> [] \<Longrightarrow> split_path (join_path cs) = [] # cs"
proof (induction cs)
  case (Cons c cs)
  then show ?case
    using split_path_append [of c] split_path_no_slash [of c]
    by (cases cs) (auto simp: join_path_def plain_def)
qed simp

lemma push_plain: "list_all plain cs \<Longrightarrow> slash \<notin> set c \<Longrightarrow> list_all plain (push_component cs c)"
  by (auto simp: push_component_def plain_def list_all_iff dest: in_set_butlastD)

lemma foldl_push_plain:
  "list_all plain cs \<Longrightarrow> (\<And>c. c \<in> set ds \<Longrightarrow> slash \<notin> set c) \<Longrightarrow> list_all plain (foldl push_component cs ds)"
  by (induction ds arbitrary: cs) (auto simp: push_plain)

lemma foldl_push_ident: "list_all plain ds \<Longrightarrow> foldl push_component cs ds = cs @ ds"
  by (induction ds arbitrary: cs) (auto simp: push_component_def plain_def)

section \<open>The canonical form\<close>

text \<open>
  The components a path leads through, found from its end: a \<open>..\<close> cancels the nearest component
  to its left that nothing else cancels, and what is left over at the root is ignored.  This is the
  reference the stack of the code is compared with.
\<close>

fun survive :: "nat \<Rightarrow> u8 list list \<Rightarrow> u8 list list" where
  "survive n [] = []"
| "survive n (c # cs) =
     (if c = [] \<or> c = [dot] then survive n cs
      else if c = [dot, dot] then survive (n + 1) cs
      else if n > 0 then survive (n - 1) cs
      else c # survive 0 cs)"

definition leads_through :: "u8 list \<Rightarrow> u8 list list" where
  "leads_through p = rev (survive 0 (rev (split_path p)))"

lemma survive_stack: "survive n (rev cs) = drop n (rev (foldl push_component [] cs))"
proof (induction cs arbitrary: n rule: rev_induct)
  case (snoc c cs)
  have pop: "rev (butlast xs) = drop 1 (rev xs)" for xs :: "u8 list list"
    by (cases xs rule: rev_cases) simp_all
  define st where "st = foldl push_component [] cs"
  show ?case using snoc.IH by (cases n) (simp_all add: st_def [symmetric] push_component_def pop)
qed simp

lemma leads_through_stack: "leads_through p = foldl push_component [] (split_path p)"
  by (simp add: leads_through_def survive_stack)

lemma normalize_path_eq:
  "normalize_path p = (if leads_through p = [] then [slash] else join_path (leads_through p))"
  by (simp add: normalize_path_def Let_def leads_through_stack)

lemma leads_through_plain: "list_all plain (leads_through p)"
  unfolding leads_through_stack by (rule foldl_push_plain) (simp_all add: split_path_parts)

lemma leads_through_normalize: "leads_through (normalize_path p) = leads_through p"
proof (cases "leads_through p = []")
  case True
  then show ?thesis by (simp add: normalize_path_eq leads_through_def)
next
  case False
  then have "split_path (normalize_path p) = [] # leads_through p"
    using leads_through_plain [of p] by (simp add: normalize_path_eq split_join)
  then show ?thesis
    using leads_through_plain [of p]
    by (simp add: leads_through_stack [of "normalize_path p"] foldl_push_ident push_component_def)
qed

lemma leads_through_slash_dot: "leads_through (x @ [slash, dot]) = leads_through (x @ [slash])"
  using split_path_slash [of x "[dot]"] split_path_slash [of x "[]"]
  by (simp add: leads_through_def)

text \<open>C38. Normalization computes the canonical spelling of a path: the result is \<open>/\<close> or a sequence of
  \<open>/\<close>-prefixed components none of which is empty, \<open>.\<close> or \<open>..\<close>, exactly the ones the path leads
  through when each \<open>..\<close> cancels the component before it, normalizing it again changes nothing, two
  paths have the same normal form exactly when they lead through the same components, and resolving
  a path against a directory is normalizing the absolute path built from them.\<close>

theorem normalize_canonical:
  "list_all plain (leads_through p) \<and>
   normalize_path p = (if leads_through p = [] then [slash] else join_path (leads_through p)) \<and>
   leads_through (normalize_path p) = leads_through p \<and>
   normalize_path (normalize_path p) = normalize_path p \<and>
   (normalize_path p = normalize_path q \<longleftrightarrow> leads_through p = leads_through q) \<and>
   resolve_path p cwd = normalize_path (make_absolute (if p = [] then [dot] else p) cwd)"
proof (intro conjI)
  show "list_all plain (leads_through p)" by (rule leads_through_plain)
  show "normalize_path p = (if leads_through p = [] then [slash] else join_path (leads_through p))"
    by (rule normalize_path_eq)
  show same: "leads_through (normalize_path p) = leads_through p" for p by (rule leads_through_normalize)
  show "normalize_path (normalize_path p) = normalize_path p"
    using same [of p] normalize_path_eq [of p] normalize_path_eq [of "normalize_path p"] by metis
  show "normalize_path p = normalize_path q \<longleftrightarrow> leads_through p = leads_through q"
    using same [of p] same [of q] normalize_path_eq [of p] normalize_path_eq [of q] by metis
  define dir where "dir = (if cwd = [] \<or> List.last cwd \<noteq> slash then cwd @ [slash] else cwd)"
  have "dir \<noteq> []" "List.last dir = slash" by (auto simp: dir_def)
  then have "dir = butlast dir @ [slash]" by (metis append_butlast_last_id)
  then have "leads_through (dir @ [dot]) = leads_through dir"
    using leads_through_slash_dot [of "butlast dir"] by (metis append.assoc append_Cons append_Nil)
  then have "normalize_path dir = normalize_path (dir @ [dot])" by (simp add: normalize_path_eq)
  then show "resolve_path p cwd = normalize_path (make_absolute (if p = [] then [dot] else p) cwd)"
    by (auto simp: resolve_path_def make_absolute_def Let_def dir_def)
qed

end
