(* ===== verification/Terminal.thy ===== *)
theory Terminal
  imports Signal_State
begin

text \<open>
  Terminal attributes and the line discipline (\<^verbatim>\<open>src/crates/kernel/src/terminal.rs\<close>).
  The control characters are the 32-byte array of the code; the two serialization functions
  return \<open>None\<close> where the code panics on a short buffer.  The lemmas show that the 60-byte
  termios image can be read back, and that feeding bytes one at a time through the line discipline
  gives the same result as cutting the whole input into lines and editing each.
\<close>

unbundle bit_operations_syntax

section \<open>Constants\<close>

definition ECHO :: u32 where "ECHO = 0x8"
definition ECHOE :: u32 where "ECHOE = 0x10"
definition ECHOK :: u32 where "ECHOK = 0x20"
definition ECHONL :: u32 where "ECHONL = 0x40"
definition ICANON :: u32 where "ICANON = 0x2"
definition ISIG :: u32 where "ISIG = 0x1"
definition IEXTEN :: u32 where "IEXTEN = 0x8000"
definition NOFLSH :: u32 where "NOFLSH = 0x80"
definition ICRNL :: u32 where "ICRNL = 0x100"
definition INLCR :: u32 where "INLCR = 0x40"
definition IGNCR :: u32 where "IGNCR = 0x80"
definition IXON :: u32 where "IXON = 0x400"
definition IXANY :: u32 where "IXANY = 0x800"
definition IMAXBEL :: u32 where "IMAXBEL = 0x2000"
definition OPOST :: u32 where "OPOST = 0x1"
definition ONLCR :: u32 where "ONLCR = 0x4"
definition CS8 :: u32 where "CS8 = 0x30"
definition CREAD :: u32 where "CREAD = 0x80"
definition HUPCL :: u32 where "HUPCL = 0x400"
definition B38400 :: u32 where "B38400 = 0xF"
definition VINTR :: nat where "VINTR = 0"
definition VQUIT :: nat where "VQUIT = 1"
definition VERASE :: nat where "VERASE = 2"
definition VKILL :: nat where "VKILL = 3"
definition VEOF :: nat where "VEOF = 4"
definition VTIME :: nat where "VTIME = 5"
definition VMIN :: nat where "VMIN = 6"
definition VSTART :: nat where "VSTART = 8"
definition VSTOP :: nat where "VSTOP = 9"
definition VSUSP :: nat where "VSUSP = 10"
definition VEOL :: nat where "VEOL = 11"
definition NCCS :: nat where "NCCS = 32"
definition SIGINT :: nat where "SIGINT = 2"
definition SIGQUIT :: nat where "SIGQUIT = 3"

section \<open>State\<close>

record win_size =
  ws_row :: u16
  ws_col :: u16
  ws_xpixel :: u16
  ws_ypixel :: u16

record terminal_state =
  c_iflag :: u32
  c_oflag :: u32
  c_cflag :: u32
  c_lflag :: u32
  c_line :: u8
  c_cc :: "u8 list"
  c_ispeed :: u32
  c_ospeed :: u32
  winsize :: win_size
  foreground_pgid :: int
  tty_session_id :: int
  line_buffer :: "u8 list"
  cooked_buffer :: "u8 list"

definition terminal_new :: terminal_state where
  "terminal_new =
     \<lparr> c_iflag = ICRNL OR IXON OR IXANY OR IMAXBEL,
       c_oflag = OPOST OR ONLCR,
       c_cflag = CS8 OR CREAD OR HUPCL OR B38400,
       c_lflag = ECHO OR ECHOE OR ECHOK OR ICANON OR ISIG OR IEXTEN,
       c_line = 0,
       c_cc = (replicate NCCS 0)[VINTR := 0x03, VQUIT := 0x1C, VERASE := 0x7F, VKILL := 0x15,
         VEOF := 0x04, VSTART := 0x11, VSTOP := 0x13, VSUSP := 0x1A, VMIN := 1, VTIME := 0],
       c_ispeed = B38400, c_ospeed = B38400,
       winsize = \<lparr> ws_row = 24, ws_col = 80, ws_xpixel = 0, ws_ypixel = 0 \<rparr>,
       foreground_pgid = 1, tty_session_id = 0, line_buffer = [], cooked_buffer = [] \<rparr>"

section \<open>The termios image\<close>

definition write_termios :: "terminal_state \<Rightarrow> u8 list \<Rightarrow> u8 list option" where
  "write_termios t buf =
     (if length buf < 60 \<or> length (c_cc t) \<noteq> 32 then None
      else Some (u32_to_le_bytes (c_iflag t) @ u32_to_le_bytes (c_oflag t) @ u32_to_le_bytes (c_cflag t) @
                 u32_to_le_bytes (c_lflag t) @ [c_line t] @ c_cc t @ [0, 0, 0] @
                 u32_to_le_bytes (c_ispeed t) @ u32_to_le_bytes (c_ospeed t) @ drop 60 buf))"

definition u32_at :: "u8 list \<Rightarrow> nat \<Rightarrow> u32" where
  "u32_at buf i = u32_from_le_bytes (buf ! i) (buf ! (i + 1)) (buf ! (i + 2)) (buf ! (i + 3))"

definition read_termios :: "terminal_state \<Rightarrow> u8 list \<Rightarrow> terminal_state option" where
  "read_termios t buf =
     (if length buf < 60 then None
      else Some (t\<lparr> c_iflag := u32_at buf 0, c_oflag := u32_at buf 4, c_cflag := u32_at buf 8,
                    c_lflag := u32_at buf 12, c_line := buf ! 16, c_cc := take 32 (drop 17 buf),
                    c_ispeed := u32_at buf 52, c_ospeed := u32_at buf 56 \<rparr>))"

section \<open>The line discipline\<close>

definition is_canonical :: "terminal_state \<Rightarrow> bool" where
  "is_canonical t \<longleftrightarrow> c_lflag t AND ICANON \<noteq> 0"

definition control_char_matches :: "terminal_state \<Rightarrow> nat \<Rightarrow> u8 \<Rightarrow> bool" where
  "control_char_matches t i b \<longleftrightarrow> c_cc t ! i \<noteq> 0 \<and> c_cc t ! i = b"

text \<open>Input translation; \<open>None\<close> is a discarded carriage return.\<close>

definition translate_input :: "terminal_state \<Rightarrow> u8 \<Rightarrow> u8 option" where
  "translate_input t b =
     (if c_iflag t AND ICRNL \<noteq> 0 \<and> b = 0x0D then Some 0x0A
      else if c_iflag t AND INLCR \<noteq> 0 \<and> b = 0x0A then Some 0x0D
      else if c_iflag t AND IGNCR \<noteq> 0 \<and> b = 0x0D then None
      else Some b)"

definition signal_char :: "terminal_state \<Rightarrow> u8 \<Rightarrow> nat option" where
  "signal_char t b =
     (if c_lflag t AND ISIG = 0 then None
      else if control_char_matches t VINTR b then Some SIGINT
      else if control_char_matches t VQUIT b then Some SIGQUIT
      else if control_char_matches t VSUSP b then Some SIGTSTP
      else None)"

definition edit_byte :: "terminal_state \<Rightarrow> u8 \<Rightarrow> terminal_state \<times> u8 list" where
  "edit_byte t b =
     (let do_echo = c_lflag t AND ECHO \<noteq> 0
      in if control_char_matches t VERASE b
         then (if line_buffer t \<noteq> []
               then (t\<lparr> line_buffer := butlast (line_buffer t) \<rparr>,
                     if do_echo \<and> c_lflag t AND ECHOE \<noteq> 0 then [0x08, 0x20, 0x08] else [])
               else (t, []))
         else if control_char_matches t VKILL b
         then (t\<lparr> line_buffer := [] \<rparr>,
               if do_echo \<and> c_lflag t AND ECHOK \<noteq> 0
               then concat (replicate (length (line_buffer t)) [0x08, 0x20, 0x08]) else [])
         else if control_char_matches t VEOF b
         then (t\<lparr> cooked_buffer := cooked_buffer t @ line_buffer t, line_buffer := [] \<rparr>, [])
         else if b = 0x0A \<or> control_char_matches t VEOL b
         then (t\<lparr> cooked_buffer := cooked_buffer t @ line_buffer t @ [b], line_buffer := [] \<rparr>,
               if do_echo \<or> c_lflag t AND ECHONL \<noteq> 0 \<and> b = 0x0A then [b] else [])
         else (t\<lparr> line_buffer := line_buffer t @ [b] \<rparr>, if do_echo then [b] else []))"

definition process_input_byte :: "terminal_state \<Rightarrow> u8 \<Rightarrow> terminal_state \<times> u8 list \<times> nat option" where
  "process_input_byte t byte =
     (case translate_input t byte of
        None \<Rightarrow> (t, [], None)
      | Some b \<Rightarrow>
          (case signal_char t b of
             Some sig \<Rightarrow>
               (if c_lflag t AND NOFLSH = 0 then t\<lparr> line_buffer := [], cooked_buffer := [] \<rparr> else t,
                if c_lflag t AND ECHO \<noteq> 0 then [0x5E, b XOR 0x40, 0x0A] else [],
                Some sig)
           | None \<Rightarrow>
               if c_lflag t AND ICANON = 0 then (t, [], None)
               else (let (t', echo) = edit_byte t b in (t', echo, None))))"

text \<open>A read returns the caller's buffer with the bytes copied to its front, and their number.\<close>

definition read_cooked :: "terminal_state \<Rightarrow> u8 list \<Rightarrow> terminal_state \<times> u8 list \<times> nat" where
  "read_cooked t buf =
     (let n = min (length buf) (length (cooked_buffer t))
      in if n = 0 then (t, buf, 0)
         else (t\<lparr> cooked_buffer := drop n (cooked_buffer t) \<rparr>, take n (cooked_buffer t) @ drop n buf, n))"

definition has_cooked_data :: "terminal_state \<Rightarrow> bool" where
  "has_cooked_data t \<longleftrightarrow> cooked_buffer t \<noteq> []"

definition vmin :: "terminal_state \<Rightarrow> u8" where
  "vmin t = c_cc t ! VMIN"

definition vtime :: "terminal_state \<Rightarrow> u8" where
  "vtime t = c_cc t ! VTIME"

section \<open>Reading the image back\<close>

lemma u32_at_skip: "length ys \<le> i \<Longrightarrow> u32_at (ys @ xs) i = u32_at xs (i - length ys)"
  by (simp add: u32_at_def nth_append Suc_diff_le)

lemma u32_at_Cons: "0 < i \<Longrightarrow> u32_at (b # xs) i = u32_at xs (i - 1)"
  by (simp add: u32_at_def nth_Cons')

lemma u32_at_bytes: "u32_at (u32_to_le_bytes w @ xs) 0 = w" "u32_at (u32_to_le_bytes w) 0 = w"
  using u32_le_roundtrip [of w] by (simp_all add: u32_at_def u32_to_le_bytes_def)

text \<open>The 60-byte termios image round-trips: what \<open>tcgetattr\<close> writes, \<open>tcsetattr\<close> reads back
  as the same attributes on any terminal, touching neither its window size, its process groups nor
  its queues; bytes of the user buffer beyond the image are left alone, and a buffer of less than 60
  bytes is the only way either can fail.\<close>

theorem termios_roundtrip:
  assumes "length (c_cc t) = 32"
  shows "(write_termios t buf = None \<longleftrightarrow> length buf < 60) \<and>
    (read_termios u buf = None \<longleftrightarrow> length buf < 60) \<and>
    (\<forall>image. write_termios t buf = Some image \<longrightarrow>
       length image = length buf \<and> drop 60 image = drop 60 buf \<and>
       read_termios u image =
         Some (u\<lparr> c_iflag := c_iflag t, c_oflag := c_oflag t, c_cflag := c_cflag t, c_lflag := c_lflag t,
                  c_line := c_line t, c_cc := c_cc t, c_ispeed := c_ispeed t, c_ospeed := c_ospeed t \<rparr>))"
proof (intro conjI allI impI)
  show "write_termios t buf = None \<longleftrightarrow> length buf < 60" using assms by (simp add: write_termios_def)
  show "read_termios u buf = None \<longleftrightarrow> length buf < 60" by (simp add: read_termios_def)
  fix image assume w: "write_termios t buf = Some image"
  then have len: "60 \<le> length buf" by (simp add: write_termios_def split: if_splits)
  have image: "image = u32_to_le_bytes (c_iflag t) @ u32_to_le_bytes (c_oflag t) @ u32_to_le_bytes (c_cflag t) @
      u32_to_le_bytes (c_lflag t) @ [c_line t] @ c_cc t @ [0, 0, 0] @
      u32_to_le_bytes (c_ispeed t) @ u32_to_le_bytes (c_ospeed t) @ drop 60 buf"
    using w by (simp add: write_termios_def split: if_splits)
  show lens: "length image = length buf" using assms len by (simp add: image)
  show "drop 60 image = drop 60 buf" using assms by (simp add: image)
  have words: "u32_at image 0 = c_iflag t" "u32_at image 4 = c_oflag t" "u32_at image 8 = c_cflag t"
    "u32_at image 12 = c_lflag t" "u32_at image 52 = c_ispeed t" "u32_at image 56 = c_ospeed t"
    using assms by (simp_all add: image u32_at_skip u32_at_Cons u32_at_bytes)
  have bytes: "image ! 16 = c_line t" "take 32 (drop 17 image) = c_cc t"
    using assms by (simp_all add: image nth_append)
  show "read_termios u image =
      Some (u\<lparr> c_iflag := c_iflag t, c_oflag := c_oflag t, c_cflag := c_cflag t, c_lflag := c_lflag t,
               c_line := c_line t, c_cc := c_cc t, c_ispeed := c_ispeed t, c_ospeed := c_ospeed t \<rparr>)"
    using lens len by (simp add: read_termios_def words bytes)
qed

theorem termios_roundtrip_witness:
  "\<exists>image. write_termios terminal_new (replicate 61 7) = Some image \<and> drop 60 image = [7] \<and>
     read_termios (terminal_new\<lparr> c_iflag := 0, c_lflag := 0 \<rparr>) image = Some terminal_new"
proof -
  have cc: "length (c_cc terminal_new) = 32" by (simp add: terminal_new_def NCCS_def)
  have "write_termios terminal_new (replicate 61 7) \<noteq> None"
    using termios_roundtrip [OF cc, of "replicate 61 7"] by simp
  then obtain image where i: "write_termios terminal_new (replicate 61 7) = Some image" by blast
  from termios_roundtrip [OF cc, of "replicate 61 7" "terminal_new\<lparr> c_iflag := 0, c_lflag := 0 \<rparr>"] i
  have "drop 60 image = drop 60 (replicate 61 7)"
    "read_termios (terminal_new\<lparr> c_iflag := 0, c_lflag := 0 \<rparr>) image = Some terminal_new" by simp_all
  with i show ?thesis by (simp add: drop_replicate)
qed

section \<open>Line editing\<close>

text \<open>The reference: cut the translated input into lines, then edit each line by itself.\<close>

definition erase_char :: "terminal_state \<Rightarrow> u8 list \<Rightarrow> u8 \<Rightarrow> u8 list" where
  "erase_char t l b =
     (if control_char_matches t VERASE b then butlast l
      else if control_char_matches t VKILL b then []
      else l @ [b])"

definition ends_line :: "terminal_state \<Rightarrow> u8 \<Rightarrow> bool" where
  "ends_line t b \<longleftrightarrow> \<not> control_char_matches t VERASE b \<and> \<not> control_char_matches t VKILL b \<and>
     (control_char_matches t VEOF b \<or> b = 0x0A \<or> control_char_matches t VEOL b)"

definition line_end :: "terminal_state \<Rightarrow> u8 \<Rightarrow> u8 list" where
  "line_end t b = (if control_char_matches t VEOF b then [] else [b])"

fun cut_lines :: "terminal_state \<Rightarrow> u8 list \<Rightarrow> u8 list list \<times> u8 list" where
  "cut_lines t [] = ([], [])"
| "cut_lines t (b # bs) =
     (case cut_lines t bs of
        (ls, r) \<Rightarrow>
          if ends_line t b then ([b] # ls, r)
          else (case ls of [] \<Rightarrow> ([], b # r) | l # ls' \<Rightarrow> ((b # l) # ls', r)))"

definition edit_line :: "terminal_state \<Rightarrow> u8 list \<Rightarrow> u8 list" where
  "edit_line t l = foldl (erase_char t) [] l"

definition cook_line :: "terminal_state \<Rightarrow> u8 list \<Rightarrow> u8 list" where
  "cook_line t l = edit_line t (butlast l) @ line_end t (List.last l)"

fun type_bytes :: "terminal_state \<Rightarrow> u8 list \<Rightarrow> terminal_state" where
  "type_bytes t [] = t"
| "type_bytes t (b # bs) = type_bytes (fst (process_input_byte t b)) bs"

text \<open>The same computation in one pass, starting from a line typed so far.\<close>

fun cook_from :: "terminal_state \<Rightarrow> u8 list \<Rightarrow> u8 list \<Rightarrow> u8 list \<times> u8 list" where
  "cook_from t l [] = ([], l)"
| "cook_from t l (b # bs) =
     (if ends_line t b then (case cook_from t [] bs of (c, r) \<Rightarrow> (l @ line_end t b @ c, r))
      else cook_from t (erase_char t l b) bs)"

lemma cut_lines_ends: "l \<in> set (fst (cut_lines t bs)) \<Longrightarrow> l \<noteq> []"
  by (induction bs arbitrary: l) (auto split: prod.splits list.splits if_splits)

lemma cook_from_cut:
  "cut_lines t bs = (ls, r) \<Longrightarrow>
     cook_from t l bs =
       (case ls of
          [] \<Rightarrow> ([], foldl (erase_char t) l r)
        | x # xs \<Rightarrow>
            (foldl (erase_char t) l (butlast x) @ line_end t (List.last x) @ concat (map (cook_line t) xs),
             edit_line t r))"
proof (induction bs arbitrary: l ls r)
  case (Cons b bs)
  obtain ls' r' where c: "cut_lines t bs = (ls', r')" using surj_pair by metis
  note IH = Cons.IH [OF c]
  show ?case
  proof (cases ls')
    case Nil
    then show ?thesis using c IH [of "[]"] IH [of "erase_char t l b"] Cons.prems
      by (auto simp: edit_line_def)
  next
    case (Cons x xs)
    then have "x \<noteq> []" using cut_lines_ends [of x t bs] c by simp
    then show ?thesis
      using c IH [of "[]"] IH [of "erase_char t l b"] \<open>cut_lines t (b # bs) = (ls, r)\<close> Cons
      by (auto simp: edit_line_def cook_line_def split: if_splits)
  qed
qed simp

lemma cook_from_lines:
  "cook_from t [] bs = (concat (map (cook_line t) (fst (cut_lines t bs))), edit_line t (snd (cut_lines t bs)))"
proof -
  obtain ls r where c: "cut_lines t bs = (ls, r)" using surj_pair by metis
  show ?thesis using cook_from_cut [OF c, of "[]"]
    by (cases ls) (simp_all add: c cook_line_def edit_line_def)
qed

lemma control_char_matches_buffers [simp]:
  "control_char_matches (t\<lparr> line_buffer := l \<rparr>) = control_char_matches t"
  "control_char_matches (t\<lparr> cooked_buffer := c \<rparr>) = control_char_matches t"
  by (simp_all add: control_char_matches_def fun_eq_iff)

lemma edit_byte_buffers:
  "fst (edit_byte t b) =
     (if ends_line t b
      then t\<lparr> cooked_buffer := cooked_buffer t @ line_buffer t @ line_end t b, line_buffer := [] \<rparr>
      else t\<lparr> line_buffer := erase_char t (line_buffer t) b \<rparr>)"
  by (simp add: edit_byte_def Let_def ends_line_def line_end_def erase_char_def)

definition no_signals :: "terminal_state \<Rightarrow> u8 list \<Rightarrow> bool" where
  "no_signals t bs \<longleftrightarrow> list_all (\<lambda>b. case translate_input t b of None \<Rightarrow> True | Some c \<Rightarrow> signal_char t c = None) bs"

lemma no_signals_Cons:
  "no_signals t (b # bs) \<longleftrightarrow>
     (case translate_input t b of None \<Rightarrow> True | Some c \<Rightarrow> signal_char t c = None) \<and> no_signals t bs"
  by (simp add: no_signals_def)

text \<open>Nothing of this looks at the two buffers.\<close>

lemma buffers_irrelevant:
  "is_canonical (t\<lparr> line_buffer := l \<rparr>) = is_canonical t"
  "is_canonical (t\<lparr> cooked_buffer := c \<rparr>) = is_canonical t"
  "translate_input (t\<lparr> line_buffer := l \<rparr>) = translate_input t"
  "translate_input (t\<lparr> cooked_buffer := c \<rparr>) = translate_input t"
  by (rule ext | simp add: is_canonical_def translate_input_def)+

lemma no_signals_buffers:
  "no_signals (t\<lparr> line_buffer := l \<rparr>) = no_signals t"
  "no_signals (t\<lparr> cooked_buffer := c \<rparr>) = no_signals t"
proof -
  have sig: "signal_char (t\<lparr> line_buffer := l \<rparr>) = signal_char t"
    "signal_char (t\<lparr> cooked_buffer := c \<rparr>) = signal_char t"
    by (rule ext, simp add: signal_char_def)+
  show "no_signals (t\<lparr> line_buffer := l \<rparr>) = no_signals t"
    by (rule ext) (simp only: no_signals_def buffers_irrelevant sig)
  show "no_signals (t\<lparr> cooked_buffer := c \<rparr>) = no_signals t"
    by (rule ext) (simp only: no_signals_def buffers_irrelevant sig)
qed

lemma cook_from_buffers:
  "cook_from (t\<lparr> line_buffer := l \<rparr>) k bs = cook_from t k bs"
  "cook_from (t\<lparr> cooked_buffer := c \<rparr>) k bs = cook_from t k bs"
  by (induction bs arbitrary: k) (simp_all add: ends_line_def line_end_def erase_char_def)

lemmas frame = buffers_irrelevant no_signals_buffers cook_from_buffers

lemma type_bytes_cook:
  assumes "is_canonical t" "no_signals t bs"
  shows "type_bytes t bs =
    (case cook_from t (line_buffer t) (List.map_filter (translate_input t) bs) of
       (c, r) \<Rightarrow> t\<lparr> cooked_buffer := cooked_buffer t @ c, line_buffer := r \<rparr>)"
  using assms
proof (induction bs arbitrary: t)
  case (Cons b bs)
  let ?t = "fst (process_input_byte t b)"
  show ?case
  proof (cases "translate_input t b")
    case None
    then show ?thesis using Cons by (simp add: process_input_byte_def map_filter_simps no_signals_def)
  next
    case (Some x)
    with Cons.prems have "?t = fst (edit_byte t x)"
      by (simp add: process_input_byte_def is_canonical_def no_signals_def split: prod.splits)
    moreover have "is_canonical ?t" "no_signals ?t bs"
      using Cons.prems calculation by (simp_all add: edit_byte_buffers frame no_signals_Cons)
    ultimately show ?thesis
      using Some Cons.IH [of ?t] by (simp add: edit_byte_buffers frame map_filter_simps split: prod.splits)
  qed
qed (simp add: map_filter_simps)

text \<open>C39. Typing in canonical mode: feeding bytes one at a time through the line discipline, none of
  them a signal character, makes available exactly what cutting the translated input at its line
  ends and editing each line on its own gives, so erase and kill never reach into a line that is
  already complete; what is left of the input is the edited unfinished line, and nothing else of the
  terminal changes.\<close>

theorem canonical_input_equiv:
  assumes "is_canonical t" and "line_buffer t = []" and "no_signals t bs"
  shows "type_bytes t bs =
    t\<lparr> cooked_buffer := cooked_buffer t @
         concat (map (cook_line t) (fst (cut_lines t (List.map_filter (translate_input t) bs)))),
       line_buffer := edit_line t (snd (cut_lines t (List.map_filter (translate_input t) bs))) \<rparr>"
  using type_bytes_cook [OF assms(1,3)] assms(2) by (simp add: cook_from_lines)

text \<open>The witness types \<open>a\<close>, \<open>b\<close>, erase, \<open>c\<close>, carriage return, \<open>d\<close>.\<close>

theorem canonical_input_equiv_witness:
  "cooked_buffer (type_bytes terminal_new [0x61, 0x62, 0x7F, 0x63, 0x0D, 0x64]) = [0x61, 0x63, 0x0A] \<and>
   line_buffer (type_bytes terminal_new [0x61, 0x62, 0x7F, 0x63, 0x0D, 0x64]) = [0x64]"
proof -
  have "is_canonical terminal_new" "line_buffer terminal_new = []"
    "no_signals terminal_new [0x61, 0x62, 0x7F, 0x63, 0x0D, 0x64]" by code_simp+
  from canonical_input_equiv [OF this] have t: "type_bytes terminal_new [0x61, 0x62, 0x7F, 0x63, 0x0D, 0x64] =
    terminal_new\<lparr> cooked_buffer := cooked_buffer terminal_new @
         concat (map (cook_line terminal_new) (fst (cut_lines terminal_new
           (List.map_filter (translate_input terminal_new) [0x61, 0x62, 0x7F, 0x63, 0x0D, 0x64])))),
       line_buffer := edit_line terminal_new (snd (cut_lines terminal_new
         (List.map_filter (translate_input terminal_new) [0x61, 0x62, 0x7F, 0x63, 0x0D, 0x64]))) \<rparr>" .
  show ?thesis unfolding t by code_simp
qed

end
