(* ===== verification/Pty.thy ===== *)
theory Pty
  imports Terminal
begin

text \<open>
  Pseudo-terminal pairs (\<^verbatim>\<open>src/crates/kernel/src/pty.rs\<close>): a terminal between a master
  side that types and reads the screen and a slave side that reads lines and writes output.  The
  global array of 64 slots is a list.  Reads return the caller's buffer with the bytes copied to
  its front.  The lemmas compare a trace of calls, in any interleaving and any mode, with two
  reference streams: \<open>screen_stream\<close> towards the master and \<open>input_stream\<close> towards the slave.
\<close>

unbundle bit_operations_syntax

definition MAX_PTYS :: nat where "MAX_PTYS = 64"

record pty_pair =
  pty_terminal :: terminal_state
  input_buf :: "u8 list"
  output_buf :: "u8 list"
  pty_locked :: bool
  master_refs :: nat
  slave_refs :: nat

definition pty_new :: pty_pair where
  "pty_new = \<lparr> pty_terminal = terminal_new, input_buf = [], output_buf = [], pty_locked = True,
               master_refs = 0, slave_refs = 0 \<rparr>"

section \<open>The pair\<close>

text \<open>One byte through output processing.\<close>

definition output_byte :: "terminal_state \<Rightarrow> u8 \<Rightarrow> u8 list" where
  "output_byte t b =
     (if c_oflag t AND OPOST \<noteq> 0 \<and> c_oflag t AND ONLCR \<noteq> 0 \<and> b = 0x0A then [0x0D, 0x0A] else [b])"

definition process_master_input :: "pty_pair \<Rightarrow> u8 \<Rightarrow> pty_pair \<times> nat option" where
  "process_master_input p byte =
     (let t = pty_terminal p;
        (t1, echo, sig) = process_input_byte t byte;
        p1 = p\<lparr> pty_terminal := t1 \<rparr>;
        p2 = (if sig \<noteq> None \<and> c_lflag t1 AND NOFLSH = 0 then p1\<lparr> input_buf := [] \<rparr> else p1);
        p3 = p2\<lparr> output_buf := output_buf p2 @ concat (map (output_byte t) echo) \<rparr>
      in if sig \<noteq> None then (p3, sig)
         else if \<not> is_canonical t1
         then (p3\<lparr> input_buf := input_buf p3 @ [byte],
                   output_buf := output_buf p3 @
                     (if c_lflag t1 AND ECHO \<noteq> 0 then output_byte t byte else []) \<rparr>, None)
         else (p3, None))"

definition slave_read :: "pty_pair \<Rightarrow> u8 list \<Rightarrow> pty_pair \<times> u8 list \<times> nat" where
  "slave_read p buf =
     (if is_canonical (pty_terminal p)
      then (let (t1, b, n) = read_cooked (pty_terminal p) buf in (p\<lparr> pty_terminal := t1 \<rparr>, b, n))
      else (let n = min (length buf) (length (input_buf p))
            in (p\<lparr> input_buf := drop n (input_buf p) \<rparr>, take n (input_buf p) @ drop n buf, n)))"

definition slave_has_data :: "pty_pair \<Rightarrow> bool" where
  "slave_has_data p \<longleftrightarrow>
     (if is_canonical (pty_terminal p) then has_cooked_data (pty_terminal p) else input_buf p \<noteq> [])"

definition slave_write :: "pty_pair \<Rightarrow> u8 list \<Rightarrow> pty_pair \<times> nat" where
  "slave_write p data =
     (p\<lparr> output_buf := output_buf p @ concat (map (output_byte (pty_terminal p)) data) \<rparr>, length data)"

definition master_read :: "pty_pair \<Rightarrow> u8 list \<Rightarrow> pty_pair \<times> u8 list \<times> nat" where
  "master_read p buf =
     (let n = min (length buf) (length (output_buf p))
      in (p\<lparr> output_buf := drop n (output_buf p) \<rparr>, take n (output_buf p) @ drop n buf, n))"

definition master_has_data :: "pty_pair \<Rightarrow> bool" where
  "master_has_data p \<longleftrightarrow> output_buf p \<noteq> []"

definition pty_is_alive :: "pty_pair \<Rightarrow> bool" where
  "pty_is_alive p \<longleftrightarrow> master_refs p > 0 \<or> slave_refs p > 0"

section \<open>The table\<close>

type_synonym pty_table = "pty_pair option list"

definition pty_table_new :: pty_table where
  "pty_table_new = replicate MAX_PTYS None"

definition alloc_pty :: "pty_table \<Rightarrow> pty_table \<times> nat option" where
  "alloc_pty t =
     (case first_none t of
        Some i \<Rightarrow> (t[i := Some pty_new], Some i)
      | None \<Rightarrow> (t, None))"

definition get_pty :: "pty_table \<Rightarrow> nat \<Rightarrow> pty_pair option" where
  "get_pty t i = (if i \<ge> MAX_PTYS then None else t ! i)"

definition free_pty :: "pty_table \<Rightarrow> nat \<Rightarrow> pty_table" where
  "free_pty t i = (if i < MAX_PTYS then t[i := None] else t)"

text \<open>Allocation takes the lowest free slot and leaves the others alone, and fails only when all 64
  are taken.\<close>

lemma alloc_pty_facts:
  assumes "length t = MAX_PTYS" "alloc_pty t = (t', r)"
  shows "length t' = MAX_PTYS"
    "r = None \<Longrightarrow> t' = t \<and> (\<forall>i < MAX_PTYS. get_pty t i \<noteq> None)"
    "r = Some i \<Longrightarrow> i < MAX_PTYS \<and> get_pty t i = None \<and> (\<forall>j < i. get_pty t j \<noteq> None) \<and>
       get_pty t' = (get_pty t)(i \<mapsto> pty_new)"
  using assms
  by (auto simp: alloc_pty_def first_none_def find_upt_Some find_upt_None get_pty_def fun_eq_iff
      nth_list_update split: option.splits)

section \<open>The two directions\<close>

datatype pty_call = PtyType u8 | PtySlaveRead nat | PtySlaveWrite "u8 list" | PtyMasterRead nat

text \<open>A trace collects what the master and the slave have read.\<close>

fun pty_trace :: "pty_pair \<Rightarrow> pty_call list \<Rightarrow> pty_pair \<times> u8 list \<times> u8 list" where
  "pty_trace p [] = (p, [], [])"
| "pty_trace p (PtyType b # cs) = pty_trace (fst (process_master_input p b)) cs"
| "pty_trace p (PtySlaveRead n # cs) =
     (case slave_read p (replicate n 0) of
        (p1, buf, k) \<Rightarrow> (case pty_trace p1 cs of (p2, scr, inp) \<Rightarrow> (p2, scr, take k buf @ inp)))"
| "pty_trace p (PtySlaveWrite data # cs) = pty_trace (fst (slave_write p data)) cs"
| "pty_trace p (PtyMasterRead n # cs) =
     (case master_read p (replicate n 0) of
        (p1, buf, k) \<Rightarrow> (case pty_trace p1 cs of (p2, scr, inp) \<Rightarrow> (p2, take k buf @ scr, inp)))"

fun typed :: "pty_call list \<Rightarrow> u8 list" where
  "typed [] = []"
| "typed (PtyType b # cs) = b # typed cs"
| "typed (_ # cs) = typed cs"

text \<open>
  The reference.  \<open>t\<close> gives the attributes, which no call of a trace changes.  A typed byte is a signal
  character when its translation is one; it flushes unless \<open>NOFLSH\<close> is set.
\<close>

definition is_signal :: "terminal_state \<Rightarrow> u8 \<Rightarrow> bool" where
  "is_signal t b \<longleftrightarrow> (case translate_input t b of None \<Rightarrow> False | Some x \<Rightarrow> signal_char t x \<noteq> None)"

definition flushes :: "terminal_state \<Rightarrow> u8 \<Rightarrow> bool" where
  "flushes t b \<longleftrightarrow> is_signal t b \<and> c_lflag t AND NOFLSH = 0"

text \<open>The bytes that reach the line editor, and what the slave can read of them: in canonical mode the
  complete lines, each edited by itself; in raw mode the bytes as typed.\<close>

definition edited_bytes :: "terminal_state \<Rightarrow> u8 list \<Rightarrow> u8 list" where
  "edited_bytes t bs = List.map_filter (translate_input t) (filter (\<lambda>b. \<not> is_signal t b) bs)"

definition input_stream :: "terminal_state \<Rightarrow> u8 list \<Rightarrow> u8 list" where
  "input_stream t bs =
     (if is_canonical t then concat (map (cook_line t) (fst (cut_lines t (edited_bytes t bs))))
      else filter (\<lambda>b. \<not> is_signal t b) bs)"

text \<open>The echo of a byte typed after the unfinished line \<open>l\<close>, and the line it leaves.\<close>

definition line_echo :: "terminal_state \<Rightarrow> u8 list \<Rightarrow> u8 \<Rightarrow> u8 list" where
  "line_echo t l x =
     (let visible = c_lflag t AND ECHO \<noteq> 0; rub_out = [0x08, 0x20, 0x08]
      in if control_char_matches t VERASE x
         then (if visible \<and> c_lflag t AND ECHOE \<noteq> 0 \<and> l \<noteq> [] then rub_out else [])
         else if control_char_matches t VKILL x
         then (if visible \<and> c_lflag t AND ECHOK \<noteq> 0 then concat (replicate (length l) rub_out) else [])
         else if control_char_matches t VEOF x then []
         else if visible \<or> c_lflag t AND ECHONL \<noteq> 0 \<and> x = 0x0A then [x] else [])"

definition echo_of :: "terminal_state \<Rightarrow> u8 list \<Rightarrow> u8 \<Rightarrow> u8 list" where
  "echo_of t l b =
     (if is_signal t b
      then (if c_lflag t AND ECHO \<noteq> 0 then [0x5E, the (translate_input t b) XOR 0x40, 0x0A] else [])
      else if is_canonical t then (case translate_input t b of None \<Rightarrow> [] | Some x \<Rightarrow> line_echo t l x)
      else if c_lflag t AND ECHO \<noteq> 0 then [b] else [])"

definition line_after :: "terminal_state \<Rightarrow> u8 list \<Rightarrow> u8 \<Rightarrow> u8 list" where
  "line_after t l b =
     (if flushes t b then []
      else if is_signal t b \<or> \<not> is_canonical t then l
      else (case translate_input t b of
              None \<Rightarrow> l
            | Some x \<Rightarrow> if ends_line t x then [] else erase_char t l x))"

text \<open>What the calls send to the screen, before output processing: echo and slave output in call order.\<close>

fun screen_stream :: "terminal_state \<Rightarrow> u8 list \<Rightarrow> pty_call list \<Rightarrow> u8 list" where
  "screen_stream t l [] = []"
| "screen_stream t l (PtyType b # cs) = echo_of t l b @ screen_stream t (line_after t l b) cs"
| "screen_stream t l (PtySlaveWrite data # cs) = data @ screen_stream t l cs"
| "screen_stream t l (_ # cs) = screen_stream t l cs"

definition available :: "pty_pair \<Rightarrow> u8 list" where
  "available p = (if is_canonical (pty_terminal p) then cooked_buffer (pty_terminal p) else input_buf p)"

text \<open>What one byte makes available.\<close>

definition gained :: "terminal_state \<Rightarrow> u8 list \<Rightarrow> u8 \<Rightarrow> u8 list" where
  "gained t l b =
     (if is_signal t b then []
      else if \<not> is_canonical t then [b]
      else (case translate_input t b of
              None \<Rightarrow> []
            | Some x \<Rightarrow> if ends_line t x then l @ line_end t x else []))"

definition on_line :: "terminal_state \<Rightarrow> u8 list \<Rightarrow> pty_pair \<Rightarrow> bool" where
  "on_line t l p \<longleftrightarrow> (\<exists>c. pty_terminal p = t\<lparr> line_buffer := l, cooked_buffer := c \<rparr>)"

lemma attributes_fixed:
  "signal_char (t\<lparr> line_buffer := l \<rparr>) = signal_char t" "signal_char (t\<lparr> cooked_buffer := c \<rparr>) = signal_char t"
  "output_byte (t\<lparr> line_buffer := l \<rparr>) = output_byte t" "output_byte (t\<lparr> cooked_buffer := c \<rparr>) = output_byte t"
  "ends_line (t\<lparr> line_buffer := l \<rparr>) = ends_line t" "ends_line (t\<lparr> cooked_buffer := c \<rparr>) = ends_line t"
  "line_end (t\<lparr> line_buffer := l \<rparr>) = line_end t" "line_end (t\<lparr> cooked_buffer := c \<rparr>) = line_end t"
  "erase_char (t\<lparr> line_buffer := l \<rparr>) = erase_char t" "erase_char (t\<lparr> cooked_buffer := c \<rparr>) = erase_char t"
  by (rule ext | rule ext, rule ext |
      simp add: signal_char_def output_byte_def ends_line_def line_end_def erase_char_def)+

lemma edit_byte_echo: "snd (edit_byte t x) = line_echo t (line_buffer t) x"
  by (auto simp: edit_byte_def line_echo_def Let_def)

lemma line_echo_buffers:
  "line_echo (t\<lparr> line_buffer := l \<rparr>) = line_echo t" "line_echo (t\<lparr> cooked_buffer := c \<rparr>) = line_echo t"
  by (rule ext, rule ext, simp add: line_echo_def Let_def)+

lemmas attributes = buffers_irrelevant attributes_fixed line_echo_buffers

text \<open>One typed byte against the reference.\<close>

lemma input_signal:
  assumes "is_signal t b"
  shows "process_input_byte (t\<lparr> line_buffer := l, cooked_buffer := c \<rparr>) b =
    (if flushes t b then t\<lparr> line_buffer := [], cooked_buffer := [] \<rparr> else t\<lparr> line_buffer := l, cooked_buffer := c \<rparr>,
     echo_of t l b, signal_char t (the (translate_input t b)))"
proof -
  obtain x n where x: "translate_input t b = Some x" "signal_char t x = Some n"
    using assms by (auto simp: is_signal_def split: option.splits)
  then show ?thesis using assms by (simp add: process_input_byte_def flushes_def echo_of_def attributes)
qed

lemma input_raw:
  assumes "\<not> is_signal t b" "\<not> is_canonical t"
  shows "process_input_byte (t\<lparr> line_buffer := l, cooked_buffer := c \<rparr>) b =
    (t\<lparr> line_buffer := l, cooked_buffer := c \<rparr>, [], None)"
  using assms by (auto simp: process_input_byte_def is_signal_def is_canonical_def attributes split: option.splits)

lemma input_canonical:
  assumes "\<not> is_signal t b" "is_canonical t"
  shows "process_input_byte (t\<lparr> line_buffer := l, cooked_buffer := c \<rparr>) b =
    (t\<lparr> line_buffer := line_after t l b, cooked_buffer := c @ gained t l b \<rparr>, echo_of t l b, None)"
proof (cases "translate_input t b")
  case None
  then show ?thesis
    using assms by (simp add: process_input_byte_def attributes line_after_def gained_def echo_of_def flushes_def)
next
  case (Some x)
  let ?t = "t\<lparr> line_buffer := l, cooked_buffer := c \<rparr>"
  have "process_input_byte ?t b = (fst (edit_byte ?t x), snd (edit_byte ?t x), None)"
    using Some assms by (simp add: process_input_byte_def attributes is_signal_def is_canonical_def split_beta)
  then show ?thesis
    using Some assms
    by (simp add: edit_byte_buffers edit_byte_echo attributes line_after_def gained_def echo_of_def flushes_def)
qed

lemma on_lineI: "pty_terminal p = t\<lparr> line_buffer := l, cooked_buffer := c \<rparr> \<Longrightarrow> on_line t l p"
  unfolding on_line_def by blast

lemma type_terminal:
  "pty_terminal (fst (process_master_input p b)) = fst (process_input_byte (pty_terminal p) b)"
  by (simp add: process_master_input_def Let_def split_beta)

lemma type_output:
  assumes "process_input_byte (pty_terminal p) b = (t1, e, sig)"
  shows "output_buf (fst (process_master_input p b)) =
    output_buf p @ concat (map (output_byte (pty_terminal p))
      (e @ (if sig = None \<and> \<not> is_canonical t1 \<and> c_lflag t1 AND ECHO \<noteq> 0 then [b] else [])))"
  using assms by (cases sig) (simp_all add: process_master_input_def Let_def)

lemma type_input:
  assumes "process_input_byte (pty_terminal p) b = (t1, e, sig)"
  shows "input_buf (fst (process_master_input p b)) =
    (if sig \<noteq> None then (if c_lflag t1 AND NOFLSH = 0 then [] else input_buf p)
     else input_buf p @ (if is_canonical t1 then [] else [b]))"
  using assms by (simp add: process_master_input_def Let_def)

lemma type_step:
  assumes "on_line t l p"
  shows "on_line t (line_after t l b) (fst (process_master_input p b))"
    and "output_buf (fst (process_master_input p b)) = output_buf p @ concat (map (output_byte t) (echo_of t l b))"
    and "available (fst (process_master_input p b)) = (if flushes t b then [] else available p @ gained t l b)"
proof -
  obtain c where c: "pty_terminal p = t\<lparr> line_buffer := l, cooked_buffer := c \<rparr>" using assms by (auto simp: on_line_def)
  consider "is_signal t b" | "\<not> is_signal t b" "is_canonical t" | "\<not> is_signal t b" "\<not> is_canonical t" by blast
  then have "on_line t (line_after t l b) (fst (process_master_input p b)) \<and>
    output_buf (fst (process_master_input p b)) = output_buf p @ concat (map (output_byte t) (echo_of t l b)) \<and>
    available (fst (process_master_input p b)) = (if flushes t b then [] else available p @ gained t l b)"
  proof cases
    case 1
    have sg: "signal_char t (the (translate_input t b)) \<noteq> None" using 1 by (auto simp: is_signal_def split: option.splits)
    note e0 = input_signal [OF 1, where l = l and c = c] and e = input_signal [OF 1, where l = l and c = c, folded c]
    have "on_line t (line_after t l b) (fst (process_master_input p b))"
      using 1 by (intro on_lineI [where c = "if flushes t b then [] else c"]) (simp add: type_terminal e0 c line_after_def)
    moreover have "c_lflag (if flushes t b then t\<lparr> line_buffer := [], cooked_buffer := [] \<rparr> else pty_terminal p) = c_lflag t"
      by (simp add: c)
    ultimately show ?thesis
      using sg 1 by (simp add: type_output [OF e] type_input [OF e] type_terminal available_def e0 c attributes gained_def)
        (auto simp: flushes_def)
  next
    case 2
    then have nf: "\<not> flushes t b" by (simp add: flushes_def)
    note e0 = input_canonical [OF 2, where l = l and c = c] and e = input_canonical [OF 2, where l = l and c = c, folded c]
    have "on_line t (line_after t l b) (fst (process_master_input p b))"
      by (intro on_lineI [where c = "c @ gained t l b"]) (simp add: type_terminal e0 c)
    then show ?thesis
      using 2 nf by (simp add: type_output [OF e] type_input [OF e] type_terminal available_def e0 c attributes)
  next
    case 3
    then have nf: "\<not> flushes t b" by (simp add: flushes_def)
    note e0 = input_raw [OF 3, where l = l and c = c] and e = input_raw [OF 3, where l = l and c = c, folded c]
    have "on_line t (line_after t l b) (fst (process_master_input p b))"
      using 3 nf by (intro on_lineI [where c = c]) (simp add: type_terminal e0 c line_after_def)
    then show ?thesis
      using 3 nf by (simp add: type_output [OF e] type_input [OF e] type_terminal available_def e0 c attributes gained_def
          echo_of_def)
  qed
  then show "on_line t (line_after t l b) (fst (process_master_input p b))"
    "output_buf (fst (process_master_input p b)) = output_buf p @ concat (map (output_byte t) (echo_of t l b))"
    "available (fst (process_master_input p b)) = (if flushes t b then [] else available p @ gained t l b)"
    by blast+
qed

lemma read_cooked_stream:
  "read_cooked t buf = (t', b, k) \<Longrightarrow>
     take k b @ cooked_buffer t' = cooked_buffer t \<and> t' = t\<lparr> cooked_buffer := drop k (cooked_buffer t) \<rparr>"
  by (auto simp: read_cooked_def Let_def split: if_splits)

lemma slave_read_step:
  assumes "on_line t l p" "slave_read p buf = (p', b, k)"
  shows "on_line t l p'" "output_buf p' = output_buf p" "take k b @ available p' = available p"
proof -
  obtain c where c: "pty_terminal p = t\<lparr> line_buffer := l, cooked_buffer := c \<rparr>" using assms(1) by (auto simp: on_line_def)
  have "on_line t l p' \<and> output_buf p' = output_buf p \<and> take k b @ available p' = available p"
  proof (cases "is_canonical t")
    case True
    then obtain t1 where t1: "read_cooked (pty_terminal p) buf = (t1, b, k)" "p' = p\<lparr> pty_terminal := t1 \<rparr>"
      using assms(2) by (auto simp: slave_read_def c attributes split: prod.splits)
    note r = read_cooked_stream [OF t1(1)]
    have t: "t1 = t\<lparr> line_buffer := l, cooked_buffer := drop k c \<rparr>" using r by (simp add: c)
    have k: "take k b @ drop k c = c" using r [THEN conjunct1] unfolding t c by simp
    have "on_line t l p'" using t t1(2) by (intro on_lineI [where c = "drop k c"]) simp
    then show ?thesis using k t t1(2) True by (simp add: available_def c attributes)
  next
    case False
    then have "p' = p\<lparr> input_buf := drop k (input_buf p) \<rparr>" "b = take k (input_buf p) @ drop k buf"
        "k = min (length buf) (length (input_buf p))"
      using assms(2) by (auto simp: slave_read_def c attributes Let_def)
    then show ?thesis using False assms(1) by (simp add: available_def c attributes on_line_def)
  qed
  then show "on_line t l p'" "output_buf p' = output_buf p" "take k b @ available p' = available p" by blast+
qed

lemma write_step:
  assumes "on_line t l p"
  shows "on_line t l (fst (slave_write p data))"
    "output_buf (fst (slave_write p data)) = output_buf p @ concat (map (output_byte t) data)"
    "available (fst (slave_write p data)) = available p"
  using assms by (auto simp: slave_write_def on_line_def available_def attributes)

lemma master_read_step:
  assumes "on_line t l p" "master_read p buf = (p', b, k)"
  shows "on_line t l p'" "take k b @ output_buf p' = output_buf p" "available p' = available p"
  using assms by (auto simp: master_read_def on_line_def available_def Let_def)

text \<open>A whole trace against the reference.\<close>

lemma screen_trace:
  assumes "on_line t l p" "pty_trace p cs = (p', scr, inp)"
  shows "scr @ output_buf p' = output_buf p @ concat (map (output_byte t) (screen_stream t l cs))"
  using assms
proof (induction cs arbitrary: p' p l scr inp)
  case (Cons a cs)
  show ?case
  proof (cases a)
    case (PtyType b)
    then show ?thesis using Cons.IH [OF type_step(1) [OF Cons.prems(1)]] type_step(2) [OF Cons.prems(1)] Cons.prems(2) by simp
  next
    case (PtySlaveRead n)
    obtain p1 buf k where r: "slave_read p (replicate n 0) = (p1, buf, k)" using surj_pair by metis
    obtain q scr' inp' where t: "pty_trace p1 cs = (q, scr', inp')" using surj_pair by metis
    show ?thesis using Cons.IH [OF slave_read_step(1) [OF Cons.prems(1) r] t] slave_read_step(2) [OF Cons.prems(1) r]
        Cons.prems(2) r t PtySlaveRead by simp
  next
    case (PtySlaveWrite data)
    then show ?thesis using Cons.IH [OF write_step(1) [OF Cons.prems(1)]] write_step(2) [OF Cons.prems(1)] Cons.prems(2) by simp
  next
    case (PtyMasterRead n)
    obtain p1 buf k where r: "master_read p (replicate n 0) = (p1, buf, k)" using surj_pair by metis
    obtain q scr' inp' where t: "pty_trace p1 cs = (q, scr', inp')" using surj_pair by metis
    show ?thesis using Cons.IH [OF master_read_step(1) [OF Cons.prems(1) r] t] master_read_step(2) [OF Cons.prems(1) r, symmetric]
        Cons.prems(2) r t PtyMasterRead by auto
  qed
qed simp

fun gains :: "terminal_state \<Rightarrow> u8 list \<Rightarrow> u8 list \<Rightarrow> u8 list \<times> u8 list" where
  "gains t l [] = ([], l)"
| "gains t l (b # bs) = (case gains t (line_after t l b) bs of (c, r) \<Rightarrow> (gained t l b @ c, r))"

lemma input_trace:
  assumes "on_line t l p" "pty_trace p cs = (p', scr, inp)" "\<forall>b\<in>set (typed cs). \<not> flushes t b"
    and "gains t l (typed cs) = (c, r)"
  shows "inp @ available p' = available p @ c \<and> on_line t r p'"
  using assms
proof (induction cs arbitrary: p' p l scr inp c)
  case (Cons a cs)
  show ?case
  proof (cases a)
    case (PtyType b)
    obtain d where d: "gains t (line_after t l b) (typed cs) = (d, r)" "c = gained t l b @ d"
      using Cons.prems(4) PtyType by (auto split: prod.splits)
    then show ?thesis
      using Cons.IH [OF type_step(1) [OF Cons.prems(1)] _ _ d(1)] type_step(3) [OF Cons.prems(1), of b] Cons.prems(2,3) PtyType
      by simp
  next
    case (PtySlaveRead n)
    obtain p1 buf k where r: "slave_read p (replicate n 0) = (p1, buf, k)" using surj_pair by metis
    obtain q scr' inp' where t: "pty_trace p1 cs = (q, scr', inp')" using surj_pair by metis
    show ?thesis using Cons.IH [OF slave_read_step(1) [OF Cons.prems(1) r] t] slave_read_step(3) [OF Cons.prems(1) r, symmetric]
        Cons.prems(2-4) r t PtySlaveRead by auto
  next
    case (PtySlaveWrite data)
    then show ?thesis
      using Cons.IH [OF write_step(1) [OF Cons.prems(1)]] write_step(3) [OF Cons.prems(1)] Cons.prems(2-4) by simp
  next
    case (PtyMasterRead n)
    obtain p1 buf k where r: "master_read p (replicate n 0) = (p1, buf, k)" using surj_pair by metis
    obtain q scr' inp' where t: "pty_trace p1 cs = (q, scr', inp')" using surj_pair by metis
    show ?thesis using Cons.IH [OF master_read_step(1) [OF Cons.prems(1) r] t] master_read_step(3) [OF Cons.prems(1) r]
        Cons.prems(2-4) r t PtyMasterRead by simp
  qed
qed simp

lemma gains_canonical:
  assumes "is_canonical t" "\<forall>b\<in>set bs. \<not> flushes t b"
  shows "gains t l bs = cook_from t l (edited_bytes t bs)"
  using assms(2)
proof (induction bs arbitrary: l)
  case (Cons b bs)
  then show ?case using assms(1)
    by (cases "translate_input t b")
      (auto simp: edited_bytes_def map_filter_simps gained_def line_after_def split: prod.splits)
qed (simp add: edited_bytes_def map_filter_simps)

lemma gains_raw:
  "\<not> is_canonical t \<Longrightarrow> \<forall>b\<in>set bs. \<not> flushes t b \<Longrightarrow> gains t l bs = (filter (\<lambda>b. \<not> is_signal t b) bs, l)"
  by (induction bs arbitrary: l) (auto simp: gained_def line_after_def)

lemma gains_stream:
  assumes "\<forall>b\<in>set bs. \<not> flushes t b"
  shows "gains t [] bs =
    (input_stream t bs, if is_canonical t then edit_line t (snd (cut_lines t (edited_bytes t bs))) else [])"
  using assms by (simp add: gains_canonical gains_raw input_stream_def cook_from_lines)

lemma pty_trace_append:
  "pty_trace p (cs @ ds) =
    (case pty_trace p cs of (q, scr, inp) \<Rightarrow> (case pty_trace q ds of (p', scr', inp') \<Rightarrow> (p', scr @ scr', inp @ inp')))"
proof (induction cs arbitrary: p)
  case (Cons a cs)
  then show ?case by (cases a) (simp_all split: prod.splits)
qed simp

lemma trace_on_line:
  assumes "on_line t l p" "pty_trace p cs = (p', scr, inp)"
  shows "\<exists>l'. on_line t l' p'"
  using assms
proof (induction cs arbitrary: p' p l scr inp)
  case (Cons a cs)
  then show ?case
    by (cases a) (simp_all split: prod.splits,
      (metis type_step(1) write_step(1) slave_read_step(1) master_read_step(1))+)
qed auto

text \<open>C40. The two directions of a pseudo-terminal, for any attributes (canonical or raw, echoing or not, signal
  characters included) that stay unchanged, and any interleaving of typing, reads and writes from an empty line.
  The screen: what the master has read followed by what is still buffered is the echo of the typed bytes and the
  slave's output, in call order, each byte once through output processing.  The input: over any stretch \<open>bs\<close> of
  calls without a flushing signal character, what the slave has read followed by what is still available
  is what was available before followed by the typed bytes (without signal characters): in canonical
  mode cut into lines and edited line by line, in raw mode as typed.  A flushing signal character discards
  everything not yet read, so a stretch that follows one starts with nothing available and an empty line.\<close>

theorem pty_streams:
  assumes "line_buffer (pty_terminal p) = []" "t = pty_terminal p"
    and "as = [] \<or> (\<exists>as' b. as = as' @ [PtyType b] \<and> flushes t b)" "\<forall>b\<in>set (typed bs). \<not> flushes t b"
    and "pty_trace p as = (q, scr1, inp1)" "pty_trace p (as @ bs) = (p', scr, inp)"
  shows "scr @ output_buf p' = output_buf p @ concat (map (output_byte t) (screen_stream t [] (as @ bs))) \<and>
    (\<exists>inp2. inp = inp1 @ inp2 \<and>
       inp2 @ available p' = (if as = [] then available p else []) @ input_stream t (typed bs)) \<and>
    line_buffer (pty_terminal p') =
      (if is_canonical t then edit_line t (snd (cut_lines t (edited_bytes t (typed bs)))) else [])"
proof -
  have p: "on_line t [] p" using assms(1,2) by (intro on_lineI [where c = "cooked_buffer t"]) simp
  obtain scr2 inp2 where b: "pty_trace q bs = (p', scr2, inp2)" "inp = inp1 @ inp2"
    using assms(5,6) by (auto simp: pty_trace_append split: prod.splits)
  have q: "on_line t [] q \<and> available q = (if as = [] then available p else [])"
  proof (cases "as = []")
    case True
    then show ?thesis using assms(5) p by simp
  next
    case False
    then obtain as' b where a: "as = as' @ [PtyType b]" "flushes t b" using assms(3) by blast
    obtain q' scr' inp' where q': "pty_trace p as' = (q', scr', inp')" using surj_pair by metis
    then obtain l where l: "on_line t l q'" using trace_on_line [OF p] by blast
    have "q = fst (process_master_input q' b)" using assms(5) a(1) q' by (simp add: pty_trace_append)
    then show ?thesis using type_step [OF l, of b] a by (simp add: line_after_def)
  qed
  note g = input_trace [OF q [THEN conjunct1] b(1) assms(4) gains_stream [OF assms(4)]]
  then have "line_buffer (pty_terminal p') =
      (if is_canonical t then edit_line t (snd (cut_lines t (edited_bytes t (typed bs)))) else [])"
    by (auto simp: on_line_def)
  then show ?thesis using screen_trace [OF p assms(6)] b(2) q g by simp
qed

text \<open>
  The witness uses the default, echoing terminal: \<open>a\<close> is discarded by the interrupt character, then a line
  with a correction is typed while the slave writes and both sides read.
\<close>

definition pty_demo_before :: "pty_call list" where
  "pty_demo_before = [PtyType 0x61, PtyType 0x03]"

definition pty_demo_after :: "pty_call list" where
  "pty_demo_after = [PtyType 0x61, PtySlaveWrite [0x78, 0x0A], PtyType 0x62, PtyType 0x7F, PtyMasterRead 1,
     PtyType 0x0D, PtySlaveRead 9, PtyType 0x63, PtyMasterRead 99]"

theorem pty_streams_witness:
  "fst (snd (pty_trace pty_new (pty_demo_before @ pty_demo_after))) =
     [0x61, 0x5E, 0x43, 0x0D, 0x0A, 0x61, 0x78, 0x0D, 0x0A, 0x62, 0x08, 0x20, 0x08, 0x0D, 0x0A, 0x63] \<and>
   snd (snd (pty_trace pty_new (pty_demo_before @ pty_demo_after))) = [0x61, 0x0A]"
proof -
  define t where "t = pty_terminal pty_new"
  obtain q scr1 inp1 where b: "pty_trace pty_new pty_demo_before = (q, scr1, inp1)" using surj_pair by metis
  obtain p' scr inp where r: "pty_trace pty_new (pty_demo_before @ pty_demo_after) = (p', scr, inp)"
    using surj_pair by metis
  have h: "line_buffer t = []" "flushes t 0x03" "\<forall>b\<in>set (typed pty_demo_after). \<not> flushes t b"
    unfolding t_def by code_simp+
  have e: "output_buf (fst (pty_trace pty_new (pty_demo_before @ pty_demo_after))) = []"
    "available (fst (pty_trace pty_new (pty_demo_before @ pty_demo_after))) = []"
    "snd (snd (pty_trace pty_new pty_demo_before)) = []" by code_simp+
  have s: "concat (map (output_byte t) (screen_stream t [] (pty_demo_before @ pty_demo_after))) =
      [0x61, 0x5E, 0x43, 0x0D, 0x0A, 0x61, 0x78, 0x0D, 0x0A, 0x62, 0x08, 0x20, 0x08, 0x0D, 0x0A, 0x63]"
    "input_stream t (typed pty_demo_after) = [0x61, 0x0A]"
    unfolding t_def by code_simp+
  have "pty_demo_before = [PtyType 0x61] @ [PtyType 0x03]" by (simp add: pty_demo_before_def)
  then have a: "pty_demo_before = [] \<or> (\<exists>as' b. pty_demo_before = as' @ [PtyType b] \<and> flushes t b)"
    using h(2) by blast
  have n: "pty_demo_before \<noteq> []" by (simp add: pty_demo_before_def)
  have o: "output_buf pty_new = []" by (simp add: pty_new_def)
  show ?thesis
    using pty_streams [OF h(1) [unfolded t_def] t_def a h(3) b r] s e o n b r by simp
qed

section \<open>Raw mode skips input translation\<close>

text \<open>
  In raw mode the line discipline applies \<open>ICRNL\<close>, \<open>INLCR\<close> and \<open>IGNCR\<close> to its own copy of the
  byte, but the byte handed to the slave is the untranslated one.
\<close>

theorem pty_raw_ignores_iflag:
  "input_buf (fst (process_master_input
     (pty_new\<lparr> pty_terminal := terminal_new\<lparr> c_lflag := 0, c_iflag := ICRNL \<rparr> \<rparr>) 0x0D)) = [0x0D]"
  by code_simp

end
