(* ===== verification/Wire_Format.thy ===== *)
theory Wire_Format
  imports Ofd_Table
begin

text \<open>
  The byte buffer through which a process image crosses fork and exec: the \<open>Writer\<close> and
  \<open>Reader\<close> helpers of \<^verbatim>\<open>src/crates/kernel/src/fork.rs\<close>.  A writer operation
  fails with \<open>ENOMEM\<close> when the buffer is full, a reader operation with \<open>EINVAL\<close> when the
  input is short; \<open>w_seq\<close> and \<open>r_bind\<close> are the \<open>?\<close> operator.  Reading a graphics buffer
  handle takes a reference on the buffer object, and reading an open file description records its
  identity as used, so the reader carries the reference counts of the machine-wide registry
  (\<^verbatim>\<open>src/crates/kernel/src/dri/bo.rs\<close>) and the last identity handed out.
  The locale \<open>wire_format\<close> is the contract between the two halves of a format: what the writer
  appends, the reader takes back.
\<close>

unbundle bit_operations_syntax

section \<open>Little-endian integers\<close>

definition le_bytes :: "nat \<Rightarrow> 'a::len word \<Rightarrow> u8 list" where
  "le_bytes n w = map (\<lambda>i. ucast (drop_bit (8 * i) w)) [0..<n]"

fun le_word :: "u8 list \<Rightarrow> 'a::len word" where
  "le_word [] = 0"
| "le_word (b # bs) = ucast b OR push_bit 8 (le_word bs)"

lemma length_le_bytes [simp]: "length (le_bytes n w) = n"
  by (simp add: le_bytes_def)

lemma bit_le_word:
  "bit (le_word bs :: 'a::len word) m \<longleftrightarrow>
     m < LENGTH('a) \<and> m div 8 < length bs \<and> bit (bs ! (m div 8)) (m mod 8)"
proof (induction bs arbitrary: m)
  case (Cons b bs)
  show ?case
  proof (cases "m < 8")
    case True
    then show ?thesis by (simp add: bit_simps)
  next
    case False
    then obtain k where m: "m = k + 8" by (metis add.commute le_Suc_ex not_less)
    have "\<not> bit b m" using False bit_imp_le_length [of b m] by auto
    moreover have "(k + 8) div 8 = Suc (k div 8)" by simp
    ultimately show ?thesis using Cons.IH [of k] by (auto simp: bit_simps m)
  qed
qed simp

lemma le_word_bytes: "LENGTH('a) = 8 * n \<Longrightarrow> le_word (le_bytes n w) = (w :: 'a::len word)"
proof (rule bit_word_eqI)
  fix m assume len: "LENGTH('a) = 8 * n" and "m < LENGTH('a)"
  moreover from this have d: "m div 8 < n" by (simp add: less_mult_imp_div_less mult.commute)
  moreover have "8 * (m div 8) + m mod 8 = m" by simp
  ultimately have "bit (le_word (le_bytes n w) :: 'a word) m \<longleftrightarrow> m div 8 < n \<and> bit w m"
    by (simp add: bit_le_word le_bytes_def bit_simps)
  then show "bit (le_word (le_bytes n w) :: 'a word) m = bit w m" using d by blast
qed

section \<open>Writing\<close>

record writer =
  w_buf :: "u8 list"
  w_pos :: nat

type_synonym writer_op = "writer \<Rightarrow> writer \<times> unit result"

definition writer_new :: "u8 list \<Rightarrow> writer" where
  "writer_new buf = \<lparr> w_buf = buf, w_pos = 0 \<rparr>"

definition w_remaining :: "writer \<Rightarrow> nat" where
  "w_remaining w = length (w_buf w) - w_pos w"

definition w_put :: "u8 list \<Rightarrow> writer \<Rightarrow> writer" where
  "w_put data w =
     w\<lparr> w_buf := take (w_pos w) (w_buf w) @ data @ drop (w_pos w + length data) (w_buf w),
        w_pos := w_pos w + length data \<rparr>"

definition write_bytes :: "u8 list \<Rightarrow> writer_op" where
  "write_bytes data w =
     (if w_remaining w < length data then (w, Err ENOMEM) else (w_put data w, Ok ()))"

definition write_u8 :: "u8 \<Rightarrow> writer_op" where
  "write_u8 v = write_bytes [v]"

definition write_i32 :: "int \<Rightarrow> writer_op" where
  "write_i32 v = write_bytes (le_bytes 4 (word_of_int v :: u32))"

definition write_u16 :: "u16 \<Rightarrow> writer_op" where
  "write_u16 v = write_bytes (le_bytes 2 v)"

definition write_u32 :: "u32 \<Rightarrow> writer_op" where
  "write_u32 v = write_bytes (le_bytes 4 v)"

definition write_u64 :: "u64 \<Rightarrow> writer_op" where
  "write_u64 v = write_bytes (le_bytes 8 v)"

definition write_i64 :: "int \<Rightarrow> writer_op" where
  "write_i64 v = write_bytes (le_bytes 8 (word_of_int v :: u64))"

definition patch_u32 :: "nat \<Rightarrow> u32 \<Rightarrow> writer \<Rightarrow> writer" where
  "patch_u32 at v w = w\<lparr> w_buf := take at (w_buf w) @ le_bytes 4 v @ drop (at + 4) (w_buf w) \<rparr>"

text \<open>A sequence of writes, each followed by \<open>?\<close>.\<close>

fun w_seq :: "writer_op list \<Rightarrow> writer_op" where
  "w_seq [] w = (w, Ok ())"
| "w_seq (m # ms) w = (case m w of (w', Inl e) \<Rightarrow> (w', Inl e) | (w', Inr _) \<Rightarrow> w_seq ms w')"

declare w_seq.simps [simp del]

definition w_fail :: "errno \<Rightarrow> writer_op" where
  "w_fail e w = (w, Err e)"

text \<open>The casts \<open>as u32\<close> of indices, lengths and identifiers modelled as numbers.\<close>

abbreviation write_nat32 :: "nat \<Rightarrow> writer_op" where
  "write_nat32 n \<equiv> write_u32 (of_nat n)"

abbreviation write_nat64 :: "nat \<Rightarrow> writer_op" where
  "write_nat64 n \<equiv> write_u64 (of_nat n)"

abbreviation write_flag :: "bool \<Rightarrow> writer_op" where
  "write_flag b \<equiv> write_u32 (if b then 1 else 0)"

section \<open>Reading\<close>

definition bo_incref :: "bo_id \<Rightarrow> (bo_id \<rightharpoonup> u32) \<Rightarrow> (bo_id \<rightharpoonup> u32)" where
  "bo_incref i reg =
     (case reg i of
        None \<Rightarrow> reg
      | Some c \<Rightarrow> if c = - 1 then reg else reg(i \<mapsto> c + 1))"

text \<open>The machine-wide state that reading an image touches, and the two ways it does.\<close>

record shared_state =
  bo_refs :: "bo_id \<rightharpoonup> u32"
  last_ofd_id :: nat

datatype reader_effect = IncBo bo_id | ObserveOfd ofd_id

fun apply_effect :: "reader_effect \<Rightarrow> shared_state \<Rightarrow> shared_state" where
  "apply_effect (IncBo i) sh = sh\<lparr> bo_refs := bo_incref i (bo_refs sh) \<rparr>"
| "apply_effect (ObserveOfd i) sh = sh\<lparr> last_ofd_id := max (last_ofd_id sh) i \<rparr>"

record reader =
  r_buf :: "u8 list"
  r_pos :: nat
  r_shared :: shared_state

type_synonym 'a reader_op = "reader \<Rightarrow> reader \<times> 'a result"

definition reader_new :: "u8 list \<Rightarrow> shared_state \<Rightarrow> reader" where
  "reader_new buf sh = \<lparr> r_buf = buf, r_pos = 0, r_shared = sh \<rparr>"

definition r_remaining :: "reader \<Rightarrow> nat" where
  "r_remaining r = length (r_buf r) - r_pos r"

definition r_bind :: "'a reader_op \<Rightarrow> ('a \<Rightarrow> 'b reader_op) \<Rightarrow> 'b reader_op" where
  "r_bind m f r = (case m r of (r', Inl e) \<Rightarrow> (r', Inl e) | (r', Inr a) \<Rightarrow> f a r')"

definition r_ret :: "'a \<Rightarrow> 'a reader_op" where
  "r_ret a r = (r, Ok a)"

definition r_fail :: "errno \<Rightarrow> 'a reader_op" where
  "r_fail e r = (r, Err e)"

definition r_of :: "'a result \<Rightarrow> 'a reader_op" where
  "r_of res r = (r, res)"

definition r_incref :: "bo_id \<Rightarrow> unit reader_op" where
  "r_incref i r = (r\<lparr> r_shared := apply_effect (IncBo i) (r_shared r) \<rparr>, Ok ())"

definition read_bytes :: "nat \<Rightarrow> u8 list reader_op" where
  "read_bytes n r =
     (if r_remaining r < n then (r, Err EINVAL)
      else (r\<lparr> r_pos := r_pos r + n \<rparr>, Ok (take n (drop (r_pos r) (r_buf r)))))"

definition read_u8 :: "u8 reader_op" where
  "read_u8 = r_bind (read_bytes 1) (\<lambda>bs. r_ret (le_word bs))"

definition read_u16 :: "u16 reader_op" where
  "read_u16 = r_bind (read_bytes 2) (\<lambda>bs. r_ret (le_word bs))"

definition read_u32 :: "u32 reader_op" where
  "read_u32 = r_bind (read_bytes 4) (\<lambda>bs. r_ret (le_word bs))"

definition read_i32 :: "int reader_op" where
  "read_i32 = r_bind (read_bytes 4) (\<lambda>bs. r_ret (sint (le_word bs :: u32)))"

definition read_u64 :: "u64 reader_op" where
  "read_u64 = r_bind (read_bytes 8) (\<lambda>bs. r_ret (le_word bs))"

definition read_i64 :: "int reader_op" where
  "read_i64 = r_bind (read_bytes 8) (\<lambda>bs. r_ret (sint (le_word bs :: u64)))"

definition read_bounded_bytes :: "nat \<Rightarrow> nat \<Rightarrow> u8 list reader_op" where
  "read_bounded_bytes len lim = (if lim < len then r_fail EINVAL else read_bytes len)"

text \<open>\<open>for _ in 0..n\<close> around an accumulator.\<close>

fun r_loop :: "nat \<Rightarrow> ('s \<Rightarrow> 's reader_op) \<Rightarrow> 's \<Rightarrow> 's reader_op" where
  "r_loop 0 step s = r_ret s"
| "r_loop (Suc n) step s = r_bind (step s) (r_loop n step)"

definition r_push :: "'a reader_op \<Rightarrow> 'a list \<Rightarrow> 'a list reader_op" where
  "r_push m acc = r_bind m (\<lambda>a. r_ret (acc @ [a]))"

text \<open>The casts from \<open>u32\<close> and \<open>u64\<close> back to numbers, and \<open>u32 as i32\<close>.\<close>

definition read_nat32 :: "nat reader_op" where
  "read_nat32 = r_bind read_u32 (\<lambda>v. r_ret (unat v))"

definition read_nat64 :: "nat reader_op" where
  "read_nat64 = r_bind read_u64 (\<lambda>v. r_ret (unat v))"

definition read_flag :: "bool reader_op" where
  "read_flag = r_bind read_u32 (\<lambda>v. r_ret (v \<noteq> 0))"

definition write_bounded_len :: "nat \<Rightarrow> nat \<Rightarrow> writer_op" where
  "write_bounded_len len lim =
     (if lim < len \<or> U32_MAX < len then w_fail EINVAL else write_nat32 len)"

definition read_bounded_count :: "nat \<Rightarrow> nat reader_op" where
  "read_bounded_count lim =
     r_bind read_nat32 (\<lambda>count. if lim < count then r_fail EINVAL else r_ret count)"

section \<open>What a writer appends\<close>

text \<open>
  \<open>emits m bs\<close>: with room for \<open>bs\<close> the writer appends exactly those bytes; without, it
  reports \<open>ENOMEM\<close>.
\<close>

definition w_ok :: "writer \<Rightarrow> bool" where
  "w_ok w \<longleftrightarrow> w_pos w \<le> length (w_buf w)"

definition emits :: "writer_op \<Rightarrow> u8 list \<Rightarrow> bool" where
  "emits m bs \<longleftrightarrow>
     (\<forall>w. w_ok w \<longrightarrow>
        (if length bs \<le> w_remaining w then m w = (w_put bs w, Ok ())
         else \<exists>w'. m w = (w', Err ENOMEM)))"

text \<open>The pieces of a format, in order; kept folded so that the rules below apply piecewise.\<close>

definition cat :: "u8 list list \<Rightarrow> u8 list" where
  "cat bss = concat bss"

lemma w_put_Nil [simp]: "w_ok w \<Longrightarrow> w_put [] w = w"
  by (simp add: w_put_def)

lemma w_put_ok: "w_ok w \<Longrightarrow> length bs \<le> w_remaining w \<Longrightarrow> w_ok (w_put bs w)"
  by (simp add: w_ok_def w_put_def w_remaining_def)

lemma w_remaining_put:
  "w_ok w \<Longrightarrow> length bs \<le> w_remaining w \<Longrightarrow> w_remaining (w_put bs w) = w_remaining w - length bs"
  by (simp add: w_ok_def w_put_def w_remaining_def)

lemma w_put_put:
  "w_ok w \<Longrightarrow> length (bs @ cs) \<le> w_remaining w \<Longrightarrow> w_put cs (w_put bs w) = w_put (bs @ cs) w"
  by (simp add: w_ok_def w_put_def w_remaining_def ac_simps)

lemma emits_unique: "emits m bs \<Longrightarrow> emits m cs \<Longrightarrow> bs = cs"
proof -
  assume m: "emits m bs" "emits m cs"
  define w where "w = writer_new (replicate (length bs + length cs) 0)"
  have w: "w_ok w" "w_remaining w = length bs + length cs" "w_pos w = 0" "length (w_buf w) = length bs + length cs"
    by (simp_all add: w_def w_ok_def w_remaining_def writer_new_def)
  have "m w = (w_put bs w, Ok ())" using m(1) [unfolded emits_def, rule_format, OF w(1)] w(2) by simp
  moreover have "m w = (w_put cs w, Ok ())" using m(2) [unfolded emits_def, rule_format, OF w(1)] w(2) by simp
  ultimately have eq: "w_put bs w = w_put cs w" by simp
  have put: "w_pos (w_put ds w) = length ds" "take (length ds) (w_buf (w_put ds w)) = ds" for ds
    by (simp_all add: w_put_def w(3))
  have len: "length bs = length cs" using put(1) [of bs] put(1) [of cs] eq by simp
  have "bs = take (length bs) (w_buf (w_put bs w))" by (simp only: put(2))
  also have "\<dots> = cs" unfolding eq len put(2) ..
  finally show ?thesis .
qed

lemma emits_bytes: "emits (write_bytes bs) bs"
  by (simp add: emits_def write_bytes_def)

lemma emits_Nil: "emits (w_seq []) (cat [])"
  by (simp add: emits_def cat_def w_seq.simps)

lemma emits_Cons:
  assumes "emits m b" "emits (w_seq ms) (cat bs)"
  shows "emits (w_seq (m # ms)) (cat (b # bs))"
  unfolding emits_def
proof (intro allI impI)
  fix w assume w: "w_ok w"
  show "if length (cat (b # bs)) \<le> w_remaining w
        then w_seq (m # ms) w = (w_put (cat (b # bs)) w, Ok ())
        else \<exists>w'. w_seq (m # ms) w = (w', Err ENOMEM)"
  proof (cases "length b \<le> w_remaining w")
    case True
    then have m: "m w = (w_put b w, Ok ())" using assms(1) w by (simp add: emits_def)
    have "if length (cat bs) \<le> w_remaining w - length b
          then w_seq ms (w_put b w) = (w_put (cat bs) (w_put b w), Ok ())
          else \<exists>w'. w_seq ms (w_put b w) = (w', Err ENOMEM)"
      using assms(2) w_put_ok [OF w True] w_remaining_put [OF w True] by (simp add: emits_def)
    then show ?thesis using True m w
      by (auto simp: cat_def w_put_put w_seq.simps split: if_splits)
  next
    case False
    then obtain w' where "m w = (w', Err ENOMEM)" using assms(1) w unfolding emits_def by (meson)
    then show ?thesis using False by (simp add: cat_def w_seq.simps)
  qed
qed

lemma emits_u8: "emits (write_u8 v) [v]"
  by (simp add: write_u8_def emits_bytes)

lemma emits_u16: "emits (write_u16 v) (le_bytes 2 v)"
  by (simp add: write_u16_def emits_bytes)

lemma emits_u32: "emits (write_u32 v) (le_bytes 4 v)"
  by (simp add: write_u32_def emits_bytes)

lemma emits_u64: "emits (write_u64 v) (le_bytes 8 v)"
  by (simp add: write_u64_def emits_bytes)

lemma emits_i32: "emits (write_i32 v) (le_bytes 4 (word_of_int v :: u32))"
  by (simp add: write_i32_def emits_bytes)

lemma emits_i64: "emits (write_i64 v) (le_bytes 8 (word_of_int v :: u64))"
  by (simp add: write_i64_def emits_bytes)

lemma emits_bounded_len:
  "len \<le> lim \<Longrightarrow> len \<le> U32_MAX \<Longrightarrow> emits (write_bounded_len len lim) (le_bytes 4 (of_nat len :: u32))"
  by (simp add: write_bounded_len_def emits_u32)

section \<open>What a reader takes back\<close>

text \<open>
  \<open>parses m bs a ids\<close>: in front of the bytes \<open>bs\<close> the reader consumes exactly them, returns
  \<open>a\<close>, and has the machine-wide effects \<open>ids\<close>.
\<close>

definition parses :: "'a reader_op \<Rightarrow> u8 list \<Rightarrow> 'a \<Rightarrow> reader_effect list \<Rightarrow> bool" where
  "parses m bs a ids \<longleftrightarrow>
     (\<forall>r rest. drop (r_pos r) (r_buf r) = bs @ rest \<longrightarrow>
        m r = (r\<lparr> r_pos := r_pos r + length bs, r_shared := fold apply_effect ids (r_shared r) \<rparr>, Ok a))"

lemma parses_ret: "parses (r_ret a) (cat []) a []"
  by (simp add: parses_def r_ret_def cat_def)

lemma parses_bind:
  assumes "parses m b a is" "parses (f a) (cat bs) c js"
  shows "parses (r_bind m f) (cat (b # bs)) c (is @ js)"
  unfolding parses_def
proof (intro allI impI)
  fix r :: reader and rest assume r: "drop (r_pos r) (r_buf r) = cat (b # bs) @ rest"
  let ?r = "r\<lparr> r_pos := r_pos r + length b, r_shared := fold apply_effect is (r_shared r) \<rparr>"
  have "m r = (?r, Ok a)" using assms(1) r by (simp add: parses_def cat_def)
  moreover have "drop (r_pos ?r) (r_buf ?r) = cat bs @ rest"
    using arg_cong [OF r, of "drop (length b)"] by (simp add: cat_def add.commute)
  ultimately show "r_bind m f r =
      (r\<lparr> r_pos := r_pos r + length (cat (b # bs)), r_shared := fold apply_effect (is @ js) (r_shared r) \<rparr>, Ok c)"
    using assms(2) by (simp add: r_bind_def parses_def cat_def add.assoc)
qed

lemma parses_bind_pure:
  "parses m b a [] \<Longrightarrow> parses (f a) (cat bs) c js \<Longrightarrow> parses (r_bind m f) (cat (b # bs)) c js"
  using parses_bind [of m b a "[]" f bs c js] by simp

lemma parses_bind_ret: "parses m bs a ids \<Longrightarrow> parses (r_bind m (\<lambda>a. r_ret (g a))) bs (g a) ids"
  using parses_bind [of m bs a ids "\<lambda>a. r_ret (g a)" "[]" "g a" "[]"]
  by (simp add: parses_ret [unfolded cat_def, simplified] cat_def)

lemma parses_bytes: "length bs = n \<Longrightarrow> parses (read_bytes n) bs bs []"
  unfolding parses_def
proof (intro allI impI)
  fix r :: reader and rest assume n: "length bs = n" and r: "drop (r_pos r) (r_buf r) = bs @ rest"
  from r have "r_remaining r = length bs + length rest"
    unfolding r_remaining_def by (metis length_append length_drop)
  then show "read_bytes n r =
      (r\<lparr> r_pos := r_pos r + length bs, r_shared := fold apply_effect [] (r_shared r) \<rparr>, Ok bs)"
    using n r by (simp add: read_bytes_def)
qed

lemma parses_u8: "parses read_u8 [v] v []"
  using parses_bind_ret [OF parses_bytes [of "le_bytes 1 v" 1], of "le_word :: _ \<Rightarrow> u8"]
  by (simp add: read_u8_def le_word_bytes) (simp add: le_bytes_def)

lemma parses_u16: "parses read_u16 (le_bytes 2 v) v []"
  using parses_bind_ret [OF parses_bytes [of "le_bytes 2 v" 2], of "le_word :: _ \<Rightarrow> u16"]
  by (simp add: read_u16_def le_word_bytes)

lemma parses_u32: "parses read_u32 (le_bytes 4 v) v []"
  using parses_bind_ret [OF parses_bytes [of "le_bytes 4 v" 4], of "le_word :: _ \<Rightarrow> u32"]
  by (simp add: read_u32_def le_word_bytes)

lemma parses_u64: "parses read_u64 (le_bytes 8 v) v []"
  using parses_bind_ret [OF parses_bytes [of "le_bytes 8 v" 8], of "le_word :: _ \<Rightarrow> u64"]
  by (simp add: read_u64_def le_word_bytes)

definition is_i32 :: "int \<Rightarrow> bool" where
  "is_i32 v \<longleftrightarrow> - (2 ^ 31) \<le> v \<and> v < 2 ^ 31"

definition is_i64 :: "int \<Rightarrow> bool" where
  "is_i64 v \<longleftrightarrow> - (2 ^ 63) \<le> v \<and> v < 2 ^ 63"

lemma sint_i32: "is_i32 v \<Longrightarrow> sint (word_of_int v :: u32) = v"
  by (simp add: is_i32_def signed_of_int signed_take_bit_int_eq_self)

lemma sint_i64: "is_i64 v \<Longrightarrow> sint (word_of_int v :: u64) = v"
  by (simp add: is_i64_def signed_of_int signed_take_bit_int_eq_self)

lemma parses_i32: "is_i32 v \<Longrightarrow> parses read_i32 (le_bytes 4 (word_of_int v :: u32)) v []"
  using parses_bind_ret [OF parses_bytes [of "le_bytes 4 (word_of_int v :: u32)" 4],
      of "\<lambda>bs. sint (le_word bs :: u32)"]
  by (simp add: read_i32_def le_word_bytes sint_i32)

lemma parses_i64: "is_i64 v \<Longrightarrow> parses read_i64 (le_bytes 8 (word_of_int v :: u64)) v []"
  using parses_bind_ret [OF parses_bytes [of "le_bytes 8 (word_of_int v :: u64)" 8],
      of "\<lambda>bs. sint (le_word bs :: u64)"]
  by (simp add: read_i64_def le_word_bytes sint_i64)

lemma parses_nat32: "n < 2 ^ 32 \<Longrightarrow> parses read_nat32 (le_bytes 4 (of_nat n :: u32)) n []"
  using parses_bind_ret [OF parses_u32 [of "of_nat n"], of unat]
  by (simp add: read_nat32_def unsigned_of_nat take_bit_nat_eq_self)

lemma parses_nat64: "n < 2 ^ 64 \<Longrightarrow> parses read_nat64 (le_bytes 8 (of_nat n :: u64)) n []"
  using parses_bind_ret [OF parses_u64 [of "of_nat n"], of unat]
  by (simp add: read_nat64_def unsigned_of_nat take_bit_nat_eq_self)

lemma parses_flag: "parses read_flag (le_bytes 4 (if b then 1 else 0 :: u32)) b []"
  using parses_bind_ret [OF parses_u32 [of "if b then 1 else 0"], of "\<lambda>v. v \<noteq> 0"]
  by (cases b) (simp_all add: read_flag_def)

lemma parses_bounded_bytes:
  "length bs = n \<Longrightarrow> n \<le> lim \<Longrightarrow> parses (read_bounded_bytes n lim) bs bs []"
  by (simp add: read_bounded_bytes_def parses_bytes)

lemma parses_bounded_count:
  "n \<le> lim \<Longrightarrow> n < 2 ^ 32 \<Longrightarrow> parses (read_bounded_count lim) (le_bytes 4 (of_nat n :: u32)) n []"
  unfolding read_bounded_count_def
  using parses_bind_pure [OF parses_nat32, of n "\<lambda>count. if lim < count then r_fail EINVAL else r_ret count" "[]" n "[]"]
  by (simp add: parses_ret) (simp add: cat_def)

section \<open>Writers and readers that agree\<close>

text \<open>
  \<open>wire m g a ids n\<close>: there is one byte string of at least \<open>n\<close> bytes which \<open>m\<close> appends and
  from which \<open>g\<close> gets back \<open>a\<close> with the effects \<open>ids\<close>.  The rules below follow the two
  functions of a format field by field.
\<close>

definition wire :: "writer_op \<Rightarrow> 'a reader_op \<Rightarrow> 'a \<Rightarrow> reader_effect list \<Rightarrow> nat \<Rightarrow> bool" where
  "wire m g a ids n \<longleftrightarrow> (\<exists>bs. n \<le> length bs \<and> emits m bs \<and> parses g bs a ids)"

text \<open>\<open>if r.remaining() >= n\<close>.\<close>

definition r_guard :: "nat \<Rightarrow> 'a reader_op \<Rightarrow> 'a reader_op \<Rightarrow> 'a reader_op" where
  "r_guard n g d r = (if n \<le> r_remaining r then g r else d r)"

text \<open>\<open>read().unwrap_or(d)\<close>.\<close>

definition r_or :: "'a reader_op \<Rightarrow> 'a \<Rightarrow> 'a reader_op" where
  "r_or g d r = (case g r of (r', Inl _) \<Rightarrow> (r', Ok d) | (r', Inr a) \<Rightarrow> (r', Ok a))"

lemma wire_weaken: "wire m g a ids k \<Longrightarrow> n \<le> k \<Longrightarrow> wire m g a ids n"
  unfolding wire_def using order_trans by blast

lemma wire_refs: "wire m g a ids n \<Longrightarrow> ids = ids' \<Longrightarrow> a = b \<Longrightarrow> wire m g b ids' n"
  by simp

lemma wire_ret: "a = b \<Longrightarrow> wire (w_seq []) (r_ret a) b [] 0"
  unfolding wire_def by (intro exI [of _ "cat []"]) (simp add: emits_Nil parses_ret)

lemma wire_bind:
  assumes "wire m g a is k" "wire (w_seq ms) (f a) b js l"
  shows "wire (w_seq (m # ms)) (r_bind g f) b (is @ js) (k + l)"
proof -
  obtain bs cs where "k \<le> length bs" "emits m bs" "parses g bs a is"
    "l \<le> length cs" "emits (w_seq ms) cs" "parses (f a) cs b js"
    using assms unfolding wire_def by blast
  moreover have "cs = cat [cs]" by (simp add: cat_def)
  ultimately have "emits (w_seq (m # ms)) (cat [bs, cs])" "parses (r_bind g f) (cat [bs, cs]) b (is @ js)"
    "k + l \<le> length (cat [bs, cs])"
    using emits_Cons [of m bs ms "[cs]"] parses_bind [of g bs a "is" f "[cs]" b js]
    by (simp_all add: cat_def)
  then show ?thesis unfolding wire_def by blast
qed

lemma wire_bind_pure:
  "wire m g a [] k \<Longrightarrow> wire (w_seq ms) (f a) b js l \<Longrightarrow> wire (w_seq (m # ms)) (r_bind g f) b js (k + l)"
  using wire_bind [of m g a "[]" k ms f b js l] by simp

lemma wire_guard:
  assumes "wire m g a ids k" "n \<le> k"
  shows "wire m (r_guard n g d) a ids k"
proof -
  obtain bs where bs: "k \<le> length bs" "emits m bs" "parses g bs a ids"
    using assms(1) unfolding wire_def by blast
  have "parses (r_guard n g d) bs a ids"
    unfolding parses_def
  proof (intro allI impI)
    fix r :: reader and rest assume r: "drop (r_pos r) (r_buf r) = bs @ rest"
    then have "r_remaining r = length bs + length rest"
      unfolding r_remaining_def by (metis length_append length_drop)
    then have "n \<le> r_remaining r" using assms(2) bs(1) by simp
    then show "r_guard n g d r =
        (r\<lparr> r_pos := r_pos r + length bs, r_shared := fold apply_effect ids (r_shared r) \<rparr>, Ok a)"
      using bs(3) r by (simp add: parses_def r_guard_def)
  qed
  then show ?thesis unfolding wire_def using bs by blast
qed

lemma wire_or: "wire m g a ids k \<Longrightarrow> wire m (r_or g d) a ids k"
  unfolding wire_def parses_def r_or_def by fastforce

lemma wire_map: "wire m g a ids k \<Longrightarrow> h a = b \<Longrightarrow> wire m (r_bind g (\<lambda>a. r_ret (h a))) b ids k"
  unfolding wire_def using parses_bind_ret by metis

lemma wire_of: "wire m g a ids k \<Longrightarrow> h a = Ok b \<Longrightarrow> wire m (r_bind g (\<lambda>a. r_of (h a))) b ids k"
proof -
  assume w: "wire m g a ids k" and h: "h a = Ok b"
  have "r_bind g (\<lambda>a. r_of (h a)) r = (r', Ok b)" if "g r = (r', Ok a)" for r r'
    using that h by (simp add: r_bind_def r_of_def)
  then show ?thesis using w unfolding wire_def parses_def by blast
qed

lemma wire_incref: "wire m (f ()) a ids k \<Longrightarrow> wire m (r_bind (r_incref i) f) a (IncBo i # ids) k"
  unfolding wire_def parses_def
  by (elim exE conjE, rename_tac bs, rule_tac x = bs in exI) (simp add: r_bind_def r_incref_def)

lemma wire_intro: "emits m bs \<Longrightarrow> parses g bs a ids \<Longrightarrow> wire m g a ids (length bs)"
  unfolding wire_def by blast

lemma wire_seq_single: "wire (w_seq [m]) g a ids k \<longleftrightarrow> wire m g a ids k"
proof -
  have "w_seq [m] = m" by (rule ext) (auto simp: w_seq.simps split: prod.splits sum.splits)
  then show ?thesis by simp
qed

lemma wire_single: "wire m g a ids k \<Longrightarrow> wire (w_seq [m]) g a ids k"
  by (simp add: wire_seq_single)

lemmas wire_u8 = wire_intro [OF emits_u8 parses_u8, simplified]
lemmas wire_u16 = wire_intro [OF emits_u16 parses_u16, simplified]
lemmas wire_u32 = wire_intro [OF emits_u32 parses_u32, simplified]
lemmas wire_u64 = wire_intro [OF emits_u64 parses_u64, simplified]
lemmas wire_i32 = wire_intro [OF emits_i32 parses_i32, simplified]
lemmas wire_i64 = wire_intro [OF emits_i64 parses_i64, simplified]
lemmas wire_nat32 = wire_intro [OF emits_u32 parses_nat32, unfolded length_le_bytes]
lemmas wire_nat64 = wire_intro [OF emits_u64 parses_nat64, unfolded length_le_bytes]
lemmas wire_flag = wire_intro [OF emits_u32 parses_flag, unfolded length_le_bytes]
lemmas wire_bytes = wire_intro [OF emits_bytes parses_bytes]
lemmas wire_bounded_bytes = wire_intro [OF emits_bytes parses_bounded_bytes]
lemmas wire_bounded_count = wire_intro [OF emits_bounded_len parses_bounded_count, unfolded length_le_bytes]

lemmas wire_rules = wire_ret wire_bind_pure wire_u8 wire_u16 wire_u32 wire_u64 wire_i32 wire_i64
  wire_nat32 wire_nat64 wire_flag wire_bytes wire_bounded_bytes wire_bounded_count wire_guard wire_or

lemma concat_map_Nil [simp]: "concat (map (\<lambda>x. []) xs) = []"
  by (induction xs) simp_all

text \<open>A loop over a list: each element written in turn, each read into the accumulator.\<close>

lemma wire_fold_inv:
  assumes "\<And>s a xs. I s (a # xs) \<Longrightarrow> wire (put a) (step s) (f s a) (refs a) least \<and> I (f s a) xs"
    and "I s xs"
  shows "wire (w_seq (map put xs)) (r_loop (length xs) step s) (foldl f s xs) (concat (map refs xs))
     (length xs * least)"
  using assms(2)
proof (induction xs arbitrary: s)
  case (Cons a xs)
  have "wire (put a) (step s) (f s a) (refs a) least" and I: "I (f s a) xs" using assms(1) Cons.prems by auto
  moreover have "wire (w_seq (map put xs)) (r_loop (length xs) step (f s a)) (foldl f (f s a) xs)
      (concat (map refs xs)) (length xs * least)"
    using I by (rule Cons.IH)
  ultimately show ?case
    using wire_bind [of "put a" "step s" "f s a" "refs a" least "map put xs" "r_loop (length xs) step"] by simp
qed (simp add: wire_ret)

lemma wire_fold:
  assumes "\<And>s a. a \<in> set xs \<Longrightarrow> wire (put a) (step s) (f s a) (refs a) least"
  shows "wire (w_seq (map put xs)) (r_loop (length xs) step s) (foldl f s xs) (concat (map refs xs))
     (length xs * least)"
  using assms by (intro wire_fold_inv [where I = "\<lambda>_ ys. set ys \<subseteq> set xs"]) auto

section \<open>The contract of a format\<close>

text \<open>
  \<open>put\<close> and \<open>get\<close> are the two functions of a format.  Reading gives \<open>view a\<close>, which is \<open>a\<close> with
  what the format leaves out reset, and has the machine-wide effects \<open>refs a\<close>; every
  image has at least \<open>least\<close> bytes.
\<close>

locale wire_format =
  fixes put :: "'a \<Rightarrow> writer_op"
    and get :: "'b reader_op"
    and valid :: "'a \<Rightarrow> bool"
    and view :: "'a \<Rightarrow> 'b"
    and refs :: "'a \<Rightarrow> reader_effect list"
    and least :: nat
  assumes agrees: "valid a \<Longrightarrow> wire (put a) get (view a) (refs a) least"
begin

lemma fold_agrees:
  assumes "\<And>s a. valid a \<Longrightarrow> wire (put a) (step s) (f s a) (refs a) least" and "list_all valid xs"
  shows "wire (w_seq (map put xs)) (r_loop (length xs) step s) (foldl f s xs) (concat (map refs xs))
     (length xs * least)"
  using assms by (intro wire_fold) (auto simp: list_all_iff)

lemma push_agrees:
  assumes "list_all valid xs"
  shows "wire (w_seq (map put xs)) (r_loop (length xs) (r_push get) acc) (acc @ map view xs)
     (concat (map refs xs)) (length xs * least)"
proof -
  have "wire (w_seq (map put xs)) (r_loop (length xs) (r_push get) acc)
      (foldl (\<lambda>acc a. acc @ [view a]) acc xs) (concat (map refs xs)) (length xs * least)"
    using assms by (intro fold_agrees) (auto simp: r_push_def intro: wire_map agrees)
  moreover have "foldl (\<lambda>acc a. acc @ [view a]) acc xs = acc @ map view xs"
    by (induction xs arbitrary: acc) simp_all
  ultimately show ?thesis by simp
qed

end

section \<open>Byte strings\<close>

text \<open>A length and that many bytes, the length bounded when it is read back.\<close>

definition write_string :: "u8 list \<Rightarrow> writer_op" where
  "write_string s = w_seq [write_nat32 (length s), write_bytes s]"

definition read_string :: "nat \<Rightarrow> u8 list reader_op" where
  "read_string lim = r_bind read_nat32 (\<lambda>len. read_bounded_bytes len lim)"

lemma wire_string: "length s \<le> lim \<Longrightarrow> length s < 2 ^ 32 \<Longrightarrow> wire (write_string s) (read_string lim) s [] 4"
  unfolding write_string_def read_string_def
  by (rule wire_weaken, rule wire_bind_pure [OF wire_nat32], assumption,
      rule wire_single, rule wire_bounded_bytes) auto

end
