(* ===== verification/Fork_Files.thy ===== *)
theory Fork_Files
  imports Wire_Format Fd_Table
begin

text \<open>
  Descriptors across fork and exec (\<^verbatim>\<open>src/crates/kernel/src/fork.rs\<close>): the encodings of
  file types, file identities and graphics sidecars, and the sections of the process image that
  hold the descriptor table and the open file descriptions.  The lemmas show that the receiving side
  gets the descriptors that are not marked close-on-fork (close-on-exec), the descriptions those
  refer to at their old indices, and reference counts that count exactly the inherited descriptors.
\<close>

unbundle bit_operations_syntax

definition FD_CLOEXEC :: u32 where "FD_CLOEXEC = 1"
definition FD_CLOFORK :: u32 where "FD_CLOFORK = 2"
definition MAX_FDS :: u32 where "MAX_FDS = 65536"
definition MAX_OFDS :: u32 where "MAX_OFDS = 65536"
definition MAX_PATH_LEN :: nat where "MAX_PATH_LEN = 1048576"

section \<open>File types and identities\<close>

fun file_type_to_u32 :: "file_type \<Rightarrow> u32" where
  "file_type_to_u32 Regular = 0"
| "file_type_to_u32 Directory = 1"
| "file_type_to_u32 Pipe = 2"
| "file_type_to_u32 CharDevice = 3"
| "file_type_to_u32 Socket = 4"
| "file_type_to_u32 EventFd = 5"
| "file_type_to_u32 Epoll = 6"
| "file_type_to_u32 TimerFd = 7"
| "file_type_to_u32 SignalFd = 8"
| "file_type_to_u32 MemFd = 9"
| "file_type_to_u32 PtyMaster = 10"
| "file_type_to_u32 PtySlave = 11"

definition u32_to_file_type :: "u32 \<Rightarrow> file_type result" where
  "u32_to_file_type v =
     (if v = 0 then Ok Regular else if v = 1 then Ok Directory else if v = 2 then Ok Pipe
      else if v = 3 then Ok CharDevice else if v = 4 then Ok Socket else if v = 5 then Ok EventFd
      else if v = 6 then Ok Epoll else if v = 7 then Ok TimerFd else if v = 8 then Ok SignalFd
      else if v = 9 then Ok MemFd else if v = 10 then Ok PtyMaster else if v = 11 then Ok PtySlave
      else Err EINVAL)"

definition FILE_ID_NONE :: u8 where "FILE_ID_NONE = 0"
definition FILE_ID_HOST :: u8 where "FILE_ID_HOST = 1"
definition FILE_ID_KERNEL_MEMFD :: u8 where "FILE_ID_KERNEL_MEMFD = 2"
definition FILE_ID_KERNEL_SYNTHETIC_REGULAR :: u8 where "FILE_ID_KERNEL_SYNTHETIC_REGULAR = 3"
definition FILE_ID_KERNEL_PROCFS_REGULAR :: u8 where "FILE_ID_KERNEL_PROCFS_REGULAR = 4"

fun write_file_id :: "file_id option \<Rightarrow> writer_op" where
  "write_file_id None = w_seq [write_u8 FILE_ID_NONE]"
| "write_file_id (Some (HostFile d i)) = w_seq [write_u8 FILE_ID_HOST, write_nat64 d, write_nat64 i]"
| "write_file_id (Some (KernelFile MemFdFile obj)) =
     w_seq [write_u8 FILE_ID_KERNEL_MEMFD, write_nat64 obj]"
| "write_file_id (Some (KernelFile SyntheticRegular obj)) =
     w_seq [write_u8 FILE_ID_KERNEL_SYNTHETIC_REGULAR, write_nat64 obj]"
| "write_file_id (Some (KernelFile ProcFsRegular obj)) =
     w_seq [write_u8 FILE_ID_KERNEL_PROCFS_REGULAR, write_nat64 obj]"

definition read_file_id :: "file_id option reader_op" where
  "read_file_id =
     r_bind read_u8 (\<lambda>tag.
       if tag = FILE_ID_NONE then r_ret None
       else if tag = FILE_ID_HOST then
         r_bind read_nat64 (\<lambda>d. r_bind read_nat64 (\<lambda>i. r_ret (Some (HostFile d i))))
       else if tag = FILE_ID_KERNEL_MEMFD then
         r_bind read_nat64 (\<lambda>obj. r_ret (Some (KernelFile MemFdFile obj)))
       else if tag = FILE_ID_KERNEL_SYNTHETIC_REGULAR then
         r_bind read_nat64 (\<lambda>obj. r_ret (Some (KernelFile SyntheticRegular obj)))
       else if tag = FILE_ID_KERNEL_PROCFS_REGULAR then
         r_bind read_nat64 (\<lambda>obj. r_ret (Some (KernelFile ProcFsRegular obj)))
       else r_fail EINVAL)"

section \<open>Graphics sidecars\<close>

definition DRI_TAG_NONE :: u8 where "DRI_TAG_NONE = 0"
definition DRI_TAG_RENDER_NODE :: u8 where "DRI_TAG_RENDER_NODE = 1"
definition DRI_TAG_CARD :: u8 where "DRI_TAG_CARD = 2"
definition DRI_TAG_PRIME_BO :: u8 where "DRI_TAG_PRIME_BO = 3"

definition write_handle :: "nat \<times> bo_id \<Rightarrow> writer_op" where
  "write_handle p = w_seq [write_nat32 (fst p), write_nat32 (snd p)]"

definition write_dri_fd_state :: "dri_fd_state \<Rightarrow> writer_op" where
  "write_dri_fd_state d =
     w_seq [write_nat32 (length (handles d)), w_seq (map write_handle (handles d)),
            write_nat32 (next_handle d)]"

definition write_fb :: "nat \<times> kms_fb \<Rightarrow> writer_op" where
  "write_fb p =
     w_seq [write_nat32 (fst p), write_nat32 (fb_bo_id (snd p)), write_nat32 (fb_width (snd p)),
            write_nat32 (fb_height (snd p)), write_nat32 (pixel_format (snd p)),
            write_nat32 (fb_stride (snd p))]"

definition write_flip :: "pending_flip \<Rightarrow> writer_op" where
  "write_flip f =
     w_seq [write_nat32 (flip_crtc_id f), write_nat32 (flip_fb_id f), write_nat64 (user_data f)]"

definition write_kms_fd_state :: "kms_fd_state \<Rightarrow> bool \<Rightarrow> writer_op" where
  "write_kms_fd_state k preserve_master =
     w_seq [write_u8 (if preserve_master \<and> holds_master k then 1 else 0),
            write_nat32 (length (fbs k)), w_seq (map write_fb (fbs k)), write_nat32 (next_fb_id k),
            write_nat32 (length (pending_flips k)), w_seq (map write_flip (pending_flips k))]"

fun write_dri_state :: "dri_ofd_state option \<Rightarrow> bool \<Rightarrow> writer_op" where
  "write_dri_state None preserve_master = w_seq [write_u8 DRI_TAG_NONE]"
| "write_dri_state (Some (RenderNode d)) preserve_master =
     w_seq [write_u8 DRI_TAG_RENDER_NODE, write_dri_fd_state d]"
| "write_dri_state (Some (Card d k)) preserve_master =
     w_seq [write_u8 DRI_TAG_CARD, write_dri_fd_state d, write_kms_fd_state k preserve_master]"
| "write_dri_state (Some (PrimeBo p)) preserve_master =
     w_seq [write_u8 DRI_TAG_PRIME_BO, write_nat32 (prime_bo_id p), write_nat64 (prime_cookie p)]"

definition read_handle :: "(nat \<times> bo_id) reader_op" where
  "read_handle =
     r_bind read_nat32 (\<lambda>h. r_bind read_nat32 (\<lambda>bo. r_bind (r_incref bo) (\<lambda>_. r_ret (h, bo))))"

definition read_dri_fd_state :: "dri_fd_state reader_op" where
  "read_dri_fd_state =
     r_bind read_nat32 (\<lambda>handle_count.
       if 65536 < handle_count then r_fail EINVAL
       else
         r_bind (r_loop handle_count
             (\<lambda>m. r_bind read_handle (\<lambda>p. r_ret (btree_insert m (fst p) (snd p)))) []) (\<lambda>hs.
           r_bind read_nat32 (\<lambda>next.
             r_ret \<lparr> handles = hs, next_handle = next, gl = None \<rparr>)))"

definition read_fb :: "(nat \<times> kms_fb) reader_op" where
  "read_fb =
     r_bind read_nat32 (\<lambda>i. r_bind read_nat32 (\<lambda>bo. r_bind read_nat32 (\<lambda>wd. r_bind read_nat32 (\<lambda>ht.
     r_bind read_nat32 (\<lambda>fmt. r_bind read_nat32 (\<lambda>st.
       r_bind (r_incref bo) (\<lambda>_.
         r_ret (i, \<lparr> fb_bo_id = bo, fb_width = wd, fb_height = ht, pixel_format = fmt,
                     fb_stride = st \<rparr>))))))))"

definition read_flip :: "pending_flip reader_op" where
  "read_flip =
     r_bind read_nat32 (\<lambda>c. r_bind read_nat32 (\<lambda>f. r_bind read_nat64 (\<lambda>u.
       r_ret \<lparr> flip_crtc_id = c, flip_fb_id = f, user_data = u \<rparr>)))"

definition read_kms_fd_state :: "kms_fd_state reader_op" where
  "read_kms_fd_state =
     r_bind read_u8 (\<lambda>master. r_bind read_nat32 (\<lambda>fb_count.
       if 65536 < fb_count then r_fail EINVAL
       else
         r_bind (r_loop fb_count
             (\<lambda>m. r_bind read_fb (\<lambda>p. r_ret (btree_insert m (fst p) (snd p)))) []) (\<lambda>fs.
           r_bind read_nat32 (\<lambda>next. r_bind read_nat32 (\<lambda>pending_count.
             if 65536 < pending_count then r_fail EINVAL
             else
               r_bind (r_loop pending_count (r_push read_flip) []) (\<lambda>flips.
                 r_ret \<lparr> holds_master = master \<noteq> 0, fbs = fs, next_fb_id = next,
                         pending_flips = flips, event_ring = [] \<rparr>))))))"

definition read_dri_state :: "dri_ofd_state option reader_op" where
  "read_dri_state =
     r_bind read_u8 (\<lambda>tag.
       if tag = DRI_TAG_NONE then r_ret None
       else if tag = DRI_TAG_RENDER_NODE then
         r_bind read_dri_fd_state (\<lambda>d. r_ret (Some (RenderNode d)))
       else if tag = DRI_TAG_CARD then
         r_bind read_dri_fd_state (\<lambda>d. r_bind read_kms_fd_state (\<lambda>k. r_ret (Some (Card d k))))
       else if tag = DRI_TAG_PRIME_BO then
         r_bind read_nat32 (\<lambda>bo. r_bind read_nat64 (\<lambda>ck.
           r_bind (r_incref bo) (\<lambda>_.
             r_ret (Some (PrimeBo \<lparr> prime_bo_id = bo, prime_cookie = ck \<rparr>)))))
       else r_fail EINVAL)"

section \<open>The descriptor sections\<close>

text \<open>
  Both serializers keep the descriptors without the flag that closes them (\<open>FD_CLOFORK\<close> for
  fork, \<open>FD_CLOEXEC\<close> for exec), count the references those hold, and keep the descriptions that
  have any.
\<close>

definition kept_fds :: "u32 \<Rightarrow> fd_table \<Rightarrow> (int \<times> fd_entry) list" where
  "kept_fds flag t = filter (\<lambda>p. fd_flags (snd p) AND flag = 0) (fd_iter t)"

definition count_refs :: "(int \<times> fd_entry) list \<Rightarrow> (nat \<times> u32) list" where
  "count_refs es =
     foldl (\<lambda>m p. btree_insert m (ofd_ref (snd p))
        ((case map_of m (ofd_ref (snd p)) of None \<Rightarrow> 0 | Some c \<Rightarrow> c) + 1)) [] es"

definition kept_ofds :: "(nat \<times> u32) list \<Rightarrow> ofd_table \<Rightarrow> (nat \<times> open_file_desc) list" where
  "kept_ofds refs t = filter (\<lambda>p. map_of refs (fst p) \<noteq> None) (ofd_iter t)"

definition write_fd_entry :: "int \<times> fd_entry \<Rightarrow> writer_op" where
  "write_fd_entry p =
     w_seq [write_u32 (word_of_int (fst p)), write_nat32 (ofd_ref (snd p)),
            write_u32 (fd_flags (snd p))]"

definition write_fd_section :: "u32 \<Rightarrow> fd_table \<Rightarrow> writer_op" where
  "write_fd_section flag t =
     w_seq [write_nat32 (max_fds t), write_nat32 (length (kept_fds flag t)),
            w_seq (map write_fd_entry (kept_fds flag t))]"

definition write_ofd :: "(nat \<times> u32) list \<Rightarrow> bool \<Rightarrow> nat \<times> open_file_desc \<Rightarrow> writer_op" where
  "write_ofd refs preserve_master p =
     (let f = snd p
      in w_seq [write_nat32 (fst p), write_nat64 (ofd_id f), write_file_id (ofd_file_id f),
           write_u32 (file_type_to_u32 (file_type f)), write_u32 (status_flags f),
           write_i64 (host_handle f), write_i64 (ofd_offset f), write_u32 (the (map_of refs (fst p))),
           write_string (ofd_path f), write_dri_state (dri_state f) preserve_master])"

definition write_ofd_section :: "u32 \<Rightarrow> bool \<Rightarrow> fd_table \<Rightarrow> ofd_table \<Rightarrow> writer_op" where
  "write_ofd_section flag preserve_master t ofds =
     (let refs = count_refs (kept_fds flag t)
      in w_seq [write_nat32 (length (kept_ofds refs ofds)),
                w_seq (map (write_ofd refs preserve_master) (kept_ofds refs ofds))])"

text \<open>\<open>while v.len() <= i { v.push(None) }; v[i] = Some(x)\<close>.\<close>

definition place :: "'a option list \<Rightarrow> nat \<Rightarrow> 'a \<Rightarrow> 'a option list" where
  "place xs i x = (pad_to (Suc i) xs)[i := Some x]"

definition read_fd_entry :: "bool \<Rightarrow> fd_entry option list \<Rightarrow> fd_entry option list reader_op" where
  "read_fd_entry skip_clofork es =
     r_bind read_nat32 (\<lambda>fd_num. r_bind read_nat32 (\<lambda>ofd_index. r_bind read_u32 (\<lambda>flags.
       r_ret (if skip_clofork \<and> flags AND FD_CLOFORK \<noteq> 0 then es
              else place es fd_num \<lparr> ofd_ref = ofd_index, fd_flags = flags \<rparr>))))"

definition read_fd_section :: "bool \<Rightarrow> fd_table reader_op" where
  "read_fd_section skip_clofork =
     r_bind read_nat32 (\<lambda>max. r_bind read_u32 (\<lambda>fd_count.
       if MAX_FDS < fd_count then r_fail EINVAL
       else
         r_bind (r_loop (unat fd_count) (read_fd_entry skip_clofork) []) (\<lambda>es.
           r_ret (fd_from_raw es max))))"

definition read_ofd :: "nat \<Rightarrow> ofd_table \<Rightarrow> ofd_table reader_op" where
  "read_ofd owner es =
     r_bind read_nat32 (\<lambda>i. r_bind read_nat64 (\<lambda>oid.
       if oid = 0 then r_fail EINVAL
       else
         r_bind read_file_id (\<lambda>fid.
         r_bind (r_bind read_u32 (\<lambda>v. r_of (u32_to_file_type v))) (\<lambda>ft.
         r_bind read_u32 (\<lambda>flags. r_bind read_i64 (\<lambda>h. r_bind read_i64 (\<lambda>off. r_bind read_u32 (\<lambda>rc.
         r_bind (read_string MAX_PATH_LEN) (\<lambda>path. r_bind read_dri_state (\<lambda>dri.
           r_ret (place es i
             \<lparr> ofd_id = oid, ofd_file_id = fid, file_type = ft, status_flags = flags, host_handle = h,
               ofd_offset = off, ref_count = rc, owner_pid = owner, ofd_path = path,
               dir_host_handle = - 1, dir_synth_state = 0, dir_entry_offset = 0,
               dri_state = dri \<rparr>)))))))))))"

text \<open>\<open>from_raw\<close> aborts on the identity 0, which \<open>read_ofd\<close> has refused.\<close>

definition r_from_raw :: "ofd_table \<Rightarrow> ofd_table reader_op" where
  "r_from_raw es r =
     (case ofd_from_raw (last_ofd_id (r_shared r)) es of
        None \<Rightarrow> (r, Err EINVAL)
      | Some (l, t) \<Rightarrow> (r\<lparr> r_shared := (r_shared r)\<lparr> last_ofd_id := l \<rparr> \<rparr>, Ok t))"

definition read_ofd_section :: "nat \<Rightarrow> ofd_table reader_op" where
  "read_ofd_section owner =
     r_bind read_u32 (\<lambda>ofd_count.
       if MAX_OFDS < ofd_count then r_fail EINVAL
       else r_bind (r_loop (unat ofd_count) (read_ofd owner) []) r_from_raw)"

section \<open>What survives\<close>

text \<open>The sizes the format has room for; every one is a machine integer of the code or a bound it
  checks when reading.\<close>

fun file_id_ok :: "file_id option \<Rightarrow> bool" where
  "file_id_ok None \<longleftrightarrow> True"
| "file_id_ok (Some (HostFile d i)) \<longleftrightarrow> d < 2 ^ 64 \<and> i < 2 ^ 64"
| "file_id_ok (Some (KernelFile k obj)) \<longleftrightarrow> obj < 2 ^ 64"

definition handle_ok :: "nat \<times> bo_id \<Rightarrow> bool" where
  "handle_ok p \<longleftrightarrow> fst p < 2 ^ 32 \<and> snd p < 2 ^ 32"

definition fb_ok :: "nat \<times> kms_fb \<Rightarrow> bool" where
  "fb_ok p \<longleftrightarrow> fst p < 2 ^ 32 \<and> fb_bo_id (snd p) < 2 ^ 32 \<and> fb_width (snd p) < 2 ^ 32 \<and>
     fb_height (snd p) < 2 ^ 32 \<and> pixel_format (snd p) < 2 ^ 32 \<and> fb_stride (snd p) < 2 ^ 32"

definition flip_ok :: "pending_flip \<Rightarrow> bool" where
  "flip_ok f \<longleftrightarrow> flip_crtc_id f < 2 ^ 32 \<and> flip_fb_id f < 2 ^ 32 \<and> user_data f < 2 ^ 64"

definition dri_fd_ok :: "dri_fd_state \<Rightarrow> bool" where
  "dri_fd_ok d \<longleftrightarrow> keys_sorted (handles d) \<and> list_all handle_ok (handles d) \<and>
     length (handles d) \<le> 65536 \<and> next_handle d < 2 ^ 32"

definition kms_fd_ok :: "kms_fd_state \<Rightarrow> bool" where
  "kms_fd_ok k \<longleftrightarrow> keys_sorted (fbs k) \<and> list_all fb_ok (fbs k) \<and> length (fbs k) \<le> 65536 \<and>
     next_fb_id k < 2 ^ 32 \<and> list_all flip_ok (pending_flips k) \<and> length (pending_flips k) \<le> 65536"

fun dri_ok :: "dri_ofd_state option \<Rightarrow> bool" where
  "dri_ok None \<longleftrightarrow> True"
| "dri_ok (Some (RenderNode d)) \<longleftrightarrow> dri_fd_ok d"
| "dri_ok (Some (Card d k)) \<longleftrightarrow> dri_fd_ok d \<and> kms_fd_ok k"
| "dri_ok (Some (PrimeBo p)) \<longleftrightarrow> prime_bo_id p < 2 ^ 32 \<and> prime_cookie p < 2 ^ 64"

definition kms_view :: "bool \<Rightarrow> kms_fd_state \<Rightarrow> kms_fd_state" where
  "kms_view preserve_master k =
     k\<lparr> holds_master := preserve_master \<and> holds_master k, event_ring := [] \<rparr>"

fun dri_view :: "bool \<Rightarrow> dri_ofd_state option \<Rightarrow> dri_ofd_state option" where
  "dri_view pm (Some (RenderNode d)) = Some (RenderNode (d\<lparr> gl := None \<rparr>))"
| "dri_view pm (Some (Card d k)) = Some (Card (d\<lparr> gl := None \<rparr>) (kms_view pm k))"
| "dri_view pm st = st"

fun dri_bos :: "dri_ofd_state option \<Rightarrow> bo_id list" where
  "dri_bos (Some (RenderNode d)) = map snd (handles d)"
| "dri_bos (Some (Card d k)) = map snd (handles d) @ map (\<lambda>p. fb_bo_id (snd p)) (fbs k)"
| "dri_bos (Some (PrimeBo p)) = [prime_bo_id p]"
| "dri_bos None = []"

lemma file_type_roundtrip: "u32_to_file_type (file_type_to_u32 ft) = Ok ft"
  by (cases ft) (simp_all add: u32_to_file_type_def)

lemma wire_file_type: "wire (write_u32 (file_type_to_u32 ft)) (r_bind read_u32 (\<lambda>v. r_of (u32_to_file_type v))) ft [] 4"
  by (rule wire_of [OF wire_u32]) (rule file_type_roundtrip)

lemmas file_id_tags = FILE_ID_NONE_def FILE_ID_HOST_def FILE_ID_KERNEL_MEMFD_def
  FILE_ID_KERNEL_SYNTHETIC_REGULAR_def FILE_ID_KERNEL_PROCFS_REGULAR_def

lemma wire_file_id:
  assumes "file_id_ok fid"
  shows "wire (write_file_id fid) read_file_id fid [] 1"
proof (cases fid rule: write_file_id.cases)
  case 1
  show ?thesis using assms unfolding 1 read_file_id_def write_file_id.simps file_id_ok.simps
    by - (rule wire_weaken, (rule wire_rules | simp add: file_id_tags)+)
next
  case (2 d i)
  show ?thesis using assms unfolding 2 read_file_id_def write_file_id.simps file_id_ok.simps
    by - (rule wire_weaken, (rule wire_rules | simp add: file_id_tags)+)
next
  case (3 obj)
  show ?thesis using assms unfolding 3 read_file_id_def write_file_id.simps file_id_ok.simps
    by - (rule wire_weaken, (rule wire_rules | simp add: file_id_tags)+)
next
  case (4 obj)
  show ?thesis using assms unfolding 4 read_file_id_def write_file_id.simps file_id_ok.simps
    by - (rule wire_weaken, (rule wire_rules | simp add: file_id_tags)+)
next
  case (5 obj)
  show ?thesis using assms unfolding 5 read_file_id_def write_file_id.simps file_id_ok.simps
    by - (rule wire_weaken, (rule wire_rules | simp add: file_id_tags)+)
qed

lemmas dri_tags = DRI_TAG_NONE_def DRI_TAG_RENDER_NODE_def DRI_TAG_CARD_def DRI_TAG_PRIME_BO_def

interpretation handle_wire: wire_format write_handle read_handle handle_ok "\<lambda>p. p" "\<lambda>p. [IncBo (snd p)]" 8
  by unfold_locales
    (simp add: write_handle_def read_handle_def handle_ok_def, rule wire_weaken,
      (rule wire_bind_pure wire_nat32 wire_incref wire_ret | simp)+)

interpretation fb_wire: wire_format write_fb read_fb fb_ok "\<lambda>p. p" "\<lambda>p. [IncBo (fb_bo_id (snd p))]" 24
  by unfold_locales
    (simp add: write_fb_def read_fb_def fb_ok_def, rule wire_weaken,
      (rule wire_bind_pure wire_nat32 wire_incref wire_ret kms_fb.equality | simp add: prod_eq_iff)+)

interpretation flip_wire: wire_format write_flip read_flip flip_ok "\<lambda>f. f" "\<lambda>f. []" 16
  by unfold_locales
    (simp add: write_flip_def read_flip_def flip_ok_def, rule wire_weaken, (rule wire_rules | simp)+)

lemma wire_dri_fd_state:
  assumes "dri_fd_ok d"
  shows "wire (write_dri_fd_state d) read_dri_fd_state (d\<lparr> gl := None \<rparr>) (map (\<lambda>p. IncBo (snd p)) (handles d)) 8"
proof -
  have l: "wire (w_seq (map write_handle (handles d)))
      (r_loop (length (handles d)) (\<lambda>m. r_bind read_handle (\<lambda>p. r_ret (btree_insert m (fst p) (snd p)))) [])
      (foldl (\<lambda>m p. btree_insert m (fst p) (snd p)) [] (handles d))
      (concat (map (\<lambda>p. [IncBo (snd p)]) (handles d))) (length (handles d) * 8)"
    using assms by (intro handle_wire.fold_agrees) (auto simp: dri_fd_ok_def intro: wire_map handle_wire.agrees)
  then have "wire (w_seq (map write_handle (handles d)))
      (r_loop (length (handles d)) (\<lambda>m. r_bind read_handle (\<lambda>p. r_ret (btree_insert m (fst p) (snd p)))) [])
      (handles d) (map (\<lambda>p. IncBo (snd p)) (handles d)) (length (handles d) * 8)"
    using assms btree_rebuild [of "[]" "handles d"] by (simp add: dri_fd_ok_def)
  note l = wire_bind [OF this]
  show ?thesis
    using assms unfolding write_dri_fd_state_def read_dri_fd_state_def dri_fd_ok_def
    by (intro wire_refs [OF wire_weaken [OF wire_bind_pure [OF wire_nat32]]])
      (simp, simp, (rule l wire_rules | simp)+)
qed

lemma wire_kms_fd_state:
  assumes "kms_fd_ok k"
  shows "wire (write_kms_fd_state k pm) read_kms_fd_state (kms_view pm k)
     (map (\<lambda>p. IncBo (fb_bo_id (snd p))) (fbs k)) 9"
proof -
  have "wire (w_seq (map write_fb (fbs k)))
      (r_loop (length (fbs k)) (\<lambda>m. r_bind read_fb (\<lambda>p. r_ret (btree_insert m (fst p) (snd p)))) [])
      (foldl (\<lambda>m p. btree_insert m (fst p) (snd p)) [] (fbs k))
      (concat (map (\<lambda>p. [IncBo (fb_bo_id (snd p))]) (fbs k))) (length (fbs k) * 24)"
    using assms by (intro fb_wire.fold_agrees) (auto simp: kms_fd_ok_def intro: wire_map fb_wire.agrees)
  then have "wire (w_seq (map write_fb (fbs k)))
      (r_loop (length (fbs k)) (\<lambda>m. r_bind read_fb (\<lambda>p. r_ret (btree_insert m (fst p) (snd p)))) [])
      (fbs k) (map (\<lambda>p. IncBo (fb_bo_id (snd p))) (fbs k)) (length (fbs k) * 24)"
    using assms btree_rebuild [of "[]" "fbs k"] by (simp add: kms_fd_ok_def)
  note fbs = wire_bind [OF this]
  have "wire (w_seq (map write_flip (pending_flips k)))
      (r_loop (length (pending_flips k)) (r_push read_flip) []) (pending_flips k) [] (length (pending_flips k) * 16)"
    using flip_wire.push_agrees [of "pending_flips k" "[]"] assms
    by (simp add: kms_fd_ok_def)
  note flips = wire_bind_pure [OF this]
  obtain v :: u8 where v: "(if pm \<and> holds_master k then 1 else 0) = v"
    and nz: "v \<noteq> 0 \<longleftrightarrow> pm \<and> holds_master k" by (simp split: if_splits)
  show ?thesis
    using assms unfolding write_kms_fd_state_def read_kms_fd_state_def kms_fd_ok_def kms_view_def v
    by (intro wire_refs [OF wire_weaken [OF wire_bind_pure [OF wire_u8]]])
      ((rule fbs flips wire_rules | simp add: nz)+)
qed

lemma wire_dri_state:
  assumes "dri_ok st"
  shows "wire (write_dri_state st pm) read_dri_state (dri_view pm st) (map IncBo (dri_bos st)) 1"
proof (cases "(st, pm)" rule: write_dri_state.cases)
  case (1 pm')
  then have st: "st = None" by simp
  show ?thesis unfolding st read_dri_state_def write_dri_state.simps dri_view.simps dri_bos.simps list.map
    by (rule wire_weaken, (rule wire_rules | simp add: dri_tags)+)
next
  case (2 d pm')
  then have st: "st = Some (RenderNode d)" by simp
  have "dri_fd_ok d" using assms st by simp
  note d = wire_single [OF wire_map [OF wire_dri_fd_state [OF this]]]
  show ?thesis unfolding st read_dri_state_def write_dri_state.simps dri_view.simps dri_bos.simps map_map comp_def
    by (rule wire_weaken, rule wire_bind_pure [OF wire_u8], simp only: dri_tags if_False if_True zero_neq_one
        one_neq_zero simp_thms, rule d, rule refl, simp)
next
  case (3 d k pm')
  then have st: "st = Some (Card d k)" by simp
  have "dri_fd_ok d" "kms_fd_ok k" using assms st by simp_all
  note d = wire_bind [OF wire_dri_fd_state [OF this(1)] wire_single [OF wire_map [OF wire_kms_fd_state [OF this(2)]]]]
  have tag: "(DRI_TAG_CARD = DRI_TAG_NONE) = False" "(DRI_TAG_CARD = DRI_TAG_RENDER_NODE) = False"
    by (simp_all add: dri_tags)
  show ?thesis unfolding st read_dri_state_def write_dri_state.simps dri_view.simps dri_bos.simps map_append map_map comp_def
    by (rule wire_weaken, rule wire_bind_pure [OF wire_u8], simp only: tag if_False if_True simp_thms,
        rule d, rule refl, simp)
next
  case (4 p pm')
  then have st: "st = Some (PrimeBo p)" by simp
  have p: "prime_bo_id p < 2 ^ 32" "prime_cookie p < 2 ^ 64" using assms st by simp_all
  have tag: "(DRI_TAG_PRIME_BO = DRI_TAG_NONE) = False" "(DRI_TAG_PRIME_BO = DRI_TAG_RENDER_NODE) = False"
    "(DRI_TAG_PRIME_BO = DRI_TAG_CARD) = False"
    by (simp_all add: dri_tags)
  show ?thesis unfolding st read_dri_state_def write_dri_state.simps dri_view.simps dri_bos.simps list.map
    by (rule wire_weaken, rule wire_bind_pure [OF wire_u8], simp only: tag if_False if_True simp_thms,
        rule wire_bind_pure [OF wire_nat32 [OF p(1)]], rule wire_bind_pure [OF wire_nat64 [OF p(2)]],
        rule wire_incref, rule wire_ret) simp_all
qed

section \<open>Inheriting descriptors\<close>

lemma slot_place: "slot (place es i x) = (slot es)(i \<mapsto> x)"
  unfolding place_def by (subst slot_update) (simp_all add: slot_pad_to)

lemma slot_place_all:
  "distinct (map fst ps) \<Longrightarrow>
   slot (foldl (\<lambda>es p. place es (fst p) (snd p)) es ps) = slot es ++ map_of ps"
proof (induction ps arbitrary: es)
  case (Cons p ps)
  then have "map_of ps (fst p) = None" by (simp add: map_of_eq_None_iff)
  then have eq: "(slot es)(fst p \<mapsto> snd p) ++ map_of ps = slot es ++ map_of (p # ps)"
    by (auto simp: map_add_def fun_eq_iff split: option.splits)
  have "slot (foldl (\<lambda>es p. place es (fst p) (snd p)) es (p # ps)) =
      (slot es)(fst p \<mapsto> snd p) ++ map_of ps"
    using Cons by (simp add: slot_place)
  then show ?case using eq by (rule trans)
qed simp

text \<open>The number of kept descriptors that refer to description \<open>i\<close>.\<close>

definition kept_refs :: "u32 \<Rightarrow> fd_table \<Rightarrow> nat \<Rightarrow> nat" where
  "kept_refs flag t i = length (filter (\<lambda>p. ofd_ref (snd p) = i) (kept_fds flag t))"

lemma count_refs:
  "keys_sorted (count_refs es) \<and>
   map_of (count_refs es) i =
     (let n = length (filter (\<lambda>p. ofd_ref (snd p) = i) es) in if n = 0 then None else Some (of_nat n))"
proof (induction es arbitrary: i rule: rev_induct)
  case (snoc p es)
  let ?k = "ofd_ref (snd p)"
  have "count_refs (es @ [p]) = btree_insert (count_refs es) ?k
      ((case map_of (count_refs es) ?k of None \<Rightarrow> 0 | Some c \<Rightarrow> c) + 1)"
    by (simp add: count_refs_def)
  moreover have "keys_sorted (count_refs es)" using snoc.IH by blast
  ultimately show ?case using snoc.IH [of i] snoc.IH [of ?k]
    by (auto simp: btree_simps Let_def add.commute)
qed (simp add: count_refs_def)

lemma kept_refs_map:
  "map_of (count_refs (kept_fds flag t)) i =
     (if kept_refs flag t i = 0 then None else Some (of_nat (kept_refs flag t i)))"
  using count_refs [of "kept_fds flag t" i] by (simp add: kept_refs_def Let_def)

text \<open>What the receiving side ends up with.\<close>

definition inherit_fds :: "u32 \<Rightarrow> fd_table \<Rightarrow> fd_table" where
  "inherit_fds flag t =
     fd_from_raw (foldl (\<lambda>es p. place es (fst p) (snd p)) []
        (map (\<lambda>p. (nat (fst p), snd p)) (kept_fds flag t))) (max_fds t)"

definition inherit_ofd :: "bool \<Rightarrow> nat \<Rightarrow> u32 \<Rightarrow> open_file_desc \<Rightarrow> open_file_desc" where
  "inherit_ofd pm owner refs f =
     f\<lparr> ref_count := refs, owner_pid := owner, dir_host_handle := - 1, dir_synth_state := 0,
        dir_entry_offset := 0, dri_state := dri_view pm (dri_state f) \<rparr>"

definition inherit_ofds :: "u32 \<Rightarrow> bool \<Rightarrow> nat \<Rightarrow> fd_table \<Rightarrow> ofd_table \<Rightarrow> ofd_table" where
  "inherit_ofds flag pm owner t ofds =
     foldl (\<lambda>es p. place es (fst p) (snd p)) []
       (map (\<lambda>p. (fst p, inherit_ofd pm owner (of_nat (kept_refs flag t (fst p))) (snd p)))
          (kept_ofds (count_refs (kept_fds flag t)) ofds))"

definition present_ids :: "ofd_table \<Rightarrow> ofd_id list" where
  "present_ids es = map ofd_id (List.map_filter (\<lambda>e. e) es)"

definition inherit_effects :: "u32 \<Rightarrow> bool \<Rightarrow> nat \<Rightarrow> fd_table \<Rightarrow> ofd_table \<Rightarrow> reader_effect list" where
  "inherit_effects flag pm owner t ofds =
     concat (map (\<lambda>p. map IncBo (dri_bos (dri_state (snd p))))
       (kept_ofds (count_refs (kept_fds flag t)) ofds)) @
     map ObserveOfd (present_ids (inherit_ofds flag pm owner t ofds))"

definition fd_entry_ok :: "int \<times> fd_entry \<Rightarrow> bool" where
  "fd_entry_ok p \<longleftrightarrow> 0 \<le> fst p \<and> fst p < 2 ^ 32 \<and> ofd_ref (snd p) < 2 ^ 32"

definition ofd_ok :: "nat \<times> open_file_desc \<Rightarrow> bool" where
  "ofd_ok p \<longleftrightarrow> fst p < 2 ^ 32 \<and> 0 < ofd_id (snd p) \<and> ofd_id (snd p) < 2 ^ 64 \<and>
     file_id_ok (ofd_file_id (snd p)) \<and> is_i64 (host_handle (snd p)) \<and> is_i64 (ofd_offset (snd p)) \<and>
     length (ofd_path (snd p)) \<le> MAX_PATH_LEN \<and> dri_ok (dri_state (snd p))"

definition files_ok :: "u32 \<Rightarrow> fd_table \<Rightarrow> ofd_table \<Rightarrow> bool" where
  "files_ok flag t ofds \<longleftrightarrow>
     max_fds t < 2 ^ 32 \<and> length (kept_fds flag t) \<le> 65536 \<and> list_all fd_entry_ok (kept_fds flag t) \<and>
     length (kept_ofds (count_refs (kept_fds flag t)) ofds) \<le> 65536 \<and>
     list_all ofd_ok (kept_ofds (count_refs (kept_fds flag t)) ofds)"

lemma wire_fd_entry:
  assumes "fd_entry_ok p" "skip \<longrightarrow> fd_flags (snd p) AND FD_CLOFORK = 0"
  shows "wire (write_fd_entry p) (read_fd_entry skip es) (place es (nat (fst p)) (snd p)) [] 12"
proof -
  obtain i r fl where p: "p = (i, \<lparr> ofd_ref = r, fd_flags = fl \<rparr>)" by (metis fd_entry.cases surj_pair)
  have w: "word_of_int i = (of_nat (nat i) :: u32)" and lt: "nat i < 2 ^ 32" "r < 2 ^ 32"
    using assms(1) by (auto simp: fd_entry_ok_def p)
  show ?thesis
  proof (cases skip)
    case True
    then have "fl AND FD_CLOFORK = 0" using assms(2) by (simp add: p)
    then show ?thesis using lt True unfolding write_fd_entry_def read_fd_entry_def p fst_conv snd_conv fd_entry.select_convs w
      by - (rule wire_weaken, (rule wire_rules | simp)+)
  next
    case False
    then show ?thesis using lt unfolding write_fd_entry_def read_fd_entry_def p fst_conv snd_conv fd_entry.select_convs w
      by - (rule wire_weaken, (rule wire_rules | simp)+)
  qed
qed

lemma wire_fd_section:
  assumes "files_ok flag t ofds" "skip \<longrightarrow> flag = FD_CLOFORK"
  shows "wire (write_fd_section flag t) (read_fd_section skip) (inherit_fds flag t) [] 8"
proof -
  let ?es = "kept_fds flag t"
  have ok: "list_all fd_entry_ok ?es" "length ?es \<le> 65536" "max_fds t < 2 ^ 32"
    using assms(1) by (simp_all add: files_ok_def)
  have "wire (w_seq (map write_fd_entry ?es)) (r_loop (length ?es) (read_fd_entry skip) [])
      (foldl (\<lambda>es p. place es (nat (fst p)) (snd p)) [] ?es) (concat (map (\<lambda>p. []) ?es)) (length ?es * 12)"
    using ok(1) assms(2) by (intro wire_fold wire_fd_entry) (auto simp: list_all_iff kept_fds_def)
  note es = wire_bind_pure [OF this [simplified]]
  have n: "\<not> 65536 < (of_nat (length ?es) :: u32)" "unat (of_nat (length ?es) :: u32) = length ?es"
    using ok(2) by (simp_all add: word_less_nat_alt unsigned_of_nat take_bit_nat_eq_self)
  have raw: "fd_from_raw (foldl (\<lambda>es p. place es (nat (fst p)) (snd p)) [] ?es) (max_fds t) = inherit_fds flag t"
    by (simp add: inherit_fds_def foldl_map)
  show ?thesis unfolding write_fd_section_def read_fd_section_def
    by (rule wire_weaken, rule wire_bind_pure [OF wire_nat32 [OF ok(3)]], rule wire_bind_pure [OF wire_u32])
      (simp add: MAX_FDS_def n, rule es, rule wire_ret, simp_all add: raw)
qed

lemma wire_ofd:
  assumes "ofd_ok p" "map_of refs (fst p) = Some rc"
  shows "wire (write_ofd refs pm p) (read_ofd owner es)
     (place es (fst p) (inherit_ofd pm owner rc (snd p))) (map IncBo (dri_bos (dri_state (snd p)))) 38"
proof -
  let ?f = "snd p"
  have ok: "fst p < 2 ^ 32" "0 < ofd_id ?f" "ofd_id ?f < 2 ^ 64" "file_id_ok (ofd_file_id ?f)"
    "is_i64 (host_handle ?f)" "is_i64 (ofd_offset ?f)" "length (ofd_path ?f) \<le> MAX_PATH_LEN"
    "dri_ok (dri_state ?f)"
    using assms(1) by (simp_all add: ofd_ok_def)
  have path: "wire (write_string (ofd_path ?f)) (read_string MAX_PATH_LEN) (ofd_path ?f) [] 4"
    using ok(7) by (intro wire_string) (simp_all add: MAX_PATH_LEN_def)
  have view: "\<lparr> ofd_id = ofd_id ?f, ofd_file_id = ofd_file_id ?f, file_type = file_type ?f,
      status_flags = status_flags ?f, host_handle = host_handle ?f, ofd_offset = ofd_offset ?f,
      ref_count = rc, owner_pid = owner, ofd_path = ofd_path ?f, dir_host_handle = - 1,
      dir_synth_state = 0, dir_entry_offset = 0, dri_state = dri_view pm (dri_state ?f) \<rparr> =
      inherit_ofd pm owner rc ?f"
    by (simp add: inherit_ofd_def)
  have nz: "(ofd_id ?f = 0) = False" using ok(2) by simp
  show ?thesis unfolding write_ofd_def read_ofd_def Let_def assms(2) option.sel
    by (rule wire_weaken, rule wire_bind_pure [OF wire_nat32 [OF ok(1)]],
      rule wire_bind_pure [OF wire_nat64 [OF ok(3)]], simp only: nz if_False, rule wire_bind_pure [OF wire_file_id [OF ok(4)]],
      rule wire_bind_pure [OF wire_file_type], rule wire_bind_pure [OF wire_u32],
      rule wire_bind_pure [OF wire_i64 [OF ok(5)]], rule wire_bind_pure [OF wire_i64 [OF ok(6)]],
      rule wire_bind_pure [OF wire_u32], rule wire_bind_pure [OF path],
      rule wire_single, rule wire_map [OF wire_dri_state [OF ok(8)]], simp_all only: view)
qed

lemma present_ids_simps [simp]:
  "present_ids [] = []" "present_ids (None # es) = present_ids es"
  "present_ids (Some f # es) = ofd_id f # present_ids es"
  by (simp_all add: present_ids_def List.map_filter_def)

lemma present_ids_slot: "x \<in> set (present_ids es) \<longleftrightarrow> (\<exists>i f. slot es i = Some f \<and> x = ofd_id f)"
proof -
  have "x \<in> set (present_ids es) \<longleftrightarrow> (\<exists>f. Some f \<in> set es \<and> x = ofd_id f)"
    by (auto simp: present_ids_def List.map_filter_def image_iff)
  then show ?thesis by (auto simp: in_set_conv_nth slot_def split: if_splits)
qed

lemma observe_all: "fold apply_effect (map ObserveOfd ids) sh = sh\<lparr> last_ofd_id := foldl max (last_ofd_id sh) ids \<rparr>"
  by (induction ids arbitrary: sh) simp_all

lemma ofd_from_raw_present:
  "0 \<notin> set (present_ids es) \<Longrightarrow> ofd_from_raw l es = Some (foldl max l (present_ids es), es)"
proof -
  assume *: "0 \<notin> set (present_ids es)"
  have "foldl (\<lambda>acc e. case (acc, e) of (None, _) \<Rightarrow> None | (Some l, None) \<Rightarrow> Some l
      | (Some l, Some f) \<Rightarrow> observe_ofd_id l (ofd_id f)) (Some l) es = Some (foldl max l (present_ids es))"
    using * by (induction es arbitrary: l) (auto simp: observe_ofd_id_def split: option.splits)
  then show ?thesis by (simp add: ofd_from_raw_def)
qed

lemma wire_from_raw:
  assumes "wire m g es ids k" "0 \<notin> set (present_ids es)"
  shows "wire m (r_bind g r_from_raw) es (ids @ map ObserveOfd (present_ids es)) k"
proof -
  obtain bs where bs: "k \<le> length bs" "emits m bs" "parses g bs es ids" using assms(1) unfolding wire_def by blast
  have "parses (r_bind g r_from_raw) bs es (ids @ map ObserveOfd (present_ids es))"
    using bs(3) by (simp add: parses_def r_bind_def r_from_raw_def ofd_from_raw_present [OF assms(2)] observe_all)
  then show ?thesis using bs unfolding wire_def by blast
qed

lemma distinct_map_filter_fst:
  "distinct xs \<Longrightarrow> distinct (map fst (List.map_filter (\<lambda>i. map_option (Pair (g i)) (h i)) xs))"
  if "inj_on g (set xs)" for g :: "'a \<Rightarrow> 'b"
  using that by (induction xs) (auto simp: List.map_filter_def)

lemma map_of_map_filter_upt:
  "map_of (List.map_filter (\<lambda>i. map_option (Pair i) (h i)) [0..<n]) i = (if i < n then h i else None)"
proof (induction n)
  case (Suc n)
  then show ?case by (cases "h n") (auto simp: List.map_filter_def map_add_def less_Suc_eq split: option.splits)
qed (simp add: List.map_filter_def)

lemma map_of_filter_fst:
  "map_of (filter (\<lambda>p. P (fst p)) xs) i = (if P i then map_of xs i else None)"
  by (induction xs) auto

lemma map_of_map_keyed: "map_of (map (\<lambda>p. (fst p, f (fst p) (snd p))) xs) i = map_option (f i) (map_of xs i)"
  by (induction xs) auto

lemma ofd_iter_map: "distinct (map fst (ofd_iter t)) \<and> map_of (ofd_iter t) i = slot t i"
  unfolding ofd_iter_def using distinct_map_filter_fst [of "\<lambda>i. i" "[0..<length t]" "(!) t"]
  by (simp add: map_of_map_filter_upt slot_def)

text \<open>Each inherited description sits at its old index, counted once for every inherited descriptor
  that refers to it.\<close>

lemma inherit_ofds_lookup:
  "slot (inherit_ofds flag pm owner t ofds) i =
     (if kept_refs flag t i = 0 then None
      else map_option (inherit_ofd pm owner (of_nat (kept_refs flag t i))) (slot ofds i))"
proof -
  let ?refs = "count_refs (kept_fds flag t)"
  let ?ps = "map (\<lambda>p. (fst p, inherit_ofd pm owner (of_nat (kept_refs flag t (fst p))) (snd p))) (kept_ofds ?refs ofds)"
  have "distinct (map fst (kept_ofds ?refs ofds))"
    using ofd_iter_map [of ofds] by (simp add: kept_ofds_def distinct_map_filter)
  then have "distinct (map fst ?ps)" by (simp add: comp_def)
  then have "slot (inherit_ofds flag pm owner t ofds) = map_of ?ps"
    unfolding inherit_ofds_def by (subst slot_place_all) (simp_all add: fun_eq_iff map_add_def split: option.splits)
  moreover have "map_of (kept_ofds ?refs ofds) i = (if kept_refs flag t i = 0 then None else slot ofds i)"
    unfolding kept_ofds_def using ofd_iter_map [of ofds i] by (subst map_of_filter_fst) (simp add: kept_refs_map)
  ultimately show ?thesis
    using map_of_map_keyed [of "\<lambda>j. inherit_ofd pm owner (of_nat (kept_refs flag t j))" "kept_ofds ?refs ofds" i]
    by simp
qed

lemma wire_ofd_section:
  assumes "files_ok flag t ofds"
  shows "wire (write_ofd_section flag pm t ofds) (read_ofd_section owner)
     (inherit_ofds flag pm owner t ofds) (inherit_effects flag pm owner t ofds) 4"
proof -
  let ?refs = "count_refs (kept_fds flag t)"
  let ?ps = "kept_ofds ?refs ofds"
  have ok: "list_all ofd_ok ?ps" "length ?ps \<le> 65536" using assms by (simp_all add: files_ok_def)
  have refs: "map_of ?refs (fst p) = Some (of_nat (kept_refs flag t (fst p)))" if "p \<in> set ?ps" for p
    using that by (auto simp: kept_ofds_def kept_refs_map split: if_splits)
  have "wire (w_seq (map (write_ofd ?refs pm) ?ps)) (r_loop (length ?ps) (read_ofd owner) [])
      (foldl (\<lambda>es p. place es (fst p) (inherit_ofd pm owner (of_nat (kept_refs flag t (fst p))) (snd p))) [] ?ps)
      (concat (map (\<lambda>p. map IncBo (dri_bos (dri_state (snd p)))) ?ps)) (length ?ps * 38)"
    using ok(1) refs by (intro wire_fold wire_ofd) (auto simp: list_all_iff)
  then have "wire (w_seq (map (write_ofd ?refs pm) ?ps)) (r_loop (length ?ps) (read_ofd owner) [])
      (inherit_ofds flag pm owner t ofds)
      (concat (map (\<lambda>p. map IncBo (dri_bos (dri_state (snd p)))) ?ps)) (length ?ps * 38)"
    by (simp add: inherit_ofds_def foldl_map)
  moreover have "0 \<notin> set (present_ids (inherit_ofds flag pm owner t ofds))"
  proof
    assume "0 \<in> set (present_ids (inherit_ofds flag pm owner t ofds))"
    then obtain i f where f: "kept_refs flag t i \<noteq> 0" "slot ofds i = Some f" "ofd_id f = 0"
      by (auto simp: present_ids_slot inherit_ofds_lookup inherit_ofd_def split: if_splits)
    then have "(i, f) \<in> set (ofd_iter ofds)" using ofd_iter_map [of ofds i] map_of_SomeD by metis
    then have "(i, f) \<in> set ?ps" using f by (simp add: kept_ofds_def kept_refs_map)
    then show False using ok(1) f(3) by (auto simp: list_all_iff ofd_ok_def)
  qed
  ultimately have "wire (w_seq (map (write_ofd ?refs pm) ?ps))
      (r_bind (r_loop (length ?ps) (read_ofd owner) []) r_from_raw)
      (inherit_ofds flag pm owner t ofds) (inherit_effects flag pm owner t ofds) (length ?ps * 38)"
    unfolding inherit_effects_def by (rule wire_from_raw)
  note body = wire_single [OF this]
  have n: "\<not> 65536 < (of_nat (length ?ps) :: u32)" "unat (of_nat (length ?ps) :: u32) = length ?ps"
    using ok(2) by (simp_all add: word_less_nat_alt unsigned_of_nat take_bit_nat_eq_self)
  show ?thesis unfolding write_ofd_section_def read_ofd_section_def Let_def
    by (rule wire_weaken, rule wire_bind_pure [OF wire_u32])
      (simp only: MAX_OFDS_def n if_False, rule body, simp)
qed

subsection \<open>The inherited table\<close>

text \<open>The number of descriptors of a table that refer to description \<open>j\<close>.\<close>

definition fd_refs :: "fd_table \<Rightarrow> nat \<Rightarrow> nat" where
  "fd_refs t j =
     length (filter (\<lambda>e. case e of Some e \<Rightarrow> ofd_ref e = j | None \<Rightarrow> False) (fd_entries t))"

lemma fd_refs_card: "fd_refs t j = card {i. \<exists>e. fd_lookup t i = Some e \<and> ofd_ref e = j}"
proof -
  have "{i. i < length (fd_entries t) \<and> (case fd_entries t ! i of Some e \<Rightarrow> ofd_ref e = j | None \<Rightarrow> False)} =
      {i. \<exists>e. fd_lookup t i = Some e \<and> ofd_ref e = j}"
    by (auto simp: fd_lookup_def slot_def split: option.splits if_splits)
  then show ?thesis unfolding fd_refs_def length_filter_conv_card by simp
qed

lemma map_filter_map: "List.map_filter f (map g xs) = List.map_filter (\<lambda>x. f (g x)) xs"
  by (induction xs) (simp_all add: List.map_filter_def)

lemma map_of_filter_snd:
  "distinct (map fst xs) \<Longrightarrow>
   map_of (filter (\<lambda>p. Q (snd p)) xs) i = (case map_of xs i of Some v \<Rightarrow> if Q v then Some v else None | None \<Rightarrow> None)"
  by (induction xs) (auto simp: image_iff map_of_eq_None_iff split: option.splits)

lemma fd_iter_small:
  assumes "length (fd_entries t) \<le> 2 ^ 31"
  shows "map (\<lambda>p. (nat (fst p), snd p)) (fd_iter t) =
     List.map_filter (\<lambda>i. map_option (Pair i) (fd_entries t ! i)) [0..<length (fd_entries t)]"
proof -
  have "fd_iter t = List.map_filter (\<lambda>i. map_option (Pair (as_i32 i)) (fd_entries t ! i)) [0..<length (fd_entries t)]"
  proof -
    have "List.enumerate 0 es = map (\<lambda>i. (i, es ! i)) [0..<length es]" for es :: "fd_entry option list"
      by (rule nth_equalityI) (simp_all add: nth_enumerate_eq)
    then show ?thesis by (simp add: fd_iter_def map_filter_map)
  qed
  moreover have gen: "map (\<lambda>p. (nat (fst p), snd p)) (List.map_filter (\<lambda>i. map_option (Pair (as_i32 i)) (fd_entries t ! i)) xs) =
      List.map_filter (\<lambda>i. map_option (Pair i) (fd_entries t ! i)) xs" if "set xs \<subseteq> {..<2 ^ 31}" for xs
    using that by (induction xs) (auto simp: List.map_filter_def)
  moreover have "set [0..<length (fd_entries t)] \<subseteq> {..<2 ^ 31}" using assms by auto
  ultimately show ?thesis by simp
qed

lemma kept_fds_map:
  assumes "length (fd_entries t) \<le> 2 ^ 31"
  shows "distinct (map fst (map (\<lambda>p. (nat (fst p), snd p)) (kept_fds flag t))) \<and>
    map_of (map (\<lambda>p. (nat (fst p), snd p)) (kept_fds flag t)) i =
      (case fd_lookup t i of Some e \<Rightarrow> if fd_flags e AND flag = 0 then Some e else None | None \<Rightarrow> None)"
proof -
  let ?xs = "List.map_filter (\<lambda>i. map_option (Pair i) (fd_entries t ! i)) [0..<length (fd_entries t)]"
  have d: "distinct (map fst ?xs)"
    using distinct_map_filter_fst [of "\<lambda>i. i" "[0..<length (fd_entries t)]" "(!) (fd_entries t)"] by simp
  have "map (\<lambda>p. (nat (fst p), snd p)) (kept_fds flag t) = filter (\<lambda>p. fd_flags (snd p) AND flag = 0) ?xs"
    unfolding kept_fds_def fd_iter_small [OF assms, symmetric] by (simp add: filter_map comp_def)
  then show ?thesis
    using distinct_map_filter [OF d] map_of_filter_snd [OF d, of "\<lambda>e. fd_flags e AND flag = 0" i]
    by (simp add: map_of_map_filter_upt fd_lookup_def slot_def)
qed

text \<open>The inherited table has the descriptors that are not marked, at the same numbers.\<close>

lemma inherit_fds_lookup:
  assumes "length (fd_entries t) \<le> 2 ^ 31"
  shows "fd_lookup (inherit_fds flag t) i =
    (case fd_lookup t i of Some e \<Rightarrow> if fd_flags e AND flag = 0 then Some e else None | None \<Rightarrow> None)"
  using kept_fds_map [OF assms, of flag i]
  by (auto simp: fd_lookup_def inherit_fds_def fd_from_raw_def slot_place_all map_add_def split: option.splits)

lemma fst_filter_set:
  assumes "\<And>i e. (i, e) \<in> set ps \<longleftrightarrow> L i = Some e"
  shows "set (map fst (filter (\<lambda>p. Q (snd p)) ps)) = {i. \<exists>e. L i = Some e \<and> Q e}"
  using assms by (force simp: image_iff)

lemma kept_refs_inherited:
  assumes "length (fd_entries t) \<le> 2 ^ 31"
  shows "kept_refs flag t j = fd_refs (inherit_fds flag t) j"
proof -
  let ?ps = "map (\<lambda>p. (nat (fst p), snd p)) (kept_fds flag t)"
  let ?qs = "filter (\<lambda>p. ofd_ref (snd p) = j) ?ps"
  have d: "distinct (map fst ?ps)" using kept_fds_map [OF assms] by blast
  have dq: "distinct (map fst ?qs)" using d by (rule distinct_map_filter)
  have "length ?qs = card (set (map fst ?qs))" unfolding distinct_card [OF dq] length_map ..
  moreover have "set (map fst ?qs) = {i. \<exists>e. fd_lookup (inherit_fds flag t) i = Some e \<and> ofd_ref e = j}"
  proof -
    have "(i, e) \<in> set ?ps \<longleftrightarrow> fd_lookup (inherit_fds flag t) i = Some e" for i e
      using kept_fds_map [OF assms, of flag i] inherit_fds_lookup [OF assms, of flag i] d
      by (metis map_of_eq_Some_iff)
    then show ?thesis by (rule fst_filter_set)
  qed
  moreover have "kept_refs flag t j = length ?qs" by (simp add: kept_refs_def filter_map comp_def)
  ultimately show ?thesis by (simp add: fd_refs_card)
qed

end
