(* ===== verification/Socket_State.thy ===== *)
theory Socket_State
  imports Wire_Format Fork_Files Pipe_Buffer
begin

text \<open>
  Per-process socket state (\<^verbatim>\<open>src/crates/kernel/src/socket.rs\<close>, \<open>SocketInfo\<close> and
  \<open>SocketTable\<close>) and the section of the fork image that carries it
  (\<^verbatim>\<open>src/crates/kernel/src/fork.rs\<close>).  The lemmas show that forking a socket table keeps every
  socket at its index and gives the child what the hand-written \<open>Clone\<close> gives: everything but the
  state that may be consumed only once.
\<close>

unbundle bit_operations_syntax

section \<open>Sockets\<close>

datatype socket_domain = Unix | Inet | Inet6
datatype socket_type = SockStream | SockDgram
datatype socket_state = Unbound | Bound | Listening | Connecting | Connected | Closed

record datagram =
  dg_data :: "u8 list"
  dg_src_addr :: "u8 list"
  dg_src_addr6 :: "u8 list"
  dg_dst_addr :: "u8 list"
  dg_dst_addr6 :: "u8 list"
  dg_src_port :: u16
  dg_src_sock_idx :: "nat option"
  dg_ipv6_tclass :: nat
  dg_src_pid :: nat
  dg_src_uid :: nat
  dg_src_gid :: nat
  dg_ancillary_fds :: "in_flight_fd list"

record ipv4_multicast_membership =
  mc_group :: "u8 list"
  mc_interface_addr :: "u8 list"
  mc_any_source :: bool
  mc_blocked_sources :: "u8 list list"
  mc_included_sources :: "u8 list list"

record socket_info =
  sk_domain :: socket_domain
  sk_type :: socket_type
  sk_protocol :: nat
  sk_state :: socket_state
  sk_peer_idx :: "nat option"
  sk_recv_buf_idx :: "nat option"
  sk_send_buf_idx :: "nat option"
  sk_shut_rd :: bool
  sk_shut_wr :: bool
  sk_host_net_handle :: "int option"
  sk_options :: "(nat \<times> nat \<times> nat) list"
  sk_linger_onoff :: int
  sk_linger_seconds :: int
  sk_bind_device :: "u8 list option"
  sk_tcp_congestion :: "u8 list"
  sk_bind_addr :: "u8 list"
  sk_bind_addr6 :: "u8 list"
  sk_bind_port :: u16
  sk_peer_addr :: "u8 list"
  sk_peer_addr6 :: "u8 list"
  sk_peer_port :: u16
  sk_listen_backlog :: "nat list"
  sk_shared_backlog_idx :: "nat option"
  sk_accept_wake_idx :: "nat option"
  sk_dgram_queue :: "datagram list"
  sk_memberships :: "ipv4_multicast_membership list"
  sk_netlink_queue :: "u8 list list"
  sk_global_pipes :: bool
  sk_oob_byte :: "u8 option"
  sk_recv_timeout_us :: nat
  sk_send_timeout_us :: nat
  sk_bind_path :: "u8 list option"
  sk_connect_error :: nat

text \<open>The default congestion control algorithm is the string \<^verbatim>\<open>cubic\<close>.\<close>

definition socket_new :: "socket_domain \<Rightarrow> socket_type \<Rightarrow> nat \<Rightarrow> socket_info" where
  "socket_new d ty proto =
     \<lparr> sk_domain = d, sk_type = ty, sk_protocol = proto, sk_state = Unbound, sk_peer_idx = None,
       sk_recv_buf_idx = None, sk_send_buf_idx = None, sk_shut_rd = False, sk_shut_wr = False,
       sk_host_net_handle = None, sk_options = [], sk_linger_onoff = 0, sk_linger_seconds = 0,
       sk_bind_device = None, sk_tcp_congestion = [0x63, 0x75, 0x62, 0x69, 0x63],
       sk_bind_addr = replicate 4 0, sk_bind_addr6 = replicate 16 0, sk_bind_port = 0,
       sk_peer_addr = replicate 4 0, sk_peer_addr6 = replicate 16 0, sk_peer_port = 0,
       sk_listen_backlog = [], sk_shared_backlog_idx = None, sk_accept_wake_idx = None,
       sk_dgram_queue = [], sk_memberships = [], sk_netlink_queue = [], sk_global_pipes = True,
       sk_oob_byte = None, sk_recv_timeout_us = 0, sk_send_timeout_us = 0, sk_bind_path = None,
       sk_connect_error = 0 \<rparr>"

fun set_option_in :: "(nat \<times> nat \<times> nat) list \<Rightarrow> nat \<Rightarrow> nat \<Rightarrow> nat \<Rightarrow> (nat \<times> nat \<times> nat) list" where
  "set_option_in [] level optname value = [(level, optname, value)]"
| "set_option_in ((l, n, v) # opts) level optname value =
     (if l = level \<and> n = optname then (l, n, value) # opts
      else (l, n, v) # set_option_in opts level optname value)"

definition set_option :: "socket_info \<Rightarrow> nat \<Rightarrow> nat \<Rightarrow> nat \<Rightarrow> socket_info" where
  "set_option s level optname value =
     s\<lparr> sk_options := set_option_in (sk_options s) level optname value \<rparr>"

definition get_option :: "socket_info \<Rightarrow> nat \<Rightarrow> nat \<Rightarrow> nat option" where
  "get_option s level optname =
     map_option (\<lambda>(_, _, v). v)
       (List.find (\<lambda>(l, n, _). l = level \<and> n = optname) (sk_options s))"

text \<open>The hand-written \<open>Clone\<close>, which spawn uses.\<close>

definition socket_clone :: "socket_info \<Rightarrow> socket_info" where
  "socket_clone s =
     s\<lparr> sk_listen_backlog := [], sk_dgram_queue := [], sk_netlink_queue := [], sk_oob_byte := None,
        sk_connect_error := 0 \<rparr>"

section \<open>The socket table\<close>

type_synonym socket_table = "socket_info option list"

definition sock_alloc :: "socket_table \<Rightarrow> socket_info \<Rightarrow> socket_table \<times> nat" where
  "sock_alloc t s = slot_insert t s"

definition sock_free :: "socket_table \<Rightarrow> nat \<Rightarrow> socket_table" where
  "sock_free t i = (if i < length t then t[i := None] else t)"

definition sock_get :: "socket_table \<Rightarrow> nat \<Rightarrow> socket_info option" where
  "sock_get t i = slot t i"

definition sock_insert_at :: "socket_table \<Rightarrow> nat \<Rightarrow> socket_info \<Rightarrow> socket_table" where
  "sock_insert_at t i s = place t i s"

interpretation socket_slots: slot_store sock_get sock_alloc "\<lambda>i s. s" "\<lambda>t. True"
  by unfold_locales
    (auto simp: sock_get_def sock_alloc_def slot_insert_fresh slot_insert_slot fun_eq_iff)

lemma get_set_option:
  "get_option (set_option s level name val) l n =
     (if l = level \<and> n = name then Some val else get_option s l n)"
proof -
  have "map_option (\<lambda>(_, _, v). v) (List.find (\<lambda>(l', n', _). l' = l \<and> n' = n) (set_option_in opts level name val)) =
      (if l = level \<and> n = name then Some val
       else map_option (\<lambda>(_, _, v). v) (List.find (\<lambda>(l', n', _). l' = l \<and> n' = n) opts))" for opts
    by (induction opts level name val rule: set_option_in.induct) auto
  then show ?thesis by (simp add: get_option_def set_option_def)
qed

section \<open>The socket section\<close>

definition MAX_SOCKET_SLOTS :: nat where "MAX_SOCKET_SLOTS = 65536"
definition MAX_SOCKET_OPTIONS :: nat where "MAX_SOCKET_OPTIONS = 4096"
definition MAX_SOCKET_STRING_LEN :: nat where "MAX_SOCKET_STRING_LEN = 256"
definition MAX_IPV4_MULTICAST_MEMBERSHIPS :: nat where "MAX_IPV4_MULTICAST_MEMBERSHIPS = 4096"
definition MAX_IPV4_MULTICAST_SOURCES :: nat where "MAX_IPV4_MULTICAST_SOURCES = 4096"

lemmas socket_limits = MAX_SOCKET_SLOTS_def MAX_SOCKET_OPTIONS_def MAX_SOCKET_STRING_LEN_def
  MAX_IPV4_MULTICAST_MEMBERSHIPS_def MAX_IPV4_MULTICAST_SOURCES_def MAX_PATH_LEN_def

text \<open>An optional index: the all-ones word stands for \<open>None\<close>.\<close>

definition opt_word :: "nat option \<Rightarrow> u32" where
  "opt_word x = (case x of None \<Rightarrow> 0xFFFFFFFF | Some v \<Rightarrow> of_nat v)"

definition word_opt :: "u32 \<Rightarrow> nat option" where
  "word_opt raw = (if raw = 0xFFFFFFFF then None else Some (unat raw))"

definition opt_i32_word :: "int option \<Rightarrow> u32" where
  "opt_i32_word x = (case x of None \<Rightarrow> 0xFFFFFFFF | Some v \<Rightarrow> word_of_int v)"

definition word_opt_i32 :: "u32 \<Rightarrow> int option" where
  "word_opt_i32 raw = (if raw = 0xFFFFFFFF then None else Some (sint raw))"

abbreviation write_opt :: "nat option \<Rightarrow> writer_op" where
  "write_opt x \<equiv> write_u32 (opt_word x)"

abbreviation read_opt :: "nat option reader_op" where
  "read_opt \<equiv> r_bind read_u32 (\<lambda>raw. r_ret (word_opt raw))"

text \<open>An optional byte string, its length bounded on both sides.\<close>

definition write_opt_string :: "nat \<Rightarrow> u8 list option \<Rightarrow> writer_op" where
  "write_opt_string lim x =
     (case x of
        None \<Rightarrow> w_seq [write_u32 0xFFFFFFFF]
      | Some s \<Rightarrow> w_seq [write_bounded_len (length s) lim, write_bytes s])"

definition read_opt_string :: "nat \<Rightarrow> u8 list option reader_op" where
  "read_opt_string lim =
     r_bind read_u32 (\<lambda>len.
       if len = 0xFFFFFFFF then r_ret None
       else r_bind (read_bounded_bytes (unat len) lim) (\<lambda>s. r_ret (Some s)))"

definition read_ipv4_addr :: "u8 list reader_op" where
  "read_ipv4_addr = read_bytes 4"

definition write_ipv4_source_list :: "u8 list list \<Rightarrow> writer_op" where
  "write_ipv4_source_list sources =
     w_seq [write_bounded_len (length sources) MAX_IPV4_MULTICAST_SOURCES, w_seq (map write_bytes sources)]"

definition read_ipv4_source_list :: "u8 list list reader_op" where
  "read_ipv4_source_list =
     r_bind (read_bounded_count MAX_IPV4_MULTICAST_SOURCES) (\<lambda>count.
       r_guard (count * 4) (r_loop count (r_push read_ipv4_addr) []) (r_fail EINVAL))"

definition write_membership :: "ipv4_multicast_membership \<Rightarrow> writer_op" where
  "write_membership m =
     w_seq [write_bytes (mc_group m), write_bytes (mc_interface_addr m), write_flag (mc_any_source m),
            write_ipv4_source_list (mc_blocked_sources m), write_ipv4_source_list (mc_included_sources m)]"

definition read_membership :: "ipv4_multicast_membership reader_op" where
  "read_membership =
     r_bind read_ipv4_addr (\<lambda>g. r_bind read_ipv4_addr (\<lambda>ifc.
     r_bind (r_bind read_u32 (\<lambda>v. if v = 0 then r_ret False else if v = 1 then r_ret True else r_fail EINVAL)) (\<lambda>any.
     r_bind read_ipv4_source_list (\<lambda>bl. r_bind read_ipv4_source_list (\<lambda>inc.
       r_ret \<lparr> mc_group = g, mc_interface_addr = ifc, mc_any_source = any, mc_blocked_sources = bl,
               mc_included_sources = inc \<rparr>)))))"

definition write_durable_socket_state :: "socket_info \<Rightarrow> writer_op" where
  "write_durable_socket_state s =
     w_seq [write_bytes (sk_bind_addr6 s), write_bytes (sk_peer_addr6 s), write_i32 (sk_linger_onoff s),
       write_i32 (sk_linger_seconds s), write_nat64 (sk_recv_timeout_us s), write_nat64 (sk_send_timeout_us s),
       write_opt_string MAX_SOCKET_STRING_LEN (sk_bind_device s),
       write_bounded_len (length (sk_tcp_congestion s)) MAX_SOCKET_STRING_LEN, write_bytes (sk_tcp_congestion s),
       write_bounded_len (length (sk_memberships s)) MAX_IPV4_MULTICAST_MEMBERSHIPS,
       w_seq (map write_membership (sk_memberships s))]"

definition read_durable_socket_state :: "socket_info \<Rightarrow> socket_info reader_op" where
  "read_durable_socket_state s =
     r_bind (read_bytes 16) (\<lambda>b6. r_bind (read_bytes 16) (\<lambda>p6. r_bind read_i32 (\<lambda>on. r_bind read_i32 (\<lambda>sec.
     r_bind read_nat64 (\<lambda>rt. r_bind read_nat64 (\<lambda>st. r_bind (read_opt_string MAX_SOCKET_STRING_LEN) (\<lambda>dev.
     r_bind (read_bounded_count MAX_SOCKET_STRING_LEN) (\<lambda>clen.
     r_bind (read_bounded_bytes clen MAX_SOCKET_STRING_LEN) (\<lambda>cong.
     r_bind (read_bounded_count MAX_IPV4_MULTICAST_MEMBERSHIPS) (\<lambda>count.
     r_bind (r_guard (count * 20) (r_loop count (r_push read_membership) []) (r_fail EINVAL)) (\<lambda>ms.
       r_ret (s\<lparr> sk_bind_addr6 := b6, sk_peer_addr6 := p6, sk_linger_onoff := on, sk_linger_seconds := sec,
                 sk_recv_timeout_us := rt, sk_send_timeout_us := st, sk_bind_device := dev,
                 sk_tcp_congestion := cong, sk_memberships := ms \<rparr>))))))))))))"

definition write_socket_option :: "nat \<times> nat \<times> nat \<Rightarrow> writer_op" where
  "write_socket_option p = w_seq [write_nat32 (fst p), write_nat32 (fst (snd p)), write_nat32 (snd (snd p))]"

definition read_socket_option :: "(nat \<times> nat \<times> nat) reader_op" where
  "read_socket_option =
     r_bind read_nat32 (\<lambda>level. r_bind read_nat32 (\<lambda>optname. r_bind read_nat32 (\<lambda>value.
       r_ret (level, optname, value))))"

fun domain_code :: "socket_domain \<Rightarrow> u32" where
  "domain_code Unix = 0" | "domain_code Inet = 1" | "domain_code Inet6 = 2"

fun type_code :: "socket_type \<Rightarrow> u32" where
  "type_code SockStream = 0" | "type_code SockDgram = 1"

text \<open>A host connection in progress cannot cross fork: the child sees a closed socket.\<close>

fun state_code :: "socket_state \<Rightarrow> u32" where
  "state_code Unbound = 0" | "state_code Bound = 1" | "state_code Listening = 2"
| "state_code Connected = 3" | "state_code Closed = 4" | "state_code Connecting = 4"

definition code_domain :: "u32 \<Rightarrow> socket_domain result" where
  "code_domain v = (if v = 0 then Ok Unix else if v = 1 then Ok Inet else if v = 2 then Ok Inet6 else Err EINVAL)"

definition code_type :: "u32 \<Rightarrow> socket_type result" where
  "code_type v = (if v = 0 then Ok SockStream else if v = 1 then Ok SockDgram else Err EINVAL)"

definition code_state :: "u32 \<Rightarrow> socket_state result" where
  "code_state v =
     (if v = 0 then Ok Unbound else if v = 1 then Ok Bound else if v = 2 then Ok Listening
      else if v = 3 then Ok Connected else if v = 4 then Ok Closed else Err EINVAL)"

text \<open>One socket; too many options end the serialization with \<open>EINVAL\<close>.\<close>

definition socket_fields :: "socket_info \<Rightarrow> writer_op list" where
  "socket_fields s =
          [write_u32 (domain_code (sk_domain s)), write_u32 (type_code (sk_type s)),
           write_nat32 (sk_protocol s), write_u32 (state_code (sk_state s)), write_opt (sk_peer_idx s),
           write_opt (sk_recv_buf_idx s), write_opt (sk_send_buf_idx s), write_flag (sk_shut_rd s),
           write_flag (sk_shut_wr s), write_u32 (opt_i32_word (sk_host_net_handle s)),
           (if MAX_SOCKET_OPTIONS < length (sk_options s) then w_fail EINVAL
            else write_nat32 (length (sk_options s))),
           w_seq (map write_socket_option (sk_options s)), write_bytes (sk_bind_addr s),
           write_u32 (ucast (sk_bind_port s)), write_bytes (sk_peer_addr s), write_u32 (ucast (sk_peer_port s)),
           write_u32 0, write_flag (sk_global_pipes s), write_opt (sk_shared_backlog_idx s),
           write_opt_string MAX_PATH_LEN (sk_bind_path s), write_opt (sk_accept_wake_idx s),
           write_durable_socket_state s]"

definition write_socket :: "nat \<times> socket_info \<Rightarrow> writer_op" where
  "write_socket p = w_seq (write_nat32 (fst p) # socket_fields (snd p))"

definition sock_iter :: "socket_table \<Rightarrow> (nat \<times> socket_info) list" where
  "sock_iter t = List.map_filter (\<lambda>i. map_option (Pair i) (sock_get t i)) [0..<length t]"

definition write_sockets :: "socket_table \<Rightarrow> writer_op" where
  "write_sockets t =
     (if MAX_SOCKET_SLOTS < length t then w_fail EINVAL
      else w_seq [write_nat32 (length t), write_nat32 (length (sock_iter t)),
                  w_seq (map write_socket (sock_iter t))])"

definition read_port :: "u16 reader_op" where
  "read_port = r_bind read_u32 (\<lambda>v. r_ret (ucast v))"

text \<open>The legacy backlog: its entries are read and discarded.\<close>

definition skip_backlog :: "nat \<Rightarrow> unit reader_op" where
  "skip_backlog total_slots =
     r_bind read_nat32 (\<lambda>bl_count.
       if USIZE_MAX < bl_count * 4 \<or> total_slots < bl_count then r_fail EINVAL
       else r_guard (bl_count * 4) (r_loop bl_count (\<lambda>u. r_bind read_u32 (\<lambda>_. r_ret ())) ()) (r_fail EINVAL))"

definition read_socket :: "nat \<Rightarrow> socket_info reader_op" where
  "read_socket total_slots =
     r_bind (r_bind read_u32 (\<lambda>v. r_of (code_domain v))) (\<lambda>d.
     r_bind (r_bind read_u32 (\<lambda>v. r_of (code_type v))) (\<lambda>ty. r_bind read_nat32 (\<lambda>proto.
     r_bind (r_bind read_u32 (\<lambda>v. r_of (code_state v))) (\<lambda>st. r_bind read_opt (\<lambda>peer. r_bind read_opt (\<lambda>recv.
     r_bind read_opt (\<lambda>send. r_bind read_flag (\<lambda>rd. r_bind read_flag (\<lambda>wr. r_bind (r_bind read_u32 (\<lambda>raw. r_ret (word_opt_i32 raw))) (\<lambda>net.
     r_bind (read_bounded_count MAX_SOCKET_OPTIONS) (\<lambda>opt_count.
     r_bind (r_guard (opt_count * 12) (r_loop opt_count (r_push read_socket_option) []) (r_fail EINVAL)) (\<lambda>opts.
     r_bind (read_bytes 4) (\<lambda>baddr. r_bind read_port (\<lambda>bport. r_bind (read_bytes 4) (\<lambda>paddr. r_bind read_port (\<lambda>pport.
     r_bind (skip_backlog total_slots) (\<lambda>_. r_bind read_flag (\<lambda>gp. r_bind read_opt (\<lambda>shared.
     r_bind (read_opt_string MAX_PATH_LEN) (\<lambda>path. r_bind read_opt (\<lambda>wake.
       read_durable_socket_state
         ((socket_new d ty proto)\<lparr> sk_state := st, sk_peer_idx := peer, sk_recv_buf_idx := recv,
            sk_send_buf_idx := send, sk_shut_rd := rd, sk_shut_wr := wr, sk_host_net_handle := net,
            sk_options := opts, sk_bind_addr := baddr, sk_bind_port := bport, sk_peer_addr := paddr,
            sk_peer_port := pport, sk_global_pipes := gp, sk_shared_backlog_idx := shared,
            sk_bind_path := path, sk_accept_wake_idx := wake \<rparr>))))))))))))))))))))))"

definition read_sockets :: "socket_table reader_op" where
  "read_sockets =
     r_bind read_nat32 (\<lambda>total_slots. r_bind read_nat32 (\<lambda>sock_count.
       if MAX_SOCKET_SLOTS < total_slots \<or> total_slots < sock_count then r_fail EINVAL
       else
         r_bind (r_loop sock_count
             (\<lambda>(seen, t).
                r_bind read_nat32 (\<lambda>i.
                  if total_slots \<le> i \<or> i \<in> set seen then r_fail EINVAL
                  else r_bind (read_socket total_slots) (\<lambda>s. r_ret (i # seen, sock_insert_at t i s)))) ([], []))
           (\<lambda>(seen, t). r_ret t)))"

section \<open>What a forked socket keeps\<close>

text \<open>The sizes the section has room for.\<close>

definition opt_ok :: "nat option \<Rightarrow> bool" where
  "opt_ok x \<longleftrightarrow> (case x of None \<Rightarrow> True | Some v \<Rightarrow> v < 2 ^ 32 - 1)"

definition net_handle_ok :: "int option \<Rightarrow> bool" where
  "net_handle_ok x \<longleftrightarrow> (case x of None \<Rightarrow> True | Some v \<Rightarrow> is_i32 v \<and> v \<noteq> - 1)"

definition sources_ok :: "u8 list list \<Rightarrow> bool" where
  "sources_ok xs \<longleftrightarrow> length xs \<le> MAX_IPV4_MULTICAST_SOURCES \<and> list_all (\<lambda>x. length x = 4) xs"

definition membership_ok :: "ipv4_multicast_membership \<Rightarrow> bool" where
  "membership_ok m \<longleftrightarrow> length (mc_group m) = 4 \<and> length (mc_interface_addr m) = 4 \<and>
     sources_ok (mc_blocked_sources m) \<and> sources_ok (mc_included_sources m)"

definition option_ok :: "nat \<times> nat \<times> nat \<Rightarrow> bool" where
  "option_ok p \<longleftrightarrow> fst p < 2 ^ 32 \<and> fst (snd p) < 2 ^ 32 \<and> snd (snd p) < 2 ^ 32"

definition durable_ok :: "socket_info \<Rightarrow> bool" where
  "durable_ok s \<longleftrightarrow> length (sk_bind_addr6 s) = 16 \<and> length (sk_peer_addr6 s) = 16 \<and>
     is_i32 (sk_linger_onoff s) \<and> is_i32 (sk_linger_seconds s) \<and>
     sk_recv_timeout_us s < 2 ^ 64 \<and> sk_send_timeout_us s < 2 ^ 64 \<and>
     pred_option (\<lambda>d. length d \<le> MAX_SOCKET_STRING_LEN) (sk_bind_device s) \<and>
     length (sk_tcp_congestion s) \<le> MAX_SOCKET_STRING_LEN \<and>
     length (sk_memberships s) \<le> MAX_IPV4_MULTICAST_MEMBERSHIPS \<and> list_all membership_ok (sk_memberships s)"

definition socket_ok :: "socket_info \<Rightarrow> bool" where
  "socket_ok s \<longleftrightarrow> durable_ok s \<and> sk_protocol s < 2 ^ 32 \<and> opt_ok (sk_peer_idx s) \<and>
     opt_ok (sk_recv_buf_idx s) \<and> opt_ok (sk_send_buf_idx s) \<and> opt_ok (sk_shared_backlog_idx s) \<and>
     opt_ok (sk_accept_wake_idx s) \<and> net_handle_ok (sk_host_net_handle s) \<and>
     length (sk_options s) \<le> MAX_SOCKET_OPTIONS \<and> list_all option_ok (sk_options s) \<and>
     length (sk_bind_addr s) = 4 \<and> length (sk_peer_addr s) = 4 \<and>
     pred_option (\<lambda>d. length d \<le> MAX_PATH_LEN) (sk_bind_path s)"

text \<open>The child's copy: a clone, with a connection in progress closed.\<close>

definition socket_fork :: "socket_info \<Rightarrow> socket_info" where
  "socket_fork s =
     (socket_clone s)\<lparr> sk_state := (if sk_state s = Connecting then Closed else sk_state s) \<rparr>"

lemma wire_opt:
  assumes "opt_ok x"
  shows "wire (write_opt x) read_opt x [] 4"
proof (rule wire_map [OF wire_u32])
  show "word_opt (opt_word x) = x"
  proof (cases x)
    case (Some v)
    then have v: "v < 2 ^ 32 - 1" using assms by (simp add: opt_ok_def)
    then have u: "unat (of_nat v :: u32) = v" by (simp add: unsigned_of_nat take_bit_nat_eq_self)
    moreover have "unat (0xFFFFFFFF :: u32) = 2 ^ 32 - 1" by simp
    ultimately have "(of_nat v :: u32) \<noteq> 0xFFFFFFFF" using v by (metis less_irrefl)
    then show ?thesis using u Some by (simp add: opt_word_def word_opt_def)
  qed (simp add: opt_word_def word_opt_def)
qed

lemma wire_opt_i32:
  assumes "net_handle_ok x"
  shows "wire (write_u32 (opt_i32_word x)) (r_bind read_u32 (\<lambda>raw. r_ret (word_opt_i32 raw))) x [] 4"
proof (rule wire_map [OF wire_u32])
  show "word_opt_i32 (opt_i32_word x) = x"
  proof (cases x)
    case (Some v)
    then have v: "sint (word_of_int v :: u32) = v" "v \<noteq> - 1"
      using assms sint_i32 by (simp_all add: net_handle_ok_def)
    have "sint (0xFFFFFFFF :: u32) = - 1" by simp
    then have "(word_of_int v :: u32) \<noteq> 0xFFFFFFFF" using v by metis
    then show ?thesis using v Some by (simp add: opt_i32_word_def word_opt_i32_def)
  qed (simp add: opt_i32_word_def word_opt_i32_def)
qed

lemma wire_opt_string:
  assumes "pred_option (\<lambda>s. length s \<le> lim) x" "lim < 2 ^ 32 - 1"
  shows "wire (write_opt_string lim x) (read_opt_string lim) x [] 4"
proof (cases x)
  case None
  show ?thesis unfolding None write_opt_string_def read_opt_string_def option.case
    by (rule wire_weaken, rule wire_bind_pure [OF wire_u32], simp only: if_True simp_thms, rule wire_ret) simp_all
next
  case (Some s)
  then have s: "length s \<le> lim" "length s \<le> U32_MAX" "length s < 2 ^ 32 - 1"
    using assms by (simp_all add: U32_MAX_def)
  have u: "unat (of_nat (length s) :: u32) = length s" using s(3) by (simp add: unsigned_of_nat take_bit_nat_eq_self)
  moreover have "unat (0xFFFFFFFF :: u32) = 2 ^ 32 - 1" by simp
  ultimately have ne: "((of_nat (length s) :: u32) = 0xFFFFFFFF) = False" using s(3) by (metis less_irrefl)
  have len: "wire (write_bounded_len (length s) lim) read_u32 (of_nat (length s)) [] 4"
    using wire_intro [OF emits_bounded_len [OF s(1,2)] parses_u32] by simp
  show ?thesis unfolding Some write_opt_string_def read_opt_string_def option.case
    by (rule wire_weaken, rule wire_bind_pure [OF len], simp only: ne if_False u, rule wire_single,
        rule wire_map [OF wire_bounded_bytes]) (simp_all add: s)
qed

lemma wire_ipv4_source_list:
  assumes "sources_ok xs"
  shows "wire (write_ipv4_source_list xs) read_ipv4_source_list xs [] 4"
proof -
  have n: "length xs \<le> MAX_IPV4_MULTICAST_SOURCES" "length xs \<le> U32_MAX" "length xs < 2 ^ 32"
    and four: "\<forall>x \<in> set xs. length x = 4"
    using assms by (simp_all add: sources_ok_def list_all_iff MAX_IPV4_MULTICAST_SOURCES_def U32_MAX_def)
  have "wire (w_seq (map write_bytes xs)) (r_loop (length xs) (r_push read_ipv4_addr) [])
      (foldl (\<lambda>acc x. acc @ [x]) [] xs) (concat (map (\<lambda>_. []) xs)) (length xs * 4)"
    using four wire_bytes [of _ 4]
    by (intro wire_fold) (metis read_ipv4_addr_def r_push_def wire_map)
  moreover have "foldl (\<lambda>acc x. acc @ [x]) [] xs = xs" by (induction xs rule: rev_induct) simp_all
  ultimately have "wire (w_seq (map write_bytes xs)) (r_loop (length xs) (r_push read_ipv4_addr) []) xs [] (length xs * 4)"
    by simp
  note body = wire_guard [OF wire_single [OF this] order_refl]
  show ?thesis unfolding write_ipv4_source_list_def read_ipv4_source_list_def
    by (rule wire_weaken, rule wire_bind_pure [OF wire_bounded_count [OF n(1,2,1,3)]], rule body) simp
qed

lemma wire_membership:
  assumes "membership_ok m"
  shows "wire (write_membership m) read_membership m [] 20"
proof -
  have ok: "length (mc_group m) = 4" "length (mc_interface_addr m) = 4"
    "sources_ok (mc_blocked_sources m)" "sources_ok (mc_included_sources m)"
    using assms by (simp_all add: membership_ok_def)
  have flag: "wire (write_flag b) (r_bind read_u32
      (\<lambda>v. if v = 0 then r_ret False else if v = 1 then r_ret True else r_fail EINVAL)) b [] 4" for b
  proof -
    have "r_of (if v = 0 then Ok False else if v = 1 then Ok True else Err EINVAL) =
        (if v = 0 then r_ret False else if v = 1 then r_ret True else r_fail EINVAL)" for v :: u32
      by (simp add: r_of_def r_ret_def r_fail_def fun_eq_iff)
    then show ?thesis
      using wire_of [OF wire_u32 [of "if b then 1 else 0"],
          of "\<lambda>v. if v = 0 then Ok False else if v = 1 then Ok True else Err EINVAL" b] by simp
  qed
  show ?thesis unfolding write_membership_def read_membership_def read_ipv4_addr_def
    by (rule wire_weaken, rule wire_bind_pure [OF wire_bytes [OF ok(1)]], rule wire_bind_pure [OF wire_bytes [OF ok(2)]],
        rule wire_bind_pure [OF flag], rule wire_bind_pure [OF wire_ipv4_source_list [OF ok(3)]],
        rule wire_bind_pure [OF wire_ipv4_source_list [OF ok(4)]], rule wire_ret) (simp_all add: ok)
qed

interpretation membership_wire: wire_format write_membership read_membership membership_ok "\<lambda>m. m" "\<lambda>m. []" 20
  by unfold_locales (rule wire_membership)

lemma wire_socket_option: "option_ok p \<Longrightarrow> wire (write_socket_option p) read_socket_option p [] 12"
  unfolding write_socket_option_def read_socket_option_def option_ok_def
  by (rule wire_weaken, (rule wire_rules | simp)+)

interpretation option_wire: wire_format write_socket_option read_socket_option option_ok "\<lambda>p. p" "\<lambda>p. []" 12
  by unfold_locales (rule wire_socket_option)

definition with_durable :: "socket_info \<Rightarrow> socket_info \<Rightarrow> socket_info" where
  "with_durable s s' =
     s'\<lparr> sk_bind_addr6 := sk_bind_addr6 s, sk_peer_addr6 := sk_peer_addr6 s,
        sk_linger_onoff := sk_linger_onoff s, sk_linger_seconds := sk_linger_seconds s,
        sk_recv_timeout_us := sk_recv_timeout_us s, sk_send_timeout_us := sk_send_timeout_us s,
        sk_bind_device := sk_bind_device s, sk_tcp_congestion := sk_tcp_congestion s,
        sk_memberships := sk_memberships s \<rparr>"

lemma wire_durable:
  assumes "durable_ok s"
  shows "wire (write_durable_socket_state s) (read_durable_socket_state s') (with_durable s s') [] 64"
proof -
  have ok: "length (sk_bind_addr6 s) = 16" "length (sk_peer_addr6 s) = 16"
    "is_i32 (sk_linger_onoff s)" "is_i32 (sk_linger_seconds s)"
    "sk_recv_timeout_us s < 2 ^ 64" "sk_send_timeout_us s < 2 ^ 64"
    "pred_option (\<lambda>d. length d \<le> MAX_SOCKET_STRING_LEN) (sk_bind_device s)"
    "length (sk_tcp_congestion s) \<le> MAX_SOCKET_STRING_LEN"
    "length (sk_memberships s) \<le> MAX_IPV4_MULTICAST_MEMBERSHIPS" "list_all membership_ok (sk_memberships s)"
    using assms by (simp_all add: durable_ok_def)
  have cong: "length (sk_tcp_congestion s) \<le> U32_MAX" "length (sk_tcp_congestion s) < 2 ^ 32"
    and mem: "length (sk_memberships s) \<le> U32_MAX" "length (sk_memberships s) < 2 ^ 32"
    and lim: "MAX_SOCKET_STRING_LEN < 2 ^ 32 - 1"
    using ok(8,9) by (simp_all add: socket_limits U32_MAX_def)
  have ms: "wire (w_seq (map write_membership (sk_memberships s)))
      (r_loop (length (sk_memberships s)) (r_push read_membership) []) (sk_memberships s) []
      (length (sk_memberships s) * 20)"
    using membership_wire.push_agrees [OF ok(10), of "[]"] by simp
  show ?thesis unfolding write_durable_socket_state_def read_durable_socket_state_def
    by (rule wire_weaken, rule wire_bind_pure [OF wire_bytes [OF ok(1)]], rule wire_bind_pure [OF wire_bytes [OF ok(2)]],
        rule wire_bind_pure [OF wire_i32 [OF ok(3)]], rule wire_bind_pure [OF wire_i32 [OF ok(4)]],
        rule wire_bind_pure [OF wire_nat64 [OF ok(5)]], rule wire_bind_pure [OF wire_nat64 [OF ok(6)]],
        rule wire_bind_pure [OF wire_opt_string [OF ok(7) lim]],
        rule wire_bind_pure [OF wire_bounded_count [OF ok(8) cong(1) ok(8) cong(2)]],
        rule wire_bind_pure [OF wire_bounded_bytes [OF refl ok(8)]],
        rule wire_bind_pure [OF wire_bounded_count [OF ok(9) mem(1) ok(9) mem(2)]],
        rule wire_bind_pure [OF wire_guard [OF ms order_refl]], rule wire_ret)
      (simp_all add: with_durable_def ok(1,2))
qed

lemma socket_codes:
  "code_domain (domain_code d) = Ok d" "code_type (type_code ty) = Ok ty"
  "code_state (state_code st) = Ok (if st = Connecting then Closed else st)"
proof -
  show "code_domain (domain_code d) = Ok d" by (cases d) (simp_all add: code_domain_def)
  show "code_type (type_code ty) = Ok ty" by (cases ty) (simp_all add: code_type_def)
  show "code_state (state_code st) = Ok (if st = Connecting then Closed else st)"
    by (cases st) (simp_all add: code_state_def)
qed

lemma wire_port: "wire (write_u32 (ucast v)) read_port v [] 4"
proof -
  have "ucast (ucast v :: u32) = (v :: u16)" by (rule bit_word_eqI) (simp add: bit_simps)
  then show ?thesis unfolding read_port_def by (rule wire_map [OF wire_u32])
qed

lemma wire_skip_backlog: "wire (write_u32 0) (skip_backlog n) () [] 4"
proof -
  have "r_guard 0 (r_loop 0 st ()) d = r_ret ()" for st and d :: "unit reader_op"
    by (simp add: r_guard_def fun_eq_iff)
  then have "(if USIZE_MAX < (0::nat) * 4 \<or> n < 0 then r_fail EINVAL
      else r_guard (0 * 4) (r_loop 0 st ()) (r_fail EINVAL)) = r_ret ()" for st
    by simp
  then have "wire (w_seq [write_u32 0]) (skip_backlog n) () [] (4 + 0)"
    unfolding skip_backlog_def
    by (intro wire_bind_pure [OF wire_nat32 [of 0, simplified]]) (simp add: wire_ret)
  then show ?thesis by (simp add: wire_seq_single)
qed

lemma wire_socket:
  assumes "socket_ok s"
  shows "wire (w_seq (socket_fields s)) (read_socket n) (socket_fork s) [] 100"
proof -
  have ok: "durable_ok s" "sk_protocol s < 2 ^ 32" "opt_ok (sk_peer_idx s)" "opt_ok (sk_recv_buf_idx s)"
    "opt_ok (sk_send_buf_idx s)" "opt_ok (sk_shared_backlog_idx s)" "opt_ok (sk_accept_wake_idx s)"
    "net_handle_ok (sk_host_net_handle s)" "length (sk_options s) \<le> MAX_SOCKET_OPTIONS"
    "list_all option_ok (sk_options s)" "length (sk_bind_addr s) = 4" "length (sk_peer_addr s) = 4"
    "pred_option (\<lambda>d. length d \<le> MAX_PATH_LEN) (sk_bind_path s)"
    using assms by (simp_all add: socket_ok_def)
  have few: "(MAX_SOCKET_OPTIONS < length (sk_options s)) = False" "length (sk_options s) < 2 ^ 32"
    and lim: "MAX_PATH_LEN < 2 ^ 32 - 1"
    using ok(9) by (simp_all add: socket_limits)
  have count: "wire (write_nat32 (length (sk_options s))) (read_bounded_count MAX_SOCKET_OPTIONS)
      (length (sk_options s)) [] 4"
    using wire_intro [OF emits_u32 parses_bounded_count [OF ok(9) few(2)]] by simp
  have opts: "wire (w_seq (map write_socket_option (sk_options s)))
      (r_loop (length (sk_options s)) (r_push read_socket_option) []) (sk_options s) []
      (length (sk_options s) * 12)"
    using option_wire.push_agrees [OF ok(10), of "[]"] by simp
  have view: "with_durable s
     ((socket_new (sk_domain s) (sk_type s) (sk_protocol s))
      \<lparr> sk_state := if sk_state s = Connecting then Closed else sk_state s, sk_peer_idx := sk_peer_idx s,
        sk_recv_buf_idx := sk_recv_buf_idx s, sk_send_buf_idx := sk_send_buf_idx s,
        sk_shut_rd := sk_shut_rd s, sk_shut_wr := sk_shut_wr s, sk_host_net_handle := sk_host_net_handle s,
        sk_options := sk_options s, sk_bind_addr := sk_bind_addr s, sk_bind_port := sk_bind_port s,
        sk_peer_addr := sk_peer_addr s, sk_peer_port := sk_peer_port s, sk_global_pipes := sk_global_pipes s,
        sk_shared_backlog_idx := sk_shared_backlog_idx s, sk_bind_path := sk_bind_path s,
        sk_accept_wake_idx := sk_accept_wake_idx s \<rparr>) = socket_fork s"
    by (simp add: with_durable_def socket_new_def socket_fork_def socket_clone_def)
  show ?thesis unfolding socket_fields_def read_socket_def few(1) if_False
    by (rule wire_weaken, rule wire_bind_pure [OF wire_of [where h = code_domain, OF wire_u32 socket_codes(1)]],
        rule wire_bind_pure [OF wire_of [where h = code_type, OF wire_u32 socket_codes(2)]],
        rule wire_bind_pure [OF wire_nat32 [OF ok(2)]],
        rule wire_bind_pure [OF wire_of [where h = code_state, OF wire_u32 socket_codes(3)]],
        rule wire_bind_pure [OF wire_opt [OF ok(3)]], rule wire_bind_pure [OF wire_opt [OF ok(4)]],
        rule wire_bind_pure [OF wire_opt [OF ok(5)]], rule wire_bind_pure [OF wire_flag],
        rule wire_bind_pure [OF wire_flag], rule wire_bind_pure [OF wire_opt_i32 [OF ok(8)]],
        rule wire_bind_pure [OF count], rule wire_bind_pure [OF wire_guard [OF opts order_refl]],
        rule wire_bind_pure [OF wire_bytes [OF ok(11)]], rule wire_bind_pure [OF wire_port],
        rule wire_bind_pure [OF wire_bytes [OF ok(12)]], rule wire_bind_pure [OF wire_port],
        rule wire_bind_pure [OF wire_skip_backlog], rule wire_bind_pure [OF wire_flag],
        rule wire_bind_pure [OF wire_opt [OF ok(6)]], rule wire_bind_pure [OF wire_opt_string [OF ok(13) lim]],
        rule wire_bind_pure [OF wire_opt [OF ok(7)]], rule wire_single, subst view [symmetric],
        rule wire_durable [OF ok(1)]) simp
qed

section \<open>The forked table\<close>

definition sockets_ok :: "socket_table \<Rightarrow> bool" where
  "sockets_ok t \<longleftrightarrow> length t \<le> MAX_SOCKET_SLOTS \<and> list_all (pred_option socket_ok) t"

definition fork_sockets :: "socket_table \<Rightarrow> socket_table" where
  "fork_sockets t = foldl (\<lambda>t p. place t (fst p) (socket_fork (snd p))) [] (sock_iter t)"

lemma sock_iter_map: "distinct (map fst (sock_iter t)) \<and> map_of (sock_iter t) i = slot t i"
  unfolding sock_iter_def using distinct_map_filter_fst [of "\<lambda>i. i" "[0..<length t]" "sock_get t"]
  by (simp add: map_of_map_filter_upt sock_get_def slot_def)

lemma sock_iter_bounds: "p \<in> set (sock_iter t) \<Longrightarrow> fst p < length t \<and> slot t (fst p) = Some (snd p)"
  using sock_iter_map [of t "fst p"] by (cases p) (auto dest: map_of_is_SomeI intro: slot_Some_less [OF sym])

lemma fork_sockets_lookup: "sock_get (fork_sockets t) i = map_option socket_fork (sock_get t i)"
proof -
  let ?ps = "map (\<lambda>p. (fst p, socket_fork (snd p))) (sock_iter t)"
  have "distinct (map fst ?ps)" using sock_iter_map [of t] by (simp add: comp_def)
  then have "slot (foldl (\<lambda>es p. place es (fst p) (snd p)) [] ?ps) = slot [] ++ map_of ?ps"
    by (rule slot_place_all)
  then have "slot (fork_sockets t) i = map_of ?ps i"
    by (simp add: fork_sockets_def foldl_map map_add_def split: option.splits)
  then show ?thesis
    using map_of_map_keyed [of "\<lambda>_. socket_fork" "sock_iter t" i] sock_iter_map [of t i]
    by (simp add: sock_get_def)
qed

lemma wire_sockets:
  assumes "sockets_ok t"
  shows "wire (write_sockets t) read_sockets (fork_sockets t) [] 8"
proof -
  let ?ps = "sock_iter t"
  let ?f = "\<lambda>(seen, t) p. (fst p # seen, sock_insert_at t (fst p) (socket_fork (snd p)))"
  have few: "(MAX_SOCKET_SLOTS < length t) = False" "length t < 2 ^ 32"
    using assms by (simp_all add: sockets_ok_def MAX_SOCKET_SLOTS_def)
  have sub: "length ?ps \<le> length t"
    unfolding sock_iter_def List.map_filter_def by (simp, rule order_trans [OF length_filter_le]) simp
  then have sub': "(length t < length ?ps) = False" "length ?ps < 2 ^ 32" using few(2) by simp_all
  have ok: "fst p < length t \<and> socket_ok (snd p)" if "p \<in> set ?ps" for p
    using sock_iter_bounds [OF that] assms by (auto simp: sockets_ok_def list_all_length slot_def)
  let ?step = "\<lambda>(seen, tab).
      r_bind read_nat32 (\<lambda>i.
        if length t \<le> i \<or> i \<in> set seen then r_fail EINVAL
        else r_bind (read_socket (length t)) (\<lambda>s. r_ret (i # seen, sock_insert_at tab i s)))"
  let ?I = "\<lambda>(seen, tab :: socket_table) ps. set ps \<subseteq> set ?ps \<and> distinct (map fst ps) \<and> set seen \<inter> fst ` set ps = {}"
  have step: "wire (write_socket p) (?step st) (?f st p) [] 104 \<and> ?I (?f st p) ps"
    if I: "?I st (p # ps)" for st p ps
  proof -
    obtain seen tab i s where st: "st = (seen, tab)" "p = (i, s)" by (metis surj_pair)
    have p: "(length t \<le> i \<or> i \<in> set seen) = False" "i < 2 ^ 32" "socket_ok s"
      using I ok [of "(i, s)"] few(2) unfolding st by auto
    have "wire (write_socket (i, s)) (?step (seen, tab)) (i # seen, sock_insert_at tab i (socket_fork s)) [] 104"
      unfolding write_socket_def fst_conv snd_conv prod.case
      by (rule wire_weaken, rule wire_bind_pure [OF wire_nat32 [OF p(2)]], simp only: p(1) if_False,
          rule wire_map [OF wire_socket [OF p(3)]]) simp_all
    then show ?thesis using I unfolding st by auto
  qed
  have "wire (w_seq (map write_socket ?ps)) (r_loop (length ?ps) ?step ([], []))
      (foldl ?f ([], []) ?ps) (concat (map (\<lambda>_. []) ?ps)) (length ?ps * 104)"
    by (rule wire_fold_inv [where I = ?I, OF step], assumption) (use sock_iter_map [of t] in auto)
  then have "wire (w_seq (map write_socket ?ps)) (r_loop (length ?ps) ?step ([], []))
      (foldl ?f ([], []) ?ps) [] (length ?ps * 104)" by simp
  note body = this
  have "snd (foldl ?f (seen, tab) ps) = foldl (\<lambda>t p. place t (fst p) (socket_fork (snd p))) tab ps" for seen tab ps
    by (induction ps arbitrary: seen tab) (simp_all add: sock_insert_at_def)
  then have view: "(\<lambda>(seen, tab). tab) (foldl ?f ([], []) ?ps) = fork_sockets t"
    by (simp add: fork_sockets_def case_prod_beta)
  have ret: "(\<lambda>(seen, tab). r_ret tab) = (\<lambda>st. r_ret ((\<lambda>(seen :: nat list, tab :: socket_table). tab) st))"
    by (rule ext) (simp add: case_prod_beta)
  have "wire (w_seq [w_seq (map write_socket ?ps)])
      (r_bind (r_loop (length ?ps) ?step ([], [])) (\<lambda>(seen, tab). r_ret tab)) (fork_sockets t) [] (length ?ps * 104)"
    unfolding ret by (rule wire_single, rule wire_map [OF body], rule view)
  note body = this
  show ?thesis unfolding write_sockets_def read_sockets_def few(1) if_False
    by (rule wire_weaken, rule wire_bind_pure [OF wire_nat32 [OF few(2)]],
        rule wire_bind_pure [OF wire_nat32 [OF sub'(2)]], simp only: few(1) sub'(1) simp_thms if_False,
        rule body) simp
qed

end
