(* ===== verification/Process_Image.thy ===== *)
theory Process_Image
  imports Socket_State Process_Signals Terminal Memory_Manager
begin

text \<open>
  The process image that crosses fork and exec (\<^verbatim>\<open>src/crates/kernel/src/fork.rs\<close>,
  \<open>serialize_fork_state\<close> to \<open>deserialize_exec_state\<close>) and the loop that grows the buffer it is
  written to (\<^verbatim>\<open>src/crates/kernel/src/process_table.rs\<close>).  The record extends the signal
  state of a process by the rest of \<open>Process\<close>; directory streams, epoll instances, framebuffer
  and graphics bindings, which every image resets to empty, are left out.  The lemmas show that a
  process whose fields fit the format gets through the image, and say what the new process is.
\<close>

unbundle bit_operations_syntax

section \<open>The process\<close>

datatype fd_action = Dup2Action int int | CloseAction int | OpenAction int "u8 list" int int

record process_image = process +
  ppid :: nat
  gid :: nat
  euid :: nat
  egid :: nat
  pgid :: nat
  sid :: nat
  is_session_leader :: bool
  fds :: fd_table
  ofds :: ofd_table
  sockets :: socket_table
  cwd :: "u8 list"
  memory :: memory_manager
  terminal :: terminal_state
  environ :: "u8 list list"
  argv :: "u8 list list"
  umask :: nat
  nice :: int
  rlimits :: "(nat \<times> nat) list"
  alarm_deadline_ns :: nat
  alarm_interval_ns :: nat
  thread_name :: "u8 list"
  fork_child :: bool
  fork_exec_path :: "u8 list option"
  fork_exec_argv :: "u8 list list option"
  fork_fd_actions :: "fd_action list"
  next_ephemeral_port :: nat
  fork_pipe_replay :: "(int \<times> int) list"
  has_exec :: bool
  fork_count :: nat

definition FORK_MAGIC :: u32 where "FORK_MAGIC = 0x464F524B"
definition EXEC_MAGIC :: u32 where "EXEC_MAGIC = 0x45584543"
definition FORK_VERSION :: u32 where "FORK_VERSION = 12"
definition MAX_ENV_VARS :: nat where "MAX_ENV_VARS = 65536"
definition MAX_ARGV :: nat where "MAX_ARGV = 65536"
definition MAX_STRING_LEN :: nat where "MAX_STRING_LEN = 1048576"
definition MAX_DIRECTED_SIGNAL_QUEUE :: nat where "MAX_DIRECTED_SIGNAL_QUEUE = 65536"
definition INITIAL_STATE_BUFFER_LEN :: nat where "INITIAL_STATE_BUFFER_LEN = 64 * 1024"
definition MAX_STATE_BUFFER_LEN :: nat where "MAX_STATE_BUFFER_LEN = 4 * 1024 * 1024"

section \<open>Signal dispositions\<close>

fun handler_to_u32 :: "signal_handler \<Rightarrow> u32" where
  "handler_to_u32 Default = 0"
| "handler_to_u32 Ignore = 1"
| "handler_to_u32 (Handler ptr) = 2 + ptr"

definition u32_to_handler :: "u32 \<Rightarrow> signal_handler" where
  "u32_to_handler v = (if v = 0 then Default else if v = 1 then Ignore else Handler (v - 2))"

definition non_default :: "signal_state \<Rightarrow> nat \<Rightarrow> bool" where
  "non_default s i \<longleftrightarrow>
     get_handler s i \<noteq> Default \<or> sa_flags (get_action s i) \<noteq> 0 \<or> sa_mask (get_action s i) \<noteq> 0"

definition write_action :: "signal_state \<Rightarrow> nat \<Rightarrow> writer_op" where
  "write_action s i =
     w_seq [write_nat32 i, write_u32 (handler_to_u32 (handler (get_action s i))),
            write_u32 (sa_flags (get_action s i)), write_u64 (sa_mask (get_action s i))]"

definition write_fork_signals :: "signal_state \<Rightarrow> writer_op" where
  "write_fork_signals s =
     w_seq [write_u64 (blocked s), write_nat32 (length (filter (non_default s) [1..<65])),
            w_seq (map (write_action s) (filter (non_default s) [1..<65]))]"

definition read_action :: "signal_action list \<Rightarrow> signal_action list reader_op" where
  "read_action acts =
     r_bind read_nat32 (\<lambda>n. r_bind read_u32 (\<lambda>h. r_bind read_u32 (\<lambda>fl. r_bind read_u64 (\<lambda>m.
       r_ret (if n < 65
              then acts[n := \<lparr> handler = u32_to_handler h, sa_flags = fl, sa_mask = m \<rparr>]
              else acts)))))"

definition read_fork_signals :: "signal_state reader_op" where
  "read_fork_signals =
     r_bind read_u64 (\<lambda>bl. r_bind read_nat32 (\<lambda>handler_count.
       if 64 < handler_count then r_fail EINVAL
       else r_bind (r_loop handler_count read_action (replicate 65 signal_action_default)) (\<lambda>acts.
              r_ret (from_actions acts bl))))"

text \<open>Exec keeps ignored signals and the pending ones.\<close>

definition ignored_signals :: "signal_state \<Rightarrow> nat list" where
  "ignored_signals s = filter (\<lambda>i. 0 < i \<and> handlers_of s ! i = Ignore) [0..<length (handlers_of s)]"

definition write_ignored :: "nat \<Rightarrow> writer_op" where
  "write_ignored i = w_seq [write_nat32 i, write_u32 (handler_to_u32 Ignore)]"

definition write_exec_signals :: "signal_state \<Rightarrow> writer_op" where
  "write_exec_signals s =
     w_seq [write_u64 (blocked s), write_nat32 (length (ignored_signals s)),
            w_seq (map write_ignored (ignored_signals s)), write_u64 (pending s)]"

definition read_handler :: "signal_handler list \<Rightarrow> signal_handler list reader_op" where
  "read_handler hs =
     r_bind read_nat32 (\<lambda>n. r_bind read_u32 (\<lambda>h.
       r_ret (if n < 64 then hs[n := u32_to_handler h] else hs)))"

definition read_exec_signals :: "signal_state reader_op" where
  "read_exec_signals =
     r_bind read_u64 (\<lambda>bl. r_bind read_nat32 (\<lambda>handler_count.
       if 64 < handler_count then r_fail EINVAL
       else r_bind (r_loop handler_count read_handler (replicate 65 Default)) (\<lambda>hs.
              r_bind read_u64 (\<lambda>pend. r_ret (from_parts_with_pending hs bl pend)))))"

subsection \<open>Signals directed to the main thread\<close>

definition write_rt_entry :: "rt_sig_entry \<Rightarrow> writer_op" where
  "write_rt_entry e =
     w_seq [write_nat32 (signum e), write_i32 (si_value e), write_i32 (si_code e),
            write_i32 (case timer_id e of None \<Rightarrow> - 1 | Some i \<Rightarrow> as_i32 i)]"

definition write_directed_signal_state :: "per_thread_signal_state \<Rightarrow> writer_op" where
  "write_directed_signal_state s =
     w_seq [write_u64 (pending s),
            (if MAX_DIRECTED_SIGNAL_QUEUE < length (rt_queue s) then w_fail E2BIG
             else write_nat32 (length (rt_queue s))),
            w_seq (map write_rt_entry (rt_queue s))]"

definition read_rt_entry :: "u64 \<Rightarrow> rt_sig_entry reader_op" where
  "read_rt_entry pend =
     r_bind read_nat32 (\<lambda>n.
       if n = 0 \<or> n \<ge> NSIG \<or> pend AND sig_bit n = 0 then r_fail EINVAL
       else
         r_bind read_i32 (\<lambda>v. r_bind read_i32 (\<lambda>c.
         r_bind (r_bind read_i32 (\<lambda>t.
           r_of (if t = - 1 then Ok None else if 0 \<le> t then Ok (Some (nat t)) else Err EINVAL))) (\<lambda>tid.
             r_ret \<lparr> signum = n, si_value = v, si_code = c, timer_id = tid \<rparr>))))"

definition read_directed_signal_state :: "per_thread_signal_state reader_op" where
  "read_directed_signal_state =
     r_bind read_u64 (\<lambda>pend. r_bind read_nat32 (\<lambda>count.
       if MAX_DIRECTED_SIGNAL_QUEUE < count then r_fail EINVAL
       else r_bind (r_loop count (r_push (read_rt_entry pend)) []) (\<lambda>q.
              r_ret (per_thread_signal_state_new\<lparr> pending := pend, rt_queue := q \<rparr>))))"

definition discard_legacy_exec_timer_notifications :: "per_thread_signal_state \<Rightarrow> per_thread_signal_state" where
  "discard_legacy_exec_timer_notifications s =
     (let timer_signums = map signum (filter (\<lambda>e. timer_id e \<noteq> None) (rt_queue s));
          q = filter (\<lambda>e. timer_id e = None) (rt_queue s)
      in s\<lparr> rt_queue := q,
            pending := foldl (\<lambda>p n. if queued q n then p else p AND NOT (sig_bit n)) (pending s) timer_signums \<rparr>)"

section \<open>Strings, limits, terminal and memory\<close>

definition write_strings :: "u8 list list \<Rightarrow> writer_op" where
  "write_strings ss = w_seq [write_nat32 (length ss), w_seq (map write_string ss)]"

definition read_strings :: "nat \<Rightarrow> u8 list list reader_op" where
  "read_strings lim =
     r_bind read_nat32 (\<lambda>count.
       if lim < count then r_fail EINVAL else r_loop count (r_push (read_string MAX_STRING_LEN)) [])"

definition write_rlimit :: "nat \<times> nat \<Rightarrow> writer_op" where
  "write_rlimit p = w_seq [write_nat64 (fst p), write_nat64 (snd p)]"

definition read_rlimit :: "(nat \<times> nat) reader_op" where
  "read_rlimit = r_bind read_nat64 (\<lambda>soft. r_bind read_nat64 (\<lambda>hard. r_ret (soft, hard)))"

definition write_terminal :: "terminal_state \<Rightarrow> writer_op" where
  "write_terminal t =
     w_seq [write_u32 (c_iflag t), write_u32 (c_oflag t), write_u32 (c_cflag t), write_u32 (c_lflag t),
            write_bytes (c_cc t), write_u16 (ws_row (winsize t)), write_u16 (ws_col (winsize t)),
            write_u16 (ws_xpixel (winsize t)), write_u16 (ws_ypixel (winsize t)), write_u8 (c_line t),
            write_u32 (c_ispeed t), write_u32 (c_ospeed t), write_i32 (tty_session_id t)]"

definition read_terminal :: "terminal_state reader_op" where
  "read_terminal =
     r_bind read_u32 (\<lambda>ifl. r_bind read_u32 (\<lambda>ofl. r_bind read_u32 (\<lambda>cfl. r_bind read_u32 (\<lambda>lfl.
     r_bind (read_bytes NCCS) (\<lambda>cc. r_bind read_u16 (\<lambda>row. r_bind read_u16 (\<lambda>col. r_bind read_u16 (\<lambda>xp.
     r_bind read_u16 (\<lambda>yp. r_bind (r_or read_u8 0) (\<lambda>line. r_bind (r_or read_u32 B38400) (\<lambda>isp.
     r_bind (r_or read_u32 B38400) (\<lambda>osp. r_bind (r_or read_i32 0) (\<lambda>sess.
       r_ret \<lparr> c_iflag = ifl, c_oflag = ofl, c_cflag = cfl, c_lflag = lfl, c_line = line, c_cc = cc,
               c_ispeed = isp, c_ospeed = osp,
               winsize = \<lparr> ws_row = row, ws_col = col, ws_xpixel = xp, ws_ypixel = yp \<rparr>,
               foreground_pgid = 1, tty_session_id = sess, line_buffer = [], cooked_buffer = [] \<rparr>)))))))))))))"

definition write_mapping :: "mapped_region \<Rightarrow> writer_op" where
  "write_mapping m =
     w_seq [write_nat32 (mr_addr m), write_nat32 (mr_len m), write_nat32 (mr_prot m), write_u32 (mr_flags m)]"

definition write_layout :: "memory_manager \<Rightarrow> writer_op" where
  "write_layout m =
     (let d = layout_metadata_of m
      in w_seq [write_nat32 (program_break m), write_nat32 (lm_initial_brk d), write_nat32 (lm_max_addr d),
                write_nat32 (lm_brk_limit d), write_nat32 (lm_mmap_base d), write_nat32 (lm_reserved_until d)])"

definition write_mappings :: "memory_manager \<Rightarrow> writer_op" where
  "write_mappings m = w_seq [write_nat32 (length (mappings m)), w_seq (map write_mapping (mappings m))]"

definition read_mapping :: "mapped_region reader_op" where
  "read_mapping =
     r_bind read_nat32 (\<lambda>a. r_bind read_nat32 (\<lambda>l. r_bind read_nat32 (\<lambda>p. r_bind read_u32 (\<lambda>f.
       r_ret \<lparr> mr_addr = a, mr_len = l, mr_prot = p, mr_flags = f \<rparr>))))"

definition read_layout :: "memory_manager reader_op" where
  "read_layout =
     r_bind read_nat32 (\<lambda>brk. r_bind read_nat32 (\<lambda>ib. r_bind read_nat32 (\<lambda>ma. r_bind read_nat32 (\<lambda>bl.
     r_bind read_nat32 (\<lambda>mb. r_bind read_nat32 (\<lambda>ru.
       r_ret (fst (set_brk (set_layout_metadata memory_new
         \<lparr> lm_initial_brk = ib, lm_max_addr = ma, lm_brk_limit = bl, lm_mmap_base = mb,
           lm_reserved_until = ru \<rparr>) brk))))))))"

definition read_mappings :: "memory_manager \<Rightarrow> memory_manager reader_op" where
  "read_mappings m =
     r_guard 4
       (r_bind read_nat32 (\<lambda>mapping_count.
          if 4096 < mapping_count then r_fail EINVAL
          else r_bind (r_loop mapping_count (r_push read_mapping) []) (\<lambda>ms. r_ret (set_mappings m ms))))
       (r_ret m)"

section \<open>What a forked child is to exec\<close>

definition write_exec_path :: "u8 list option \<Rightarrow> writer_op" where
  "write_exec_path p =
     (case p of None \<Rightarrow> w_seq [write_u32 0] | Some path \<Rightarrow> write_string path)"

definition write_exec_argv :: "u8 list list option \<Rightarrow> writer_op" where
  "write_exec_argv a =
     (case a of None \<Rightarrow> w_seq [write_u32 0] | Some args \<Rightarrow> write_strings args)"

fun write_fd_action :: "fd_action \<Rightarrow> writer_op" where
  "write_fd_action (Dup2Action old_fd new_fd) =
     w_seq [write_u32 0, write_u32 (word_of_int old_fd), write_u32 (word_of_int new_fd)]"
| "write_fd_action (CloseAction fd) = w_seq [write_u32 1, write_u32 (word_of_int fd), write_u32 0]"
| "write_fd_action (OpenAction fd path fl mode) =
     w_seq [write_u32 2, write_u32 (word_of_int fd), write_u32 0]"

definition read_exec_path :: "u8 list option reader_op" where
  "read_exec_path =
     r_guard 4
       (r_bind read_nat32 (\<lambda>path_len.
          if 0 < path_len then r_bind (read_bounded_bytes path_len MAX_PATH_LEN) (\<lambda>p. r_ret (Some p))
          else r_ret None))
       (r_ret None)"

definition read_exec_argv :: "u8 list list option reader_op" where
  "read_exec_argv =
     r_guard 4
       (r_bind read_nat32 (\<lambda>argc.
          if 0 < argc then
            (if MAX_ARGV < argc then r_fail EINVAL
             else r_bind (r_loop argc (r_push (read_string MAX_STRING_LEN)) []) (\<lambda>args. r_ret (Some args)))
          else r_ret None))
       (r_ret None)"

text \<open>\<open>u32 as i32\<close>.\<close>

abbreviation read_cast_i32 :: "int reader_op" where
  "read_cast_i32 \<equiv> r_bind read_u32 (\<lambda>v. r_ret (sint v))"

definition read_fd_action :: "fd_action list \<Rightarrow> fd_action list reader_op" where
  "read_fd_action acc =
     r_bind read_u32 (\<lambda>ty. r_bind read_cast_i32 (\<lambda>fd1. r_bind read_cast_i32 (\<lambda>fd2.
       r_ret (if ty = 0 then acc @ [Dup2Action fd1 fd2]
              else if ty = 1 then acc @ [CloseAction fd1] else acc))))"

definition read_fd_actions :: "fd_action list reader_op" where
  "read_fd_actions =
     r_guard 4 (r_bind read_nat32 (\<lambda>action_count. r_loop action_count read_fd_action [])) (r_ret [])"

section \<open>The fork image\<close>

definition write_header :: "u32 \<Rightarrow> writer_op" where
  "write_header magic = w_seq [write_u32 magic, write_u32 FORK_VERSION, write_u32 0]"

text \<open>Everything after the header.\<close>

definition fork_fields :: "process_image \<Rightarrow> writer_op list" where
  "fork_fields p =
     [write_nat32 (pid p), write_nat32 (uid p), write_nat32 (gid p), write_nat32 (euid p), write_nat32 (egid p),
      write_nat32 (pgid p), write_nat32 (sid p), write_nat32 (umask p), write_u32 (word_of_int (nice p)),
      write_flag (is_session_leader p), write_fork_signals (signals p),
      write_fd_section FD_CLOFORK (fds p), write_ofd_section FD_CLOFORK False (fds p) (ofds p),
      write_strings (environ p), write_strings (argv p), write_string (cwd p),
      w_seq (map write_rlimit (rlimits p)), write_terminal (terminal p), write_layout (memory p),
      write_mappings (memory p), write_exec_path (fork_exec_path p), write_exec_argv (fork_exec_argv p),
      w_seq [write_nat32 (length (fork_fd_actions p)), w_seq (map write_fd_action (fork_fd_actions p))],
      write_sockets (sockets p)]"

text \<open>The total size, at offset 8, is written last; the result is the buffer and the length used.\<close>

definition serialize_with :: "u32 \<Rightarrow> writer_op list \<Rightarrow> u8 list \<Rightarrow> u8 list \<times> nat result" where
  "serialize_with magic ms buf =
     (case w_seq (write_header magic # ms) (writer_new buf) of
        (w, Inl e) \<Rightarrow> (w_buf w, Err e)
      | (w, Inr _) \<Rightarrow> (w_buf (patch_u32 8 (of_nat (w_pos w)) w), Ok (w_pos w)))"

definition serialize_fork_state :: "process_image \<Rightarrow> u8 list \<Rightarrow> u8 list \<times> nat result" where
  "serialize_fork_state p = serialize_with FORK_MAGIC (fork_fields p)"

definition read_header :: "u32 \<Rightarrow> unit reader_op" where
  "read_header magic =
     r_bind read_u32 (\<lambda>m. if m \<noteq> magic then r_fail EINVAL
     else r_bind read_u32 (\<lambda>v. if v \<noteq> FORK_VERSION then r_fail EINVAL
     else r_bind read_u32 (\<lambda>_. r_ret ())))"

text \<open>A socket section of fewer than eight bytes is skipped.\<close>

definition read_fork_fields :: "nat \<Rightarrow> process_image reader_op" where
  "read_fork_fields child_pid =
     r_bind read_nat32 (\<lambda>ppid'. r_bind read_nat32 (\<lambda>uid'. r_bind read_nat32 (\<lambda>gid'. r_bind read_nat32 (\<lambda>euid'.
     r_bind read_nat32 (\<lambda>egid'. r_bind read_nat32 (\<lambda>pgid'. r_bind read_nat32 (\<lambda>sid'. r_bind read_nat32 (\<lambda>umask'.
     r_bind read_cast_i32 (\<lambda>nice'. r_bind read_flag (\<lambda>_. r_bind read_fork_signals (\<lambda>sigs.
     r_bind (read_fd_section True) (\<lambda>fdt. r_bind (read_ofd_section child_pid) (\<lambda>ofdt.
     r_bind (read_strings MAX_ENV_VARS) (\<lambda>env. r_bind (read_strings MAX_ARGV) (\<lambda>args.
     r_bind (read_string MAX_PATH_LEN) (\<lambda>dir. r_bind (r_loop 16 (r_push read_rlimit) []) (\<lambda>lims.
     r_bind read_terminal (\<lambda>term. r_bind read_layout (\<lambda>m0. r_bind (read_mappings m0) (\<lambda>mem.
     r_bind read_exec_path (\<lambda>xpath. r_bind read_exec_argv (\<lambda>xargv. r_bind read_fd_actions (\<lambda>acts.
     r_bind (r_guard 8 read_sockets (r_ret [])) (\<lambda>socks.
       r_ret
         \<lparr> pid = child_pid, uid = uid', pstate = Running, exit_status = 0, exit_signal = 0, wait_event = None,
           signals = sigs, main_thread_signals = per_thread_signal_state_new, proc_saved_mask = None,
           threads = [], next_tid = 0, posix_timers = [], alt_stack_sp = 0, alt_stack_flags = 2,
           alt_stack_size = 0, alt_stack_depth = 0, wakes = [],
           ppid = ppid', gid = gid', euid = euid', egid = egid', pgid = pgid', sid = sid',
           is_session_leader = False, fds = fdt, ofds = ofdt, sockets = socks, cwd = dir, memory = mem,
           terminal = term, environ = env, argv = args, umask = umask', nice = nice', rlimits = lims,
           alarm_deadline_ns = 0, alarm_interval_ns = 0, thread_name = replicate 16 0, fork_child = True,
           fork_exec_path = xpath, fork_exec_argv = xargv, fork_fd_actions = acts,
           next_ephemeral_port = 49152, fork_pipe_replay = [], has_exec = False,
           fork_count = 0 \<rparr>))))))))))))))))))))))))"

definition deserialize_fork_state :: "u8 list \<Rightarrow> nat \<Rightarrow> shared_state \<Rightarrow> shared_state \<times> process_image result" where
  "deserialize_fork_state buf child_pid sh =
     (let (r, res) = r_bind (read_header FORK_MAGIC) (\<lambda>_. read_fork_fields child_pid) (reader_new buf sh)
      in (r_shared r, res))"

section \<open>The exec image\<close>

definition exec_fields :: "process_image \<Rightarrow> writer_op list" where
  "exec_fields p =
     [write_nat32 (ppid p), write_nat32 (uid p), write_nat32 (gid p), write_nat32 (euid p), write_nat32 (egid p),
      write_nat32 (pgid p), write_nat32 (sid p), write_flag (is_session_leader p), write_nat32 (umask p),
      write_u32 (word_of_int (nice p)), write_exec_signals (signals p),
      write_directed_signal_state (main_thread_signals p),
      write_fd_section FD_CLOEXEC (fds p), write_ofd_section FD_CLOEXEC True (fds p) (ofds p),
      write_strings (environ p), write_strings (argv p), write_string (cwd p),
      w_seq (map write_rlimit (rlimits p)), write_terminal (terminal p), write_nat32 (program_break (memory p))]"

definition serialize_exec_state :: "process_image \<Rightarrow> u8 list \<Rightarrow> u8 list \<times> nat result" where
  "serialize_exec_state p = serialize_with EXEC_MAGIC (exec_fields p)"

definition read_exec_fields :: "nat \<Rightarrow> process_image reader_op" where
  "read_exec_fields own_pid =
     r_bind read_nat32 (\<lambda>ppid'. r_bind read_nat32 (\<lambda>uid'. r_bind read_nat32 (\<lambda>gid'. r_bind read_nat32 (\<lambda>euid'.
     r_bind read_nat32 (\<lambda>egid'. r_bind read_nat32 (\<lambda>pgid'. r_bind read_nat32 (\<lambda>sid'. r_bind read_flag (\<lambda>leader.
     r_bind read_nat32 (\<lambda>umask'. r_bind read_cast_i32 (\<lambda>nice'. r_bind read_exec_signals (\<lambda>sigs.
     r_bind read_directed_signal_state (\<lambda>directed.
     r_bind (read_fd_section False) (\<lambda>fdt. r_bind (read_ofd_section own_pid) (\<lambda>ofdt.
     r_bind (read_strings MAX_ENV_VARS) (\<lambda>env. r_bind (read_strings MAX_ARGV) (\<lambda>args.
     r_bind (read_string MAX_PATH_LEN) (\<lambda>dir. r_bind (r_loop 16 (r_push read_rlimit) []) (\<lambda>lims.
     r_bind read_terminal (\<lambda>term. r_bind read_u32 (\<lambda>_.
       r_ret
         \<lparr> pid = own_pid, uid = uid', pstate = Running, exit_status = 0, exit_signal = 0, wait_event = None,
           signals = sigs, main_thread_signals = discard_legacy_exec_timer_notifications directed,
           proc_saved_mask = None, threads = [], next_tid = 0, posix_timers = [], alt_stack_sp = 0,
           alt_stack_flags = 2, alt_stack_size = 0, alt_stack_depth = 0, wakes = [],
           ppid = ppid', gid = gid', euid = euid', egid = egid', pgid = pgid', sid = sid',
           is_session_leader = leader, fds = fdt, ofds = ofdt, sockets = [], cwd = dir, memory = memory_new,
           terminal = term, environ = env, argv = args, umask = umask', nice = nice', rlimits = lims,
           alarm_deadline_ns = 0, alarm_interval_ns = 0, thread_name = replicate 16 0, fork_child = False,
           fork_exec_path = None, fork_exec_argv = None, fork_fd_actions = [], next_ephemeral_port = 49152,
           fork_pipe_replay = [], has_exec = False, fork_count = 0 \<rparr>))))))))))))))))))))"

definition deserialize_exec_state :: "u8 list \<Rightarrow> nat \<Rightarrow> shared_state \<Rightarrow> shared_state \<times> process_image result" where
  "deserialize_exec_state buf own_pid sh =
     (let (r, res) = r_bind (read_header EXEC_MAGIC) (\<lambda>_. read_exec_fields own_pid) (reader_new buf sh)
      in (r_shared r, res))"

section \<open>The growing buffer\<close>

text \<open>Fork and exec run the same loop: double a zeroed buffer until the image fits.\<close>

partial_function (option) grow_buffer ::
  "(u8 list \<Rightarrow> u8 list \<times> nat result) \<Rightarrow> nat \<Rightarrow> u8 list result option" where
  "grow_buffer ser len =
     (case ser (replicate len 0) of
        (buf, Inr written) \<Rightarrow> Some (Ok (take written buf))
      | (buf, Inl e) \<Rightarrow>
          if e = ENOMEM \<and> len < MAX_STATE_BUFFER_LEN
          then grow_buffer ser (min (min (len * 2) USIZE_MAX) MAX_STATE_BUFFER_LEN)
          else Some (Err e))"

definition serialize_fork_state_with_growing_buffer :: "process_image \<Rightarrow> u8 list result option" where
  "serialize_fork_state_with_growing_buffer p = grow_buffer (serialize_fork_state p) INITIAL_STATE_BUFFER_LEN"

definition serialize_exec_state_with_growing_buffer :: "process_image \<Rightarrow> u8 list result option" where
  "serialize_exec_state_with_growing_buffer p = grow_buffer (serialize_exec_state p) INITIAL_STATE_BUFFER_LEN"

section \<open>Fields that survive\<close>

definition action_ok :: "signal_action \<Rightarrow> bool" where
  "action_ok a \<longleftrightarrow> (\<forall>ptr. handler a = Handler ptr \<longrightarrow> ptr < - 2)"

definition signals_ok :: "signal_state \<Rightarrow> bool" where
  "signals_ok s \<longleftrightarrow> length (actions s) = 65 \<and> actions s ! 0 = signal_action_default \<and>
     list_all action_ok (actions s)"

definition rt_entry_ok :: "u64 \<Rightarrow> rt_sig_entry \<Rightarrow> bool" where
  "rt_entry_ok pend e \<longleftrightarrow> 0 < signum e \<and> signum e < NSIG \<and> pend AND sig_bit (signum e) \<noteq> 0 \<and>
     is_i32 (si_value e) \<and> is_i32 (si_code e) \<and> pred_option (\<lambda>i. i < 2 ^ 31) (timer_id e)"

definition directed_ok :: "per_thread_signal_state \<Rightarrow> bool" where
  "directed_ok s \<longleftrightarrow> length (rt_queue s) \<le> MAX_DIRECTED_SIGNAL_QUEUE \<and>
     list_all (rt_entry_ok (pending s)) (rt_queue s)"

definition strings_ok :: "nat \<Rightarrow> u8 list list \<Rightarrow> bool" where
  "strings_ok lim ss \<longleftrightarrow> length ss \<le> lim \<and> list_all (\<lambda>s. length s \<le> MAX_STRING_LEN) ss"

definition mapping_ok :: "mapped_region \<Rightarrow> bool" where
  "mapping_ok r \<longleftrightarrow> mr_addr r < 2 ^ 32 \<and> mr_len r < 2 ^ 32 \<and> mr_prot r < 2 ^ 32"

definition memory_ok :: "memory_manager \<Rightarrow> bool" where
  "memory_ok m \<longleftrightarrow> program_break m < 2 ^ 32 \<and> initial_brk m < 2 ^ 32 \<and> max_addr m < 2 ^ 32 \<and>
     brk_limit m < 2 ^ 32 \<and> mmap_base m < 2 ^ 32 \<and> reserved_until m < 2 ^ 32 \<and>
     length (mappings m) \<le> 4096 \<and> list_all mapping_ok (mappings m)"

fun fd_action_ok :: "fd_action \<Rightarrow> bool" where
  "fd_action_ok (Dup2Action a b) \<longleftrightarrow> is_i32 a \<and> is_i32 b"
| "fd_action_ok (CloseAction a) \<longleftrightarrow> is_i32 a"
| "fd_action_ok (OpenAction a _ _ _) \<longleftrightarrow> True"

definition common_ok :: "u32 \<Rightarrow> process_image \<Rightarrow> bool" where
  "common_ok flag p \<longleftrightarrow>
     pid p < 2 ^ 32 \<and> ppid p < 2 ^ 32 \<and> uid p < 2 ^ 32 \<and> gid p < 2 ^ 32 \<and> euid p < 2 ^ 32 \<and> egid p < 2 ^ 32 \<and>
     pgid p < 2 ^ 32 \<and> sid p < 2 ^ 32 \<and> umask p < 2 ^ 32 \<and> is_i32 (nice p) \<and> signals_ok (signals p) \<and>
     files_ok flag (fds p) (ofds p) \<and> strings_ok MAX_ENV_VARS (environ p) \<and> strings_ok MAX_ARGV (argv p) \<and>
     length (cwd p) \<le> MAX_PATH_LEN \<and> length (rlimits p) = 16 \<and>
     list_all (\<lambda>l. fst l < 2 ^ 64 \<and> snd l < 2 ^ 64) (rlimits p) \<and>
     length (c_cc (terminal p)) = NCCS \<and> is_i32 (tty_session_id (terminal p))"

definition fork_ok :: "process_image \<Rightarrow> bool" where
  "fork_ok p \<longleftrightarrow> common_ok FD_CLOFORK p \<and> memory_ok (memory p) \<and>
     pred_option (\<lambda>s. length s \<le> MAX_PATH_LEN) (fork_exec_path p) \<and>
     pred_option (strings_ok MAX_ARGV) (fork_exec_argv p) \<and>
     length (fork_fd_actions p) < 2 ^ 32 \<and> list_all fd_action_ok (fork_fd_actions p) \<and>
     sockets_ok (sockets p)"

definition exec_ok :: "process_image \<Rightarrow> bool" where
  "exec_ok p \<longleftrightarrow> common_ok FD_CLOEXEC p \<and> directed_ok (main_thread_signals p)"

text \<open>What each side of the image shows of the fields.\<close>

definition terminal_view :: "terminal_state \<Rightarrow> terminal_state" where
  "terminal_view t = t\<lparr> foreground_pgid := 1, line_buffer := [], cooked_buffer := [] \<rparr>"

definition memory_view :: "memory_manager \<Rightarrow> memory_manager" where
  "memory_view m =
     set_mappings (fst (set_brk (set_layout_metadata memory_new (layout_metadata_of m)) (program_break m)))
       (mappings m)"

definition nonempty :: "'a list option \<Rightarrow> 'a list option" where
  "nonempty x = (if x = Some [] then None else x)"

definition fd_actions_view :: "fd_action list \<Rightarrow> fd_action list" where
  "fd_actions_view acts = filter (\<lambda>a. case a of OpenAction _ _ _ _ \<Rightarrow> False | _ \<Rightarrow> True) acts"

definition exec_handlers :: "signal_state \<Rightarrow> signal_handler list" where
  "exec_handlers s = foldl (\<lambda>hs i. if i < 64 then hs[i := Ignore] else hs) (replicate 65 Default) (ignored_signals s)"

definition forked :: "nat \<Rightarrow> process_image \<Rightarrow> process_image" where
  "forked child p =
     \<lparr> pid = child, uid = uid p, pstate = Running, exit_status = 0, exit_signal = 0, wait_event = None,
       signals = from_actions (actions (signals p)) (blocked (signals p)),
       main_thread_signals = per_thread_signal_state_new, proc_saved_mask = None,
       threads = [], next_tid = 0, posix_timers = [], alt_stack_sp = 0, alt_stack_flags = 2,
       alt_stack_size = 0, alt_stack_depth = 0, wakes = [],
       ppid = pid p, gid = gid p, euid = euid p, egid = egid p, pgid = pgid p, sid = sid p,
       is_session_leader = False, fds = inherit_fds FD_CLOFORK (fds p),
       ofds = inherit_ofds FD_CLOFORK False child (fds p) (ofds p), sockets = fork_sockets (sockets p),
       cwd = cwd p, memory = memory_view (memory p), terminal = terminal_view (terminal p),
       environ = environ p, argv = argv p, umask = umask p, nice = nice p, rlimits = rlimits p,
       alarm_deadline_ns = 0, alarm_interval_ns = 0, thread_name = replicate 16 0, fork_child = True,
       fork_exec_path = nonempty (fork_exec_path p), fork_exec_argv = nonempty (fork_exec_argv p),
       fork_fd_actions = fd_actions_view (fork_fd_actions p), next_ephemeral_port = 49152,
       fork_pipe_replay = [], has_exec = False, fork_count = 0 \<rparr>"

definition execed :: "nat \<Rightarrow> process_image \<Rightarrow> process_image" where
  "execed own p =
     \<lparr> pid = own, uid = uid p, pstate = Running, exit_status = 0, exit_signal = 0, wait_event = None,
       signals = from_parts_with_pending (exec_handlers (signals p)) (blocked (signals p)) (pending (signals p)),
       main_thread_signals = discard_legacy_exec_timer_notifications
         (per_thread_signal_state_new\<lparr> pending := pending (main_thread_signals p),
            rt_queue := rt_queue (main_thread_signals p) \<rparr>),
       proc_saved_mask = None, threads = [], next_tid = 0, posix_timers = [], alt_stack_sp = 0,
       alt_stack_flags = 2, alt_stack_size = 0, alt_stack_depth = 0, wakes = [],
       ppid = ppid p, gid = gid p, euid = euid p, egid = egid p, pgid = pgid p, sid = sid p,
       is_session_leader = is_session_leader p, fds = inherit_fds FD_CLOEXEC (fds p),
       ofds = inherit_ofds FD_CLOEXEC True own (fds p) (ofds p), sockets = [], cwd = cwd p,
       memory = memory_new, terminal = terminal_view (terminal p), environ = environ p, argv = argv p,
       umask = umask p, nice = nice p, rlimits = rlimits p, alarm_deadline_ns = 0, alarm_interval_ns = 0,
       thread_name = replicate 16 0, fork_child = False, fork_exec_path = None, fork_exec_argv = None,
       fork_fd_actions = [], next_ephemeral_port = 49152, fork_pipe_replay = [], has_exec = False,
       fork_count = 0 \<rparr>"

subsection \<open>Signals\<close>

lemma handler_roundtrip: "action_ok a \<Longrightarrow> u32_to_handler (handler_to_u32 (handler a)) = handler a"
proof (cases "handler a")
  case (Handler ptr)
  assume "action_ok a"
  then have "ptr < - 2" using Handler by (simp add: action_ok_def)
  then have "unat ptr < 2 ^ 32 - 2" by (simp add: word_less_nat_alt)
  then have "unat (2 + ptr) = 2 + unat ptr" by (simp add: unat_word_ariths)
  then have "2 + ptr \<noteq> 0" "2 + ptr \<noteq> 1" by (metis unat_0 unat_1 add_is_0 zero_neq_numeral numeral_One add_2_eq_Suc n_not_Suc_n nat.inject One_nat_def Zero_not_Suc)+
  then show ?thesis using Handler by (simp add: u32_to_handler_def)
qed (simp_all add: u32_to_handler_def)

lemma get_action_in: "0 < i \<Longrightarrow> i < 65 \<Longrightarrow> get_action s i = actions s ! i \<and> get_handler s i = handler (actions s ! i)"
  by (simp add: get_action_def get_handler_def)

lemma wire_action:
  assumes "signals_ok s" "0 < i" "i < 65"
  shows "wire (write_action s i) (read_action acts) (acts[i := actions s ! i]) [] 20"
proof -
  let ?a = "actions s ! i"
  have g: "get_action s i = ?a" and ok: "action_ok ?a"
    using assms by (simp_all add: get_action_in signals_ok_def list_all_length)
  have "\<lparr> handler = u32_to_handler (handler_to_u32 (handler ?a)), sa_flags = sa_flags ?a, sa_mask = sa_mask ?a \<rparr> = ?a"
    using handler_roundtrip [OF ok] by simp
  then show ?thesis unfolding write_action_def read_action_def g using assms(3)
    by - (rule wire_weaken, (rule wire_rules | simp)+)
qed

lemma fold_update_nth:
  "set is \<subseteq> {..<length xs} \<Longrightarrow> length ys = length xs \<Longrightarrow> j < length xs \<Longrightarrow>
   foldl (\<lambda>acc i. acc[i := xs ! i]) ys is ! j = (if j \<in> set is then xs ! j else ys ! j)"
  by (induction "is" arbitrary: ys) (auto simp: nth_list_update)

lemma length_foldl_update [simp]: "length (foldl (\<lambda>acc i. acc[i := f i]) ys is) = length ys"
  by (induction "is" arbitrary: ys) simp_all

lemma wire_fork_signals:
  assumes "signals_ok s"
  shows "wire (write_fork_signals s) read_fork_signals (from_actions (actions s) (blocked s)) [] 12"
proof -
  let ?is = "filter (non_default s) [1..<65]"
  have len: "length (actions s) = 65" using assms by (simp add: signals_ok_def)
  have "length ?is \<le> length [1..<65::nat]" by (rule length_filter_le)
  then have n: "length ?is < 2 ^ 32" "(64 < length ?is) = False" by simp_all
  have "wire (w_seq (map (write_action s) ?is)) (r_loop (length ?is) read_action (replicate 65 signal_action_default))
      (foldl (\<lambda>acts i. acts[i := actions s ! i]) (replicate 65 signal_action_default) ?is)
      (concat (map (\<lambda>_. []) ?is)) (length ?is * 20)"
    using assms by (intro wire_fold wire_action) auto
  moreover have "foldl (\<lambda>acts i. acts[i := actions s ! i]) (replicate 65 signal_action_default) ?is = actions s"
  proof (rule nth_equalityI)
    fix j assume "j < length (foldl (\<lambda>acts i. acts[i := actions s ! i]) (replicate 65 signal_action_default) ?is)"
    then have j: "j < 65" by simp
    have dflt: "actions s ! j = signal_action_default" if "j \<notin> set ?is"
    proof (cases "j = 0")
      case False
      then have "\<not> non_default s j" using that j by simp
      then show ?thesis using False j get_action_in [of j s]
        by (simp add: non_default_def signal_action_default_def)
    qed (use assms in \<open>simp add: signals_ok_def\<close>)
    have "foldl (\<lambda>acts i. acts[i := actions s ! i]) (replicate 65 signal_action_default) ?is ! j =
        (if j \<in> set ?is then actions s ! j else replicate 65 signal_action_default ! j)"
      by (rule fold_update_nth) (auto simp: len j)
    also have "\<dots> = actions s ! j" using dflt j by (cases "j \<in> set ?is") auto
    finally show "foldl (\<lambda>acts i. acts[i := actions s ! i]) (replicate 65 signal_action_default) ?is ! j = actions s ! j" .
  qed (simp add: len)
  ultimately have body: "wire (w_seq (map (write_action s) ?is))
      (r_loop (length ?is) read_action (replicate 65 signal_action_default)) (actions s) [] (length ?is * 20)"
    by simp
  show ?thesis unfolding write_fork_signals_def read_fork_signals_def
    by (rule wire_weaken, rule wire_bind_pure [OF wire_u64], rule wire_bind_pure [OF wire_nat32 [OF n(1)]],
        simp only: n(2) if_False, rule wire_single, rule wire_map [OF body]) simp_all
qed

lemma wire_ignored: "i < 65 \<Longrightarrow> wire (write_ignored i) (read_handler hs) (if i < 64 then hs[i := Ignore] else hs) [] 8"
  unfolding write_ignored_def read_handler_def
  by (rule wire_weaken, (rule wire_rules | simp add: u32_to_handler_def)+)

lemma wire_exec_signals:
  assumes "signals_ok s"
  shows "wire (write_exec_signals s) read_exec_signals
     (from_parts_with_pending (exec_handlers s) (blocked s) (pending s)) [] 20"
proof -
  let ?is = "ignored_signals s"
  have len: "length (handlers_of s) = 65" using assms by (simp add: signals_ok_def handlers_of_def)
  have sub: "set ?is \<subseteq> {1..<65}" unfolding ignored_signals_def len by auto
  have "card (set ?is) \<le> 64" using card_mono [OF _ sub] by simp
  moreover have "distinct ?is" by (simp add: ignored_signals_def)
  ultimately have "length ?is \<le> 64" using distinct_card by metis
  then have n: "length ?is < 2 ^ 32" "(64 < length ?is) = False" by simp_all
  have "wire (w_seq (map write_ignored ?is)) (r_loop (length ?is) read_handler (replicate 65 Default))
      (exec_handlers s) (concat (map (\<lambda>_. []) ?is)) (length ?is * 8)"
    unfolding exec_handlers_def using sub by (intro wire_fold wire_ignored) auto
  then have body: "wire (w_seq (map write_ignored ?is)) (r_loop (length ?is) read_handler (replicate 65 Default))
      (exec_handlers s) [] (length ?is * 8)" by simp
  show ?thesis unfolding write_exec_signals_def read_exec_signals_def
    by (rule wire_weaken, rule wire_bind_pure [OF wire_u64], rule wire_bind_pure [OF wire_nat32 [OF n(1)]],
        simp only: n(2) if_False, rule wire_bind_pure [OF body], rule wire_single, rule wire_map [OF wire_u64]) simp_all
qed

lemma wire_rt_entry:
  assumes "rt_entry_ok pend e"
  shows "wire (write_rt_entry e) (read_rt_entry pend) e [] 16"
proof -
  let ?t = "case timer_id e of None \<Rightarrow> - 1 | Some i \<Rightarrow> as_i32 i"
  let ?h = "\<lambda>t :: int. if t = - 1 then Ok None else if 0 \<le> t then Ok (Some (nat t)) else Err EINVAL"
  have ok: "(signum e = 0 \<or> NSIG \<le> signum e \<or> pend AND sig_bit (signum e) = 0) = False" "signum e < 2 ^ 32"
    "is_i32 (si_value e)" "is_i32 (si_code e)"
    using assms by (auto simp: rt_entry_ok_def NSIG_def)
  have t: "is_i32 ?t" "?h ?t = Ok (timer_id e)"
    using assms by (auto simp: rt_entry_ok_def is_i32_def split: option.splits)
  show ?thesis unfolding write_rt_entry_def read_rt_entry_def
    by (rule wire_weaken, rule wire_bind_pure [OF wire_nat32 [OF ok(2)]], simp only: ok(1) if_False,
        rule wire_bind_pure [OF wire_i32 [OF ok(3)]], rule wire_bind_pure [OF wire_i32 [OF ok(4)]],
        rule wire_bind_pure [OF wire_of [where h = ?h, OF wire_i32 [OF t(1)] t(2)]], rule wire_ret) simp_all
qed

interpretation rt_entry_wire: wire_format write_rt_entry "read_rt_entry pend" "rt_entry_ok pend" "\<lambda>e. e" "\<lambda>e. []" 16
  for pend
  by unfold_locales (rule wire_rt_entry)

lemma wire_directed:
  assumes "directed_ok s"
  shows "wire (write_directed_signal_state s) read_directed_signal_state
     (per_thread_signal_state_new\<lparr> pending := pending s, rt_queue := rt_queue s \<rparr>) [] 12"
proof -
  have few: "(MAX_DIRECTED_SIGNAL_QUEUE < length (rt_queue s)) = False" "length (rt_queue s) < 2 ^ 32"
    and q: "list_all (rt_entry_ok (pending s)) (rt_queue s)"
    using assms by (simp_all add: directed_ok_def MAX_DIRECTED_SIGNAL_QUEUE_def)
  have body: "wire (w_seq (map write_rt_entry (rt_queue s))) (r_loop (length (rt_queue s)) (r_push (read_rt_entry (pending s))) [])
      (rt_queue s) [] (length (rt_queue s) * 16)"
    using rt_entry_wire.push_agrees [OF q, of "[]"] by simp
  show ?thesis unfolding write_directed_signal_state_def read_directed_signal_state_def few(1) if_False
    by (rule wire_weaken, rule wire_bind_pure [OF wire_u64], rule wire_bind_pure [OF wire_nat32 [OF few(2)]],
        simp only: few(1) if_False, rule wire_single, rule wire_map [OF body]) simp_all
qed

subsection \<open>The other fields\<close>

interpretation string_wire: wire_format write_string "read_string MAX_STRING_LEN"
  "\<lambda>s. length s \<le> MAX_STRING_LEN" "\<lambda>s. s" "\<lambda>s. []" 4
  by unfold_locales (auto intro!: wire_string simp: MAX_STRING_LEN_def)

lemma strings_body:
  "strings_ok lim ss \<Longrightarrow>
   wire (w_seq (map write_string ss)) (r_loop (length ss) (r_push (read_string MAX_STRING_LEN)) []) ss [] (length ss * 4)"
  using string_wire.push_agrees [of ss "[]"] by (simp add: strings_ok_def)

lemma wire_strings:
  assumes "strings_ok lim ss" "lim < 2 ^ 32"
  shows "wire (write_strings ss) (read_strings lim) ss [] 4"
proof -
  have n: "length ss < 2 ^ 32" "(lim < length ss) = False" using assms by (simp_all add: strings_ok_def)
  show ?thesis unfolding write_strings_def read_strings_def
    by (rule wire_weaken, rule wire_bind_pure [OF wire_nat32 [OF n(1)]], simp only: n(2) if_False,
        rule wire_single, rule strings_body [OF assms(1)]) simp
qed

lemma wire_rlimit: "fst l < 2 ^ 64 \<and> snd l < 2 ^ 64 \<Longrightarrow> wire (write_rlimit l) read_rlimit l [] 16"
  unfolding write_rlimit_def read_rlimit_def by (rule wire_weaken, (rule wire_rules | simp)+)

interpretation rlimit_wire: wire_format write_rlimit read_rlimit
  "\<lambda>l. fst l < 2 ^ 64 \<and> snd l < 2 ^ 64" "\<lambda>l. l" "\<lambda>l. []" 16
  by unfold_locales (rule wire_rlimit)

lemma wire_terminal:
  assumes "length (c_cc t) = NCCS" "is_i32 (tty_session_id t)"
  shows "wire (write_terminal t) read_terminal (terminal_view t) [] 69"
proof -
  have v: "\<lparr> c_iflag = c_iflag t, c_oflag = c_oflag t, c_cflag = c_cflag t, c_lflag = c_lflag t,
      c_line = c_line t, c_cc = c_cc t, c_ispeed = c_ispeed t, c_ospeed = c_ospeed t,
      winsize = \<lparr> ws_row = ws_row (winsize t), ws_col = ws_col (winsize t), ws_xpixel = ws_xpixel (winsize t),
        ws_ypixel = ws_ypixel (winsize t) \<rparr>,
      foreground_pgid = 1, tty_session_id = tty_session_id t, line_buffer = [], cooked_buffer = [] \<rparr> = terminal_view t"
    by (simp add: terminal_view_def)
  show ?thesis unfolding write_terminal_def read_terminal_def
    by (rule wire_weaken, rule wire_bind_pure [OF wire_u32], rule wire_bind_pure [OF wire_u32],
        rule wire_bind_pure [OF wire_u32], rule wire_bind_pure [OF wire_u32], rule wire_bind_pure [OF wire_bytes [OF assms(1)]],
        rule wire_bind_pure [OF wire_u16], rule wire_bind_pure [OF wire_u16], rule wire_bind_pure [OF wire_u16],
        rule wire_bind_pure [OF wire_u16], rule wire_bind_pure [OF wire_or [OF wire_u8]],
        rule wire_bind_pure [OF wire_or [OF wire_u32]], rule wire_bind_pure [OF wire_or [OF wire_u32]],
        rule wire_bind_pure [OF wire_or [OF wire_i32 [OF assms(2)]]], rule wire_ret, rule v)
      (simp add: assms(1) NCCS_def)
qed

lemma wire_mapping: "mapping_ok r \<Longrightarrow> wire (write_mapping r) read_mapping r [] 16"
  unfolding write_mapping_def read_mapping_def mapping_ok_def by (rule wire_weaken, (rule wire_rules | simp)+)

interpretation mapping_wire: wire_format write_mapping read_mapping mapping_ok "\<lambda>r. r" "\<lambda>r. []" 16
  by unfold_locales (rule wire_mapping)

lemma wire_layout:
  assumes "memory_ok m"
  shows "wire (write_layout m) read_layout
     (fst (set_brk (set_layout_metadata memory_new (layout_metadata_of m)) (program_break m))) [] 24"
  using assms unfolding write_layout_def read_layout_def Let_def memory_ok_def layout_metadata_of_def
  by - (rule wire_weaken, (rule wire_rules | simp)+)

lemma wire_mappings:
  assumes "memory_ok m"
  shows "wire (write_mappings m) (read_mappings m0) (set_mappings m0 (mappings m)) [] 4"
proof -
  have n: "length (mappings m) < 2 ^ 32" "(4096 < length (mappings m)) = False" and ok: "list_all mapping_ok (mappings m)"
    using assms by (simp_all add: memory_ok_def)
  have body: "wire (w_seq (map write_mapping (mappings m))) (r_loop (length (mappings m)) (r_push read_mapping) [])
      (mappings m) [] (length (mappings m) * 16)"
    using mapping_wire.push_agrees [OF ok, of "[]"] by simp
  show ?thesis unfolding write_mappings_def read_mappings_def
    by (rule wire_weaken, rule wire_guard, rule wire_bind_pure [OF wire_nat32 [OF n(1)]],
        simp only: n(2) if_False, rule wire_single, rule wire_map [OF body]) simp_all
qed

lemma wire_cast_i32: "is_i32 v \<Longrightarrow> wire (write_u32 (word_of_int v)) read_cast_i32 v [] 4"
  by (rule wire_map [OF wire_u32]) (rule sint_i32)

lemma wire_zero: "wire (w_seq [write_u32 0]) (r_guard 4 (r_bind read_nat32 f) d) a [] 4" if "f 0 = r_ret a"
  using that wire_nat32 [of 0]
  by (intro wire_guard) (auto intro!: wire_weaken [OF wire_bind_pure [of "write_u32 0" read_nat32 0 4 "[]" f a "[]" 0]] wire_ret)

lemma wire_exec_path:
  assumes "pred_option (\<lambda>s. length s \<le> MAX_PATH_LEN) x"
  shows "wire (write_exec_path x) read_exec_path (nonempty x) [] 4"
proof (cases x)
  case None
  then show ?thesis unfolding write_exec_path_def read_exec_path_def nonempty_def
    by (simp only: option.case option.distinct if_False, intro wire_zero) simp
next
  case (Some s)
  have s: "length s \<le> MAX_PATH_LEN" "length s < 2 ^ 32" using assms Some by (simp_all add: MAX_PATH_LEN_def)
  show ?thesis
  proof (cases "s = []")
    case True
    have "write_string s = w_seq [write_u32 0, write_bytes []]" using True by (simp add: write_string_def)
    moreover have "wire (w_seq [write_u32 0, write_bytes []])
        (r_bind read_nat32 (\<lambda>path_len. if 0 < path_len then r_bind (read_bounded_bytes path_len MAX_PATH_LEN)
          (\<lambda>p. r_ret (Some p)) else r_ret None)) None [] (4 + 0)"
      by (rule wire_bind_pure [OF wire_nat32 [of 0, simplified]], simp, rule wire_single,
          rule wire_intro [where bs = "[]", simplified, OF emits_bytes]) (use parses_ret in \<open>simp add: cat_def\<close>)
    ultimately show ?thesis using Some True unfolding write_exec_path_def read_exec_path_def nonempty_def
      by (auto intro: wire_guard)
  next
    case False
    then show ?thesis using Some unfolding write_exec_path_def read_exec_path_def nonempty_def write_string_def
      by (simp only: option.case option.inject if_False)
        (rule wire_weaken, rule wire_guard, rule wire_bind_pure [OF wire_nat32 [OF s(2)]],
          simp only: length_greater_0_conv if_True simp_thms, rule wire_single,
          rule wire_map [OF wire_bounded_bytes [OF refl s(1)]], simp_all)
  qed
qed

lemma wire_exec_argv:
  assumes "pred_option (strings_ok MAX_ARGV) x"
  shows "wire (write_exec_argv x) read_exec_argv (nonempty x) [] 4"
proof (cases x)
  case None
  then show ?thesis unfolding write_exec_argv_def read_exec_argv_def nonempty_def
    by (simp only: option.case option.distinct if_False, intro wire_zero) simp
next
  case (Some ss)
  have ok: "strings_ok MAX_ARGV ss" and s: "length ss < 2 ^ 32" "(MAX_ARGV < length ss) = False"
    using assms Some by (simp_all add: strings_ok_def MAX_ARGV_def)
  show ?thesis
  proof (cases "ss = []")
    case True
    have "write_strings ss = w_seq [write_u32 0, w_seq []]" using True by (simp add: write_strings_def)
    moreover have "wire (w_seq [write_u32 0, w_seq []])
        (r_bind read_nat32 (\<lambda>argc. if 0 < argc then (if MAX_ARGV < argc then r_fail EINVAL
           else r_bind (r_loop argc (r_push (read_string MAX_STRING_LEN)) []) (\<lambda>args. r_ret (Some args)))
          else r_ret None)) None [] (4 + 0)"
      by (rule wire_bind_pure [OF wire_nat32 [of 0, simplified]], simp, rule wire_single, rule wire_ret) simp_all
    ultimately show ?thesis using Some True unfolding write_exec_argv_def read_exec_argv_def nonempty_def
      by (auto intro: wire_guard)
  next
    case False
    then show ?thesis using Some unfolding write_exec_argv_def read_exec_argv_def nonempty_def write_strings_def
      by (simp only: option.case option.inject if_False)
        (rule wire_weaken, rule wire_guard, rule wire_bind_pure [OF wire_nat32 [OF s(1)]],
          simp only: length_greater_0_conv s(2) if_True if_False simp_thms, rule wire_single,
          rule wire_map [OF strings_body [OF ok]], simp_all)
  qed
qed

definition push_action :: "fd_action list \<Rightarrow> fd_action \<Rightarrow> fd_action list" where
  "push_action acc a = (case a of OpenAction _ _ _ _ \<Rightarrow> acc | _ \<Rightarrow> acc @ [a])"

lemma wire_fd_action:
  assumes "fd_action_ok a"
  shows "wire (write_fd_action a) (read_fd_action acc) (push_action acc a) [] 12"
proof (cases a)
  case (Dup2Action i j)
  then have ij: "is_i32 i" "is_i32 j" using assms by simp_all
  show ?thesis unfolding Dup2Action write_fd_action.simps read_fd_action_def
    by (rule wire_weaken, rule wire_bind_pure [OF wire_u32], rule wire_bind_pure [OF wire_cast_i32 [OF ij(1)]],
        rule wire_bind_pure [OF wire_cast_i32 [OF ij(2)]], rule wire_ret) (simp_all add: push_action_def)
next
  case (CloseAction i)
  then have i: "is_i32 i" using assms by simp
  show ?thesis unfolding CloseAction write_fd_action.simps read_fd_action_def
    by (rule wire_weaken, rule wire_bind_pure [OF wire_u32], rule wire_bind_pure [OF wire_cast_i32 [OF i]],
        rule wire_bind_pure [OF wire_map [OF wire_u32 refl]], rule wire_ret) (simp_all add: push_action_def)
next
  case (OpenAction i path fl mode)
  show ?thesis unfolding OpenAction write_fd_action.simps read_fd_action_def
    by (rule wire_weaken, rule wire_bind_pure [OF wire_u32], rule wire_bind_pure [OF wire_map [OF wire_u32 refl]],
        rule wire_bind_pure [OF wire_map [OF wire_u32 refl]], rule wire_ret) (simp_all add: push_action_def)
qed

lemma wire_fd_actions:
  assumes "length acts < 2 ^ 32" "list_all fd_action_ok acts"
  shows "wire (w_seq [write_nat32 (length acts), w_seq (map write_fd_action acts)]) read_fd_actions
     (fd_actions_view acts) [] 4"
proof -
  have "foldl push_action acc acts = acc @ fd_actions_view acts" for acc
    by (induction acts arbitrary: acc) (auto simp: push_action_def fd_actions_view_def split: fd_action.splits)
  moreover have "wire (w_seq (map write_fd_action acts)) (r_loop (length acts) read_fd_action [])
      (foldl push_action [] acts) (concat (map (\<lambda>_. []) acts)) (length acts * 12)"
    using assms(2) by (intro wire_fold wire_fd_action) (auto simp: list_all_iff)
  ultimately have body: "wire (w_seq (map write_fd_action acts)) (r_loop (length acts) read_fd_action [])
      (fd_actions_view acts) [] (length acts * 12)" by simp
  show ?thesis unfolding read_fd_actions_def
    by (rule wire_weaken, rule wire_guard, rule wire_bind_pure [OF wire_nat32 [OF assms(1)]],
        rule wire_single, rule body) simp_all
qed

lemma rlimits_body:
  assumes "common_ok flag p"
  shows "wire (w_seq (map write_rlimit (rlimits p))) (r_loop 16 (r_push read_rlimit) []) (rlimits p) [] 256"
proof -
  have "list_all (\<lambda>l. fst l < 2 ^ 64 \<and> snd l < 2 ^ 64) (rlimits p)" "length (rlimits p) = 16"
    using assms by (simp_all only: common_ok_def)
  then show ?thesis using rlimit_wire.push_agrees [of "rlimits p" "[]"] by simp
qed

subsection \<open>The whole image\<close>

lemma wire_fork_fields:
  assumes "fork_ok p"
  shows "wire (w_seq (fork_fields p)) (read_fork_fields child) (forked child p)
     (inherit_effects FD_CLOFORK False child (fds p) (ofds p)) 0"
proof -
  have c: "common_ok FD_CLOFORK p" and m: "memory_ok (memory p)"
    and x: "pred_option (\<lambda>s. length s \<le> MAX_PATH_LEN) (fork_exec_path p)"
      "pred_option (strings_ok MAX_ARGV) (fork_exec_argv p)"
      "length (fork_fd_actions p) < 2 ^ 32" "list_all fd_action_ok (fork_fd_actions p)" "sockets_ok (sockets p)"
    using assms by (simp_all only: fork_ok_def)
  have n: "pid p < 2 ^ 32" "uid p < 2 ^ 32" "gid p < 2 ^ 32" "euid p < 2 ^ 32" "egid p < 2 ^ 32"
    "pgid p < 2 ^ 32" "sid p < 2 ^ 32" "umask p < 2 ^ 32" "is_i32 (nice p)"
    and sg: "signals_ok (signals p)" and f: "files_ok FD_CLOFORK (fds p) (ofds p)"
    and st: "strings_ok MAX_ENV_VARS (environ p)" "strings_ok MAX_ARGV (argv p)" "length (cwd p) \<le> MAX_PATH_LEN"
    and t: "length (c_cc (terminal p)) = NCCS" "is_i32 (tty_session_id (terminal p))"
    using c by (simp_all only: common_ok_def)
  have lims: "MAX_ENV_VARS < 2 ^ 32" "MAX_ARGV < 2 ^ 32" "length (cwd p) < 2 ^ 32"
    using st(3) by (simp_all add: MAX_ENV_VARS_def MAX_ARGV_def MAX_PATH_LEN_def)
  have flag: "True \<longrightarrow> FD_CLOFORK = FD_CLOFORK" by simp
  show ?thesis unfolding fork_fields_def read_fork_fields_def
    by (rule wire_refs, rule wire_weaken, rule wire_bind_pure [OF wire_nat32 [OF n(1)]], rule wire_bind_pure [OF wire_nat32 [OF n(2)]],
        rule wire_bind_pure [OF wire_nat32 [OF n(3)]], rule wire_bind_pure [OF wire_nat32 [OF n(4)]],
        rule wire_bind_pure [OF wire_nat32 [OF n(5)]], rule wire_bind_pure [OF wire_nat32 [OF n(6)]],
        rule wire_bind_pure [OF wire_nat32 [OF n(7)]], rule wire_bind_pure [OF wire_nat32 [OF n(8)]],
        rule wire_bind_pure [OF wire_cast_i32 [OF n(9)]], rule wire_bind_pure [OF wire_flag],
        rule wire_bind_pure [OF wire_fork_signals [OF sg]], rule wire_bind_pure [OF wire_fd_section [OF f flag]],
        rule wire_bind [OF wire_ofd_section [OF f]], rule wire_bind_pure [OF wire_strings [OF st(1) lims(1)]],
        rule wire_bind_pure [OF wire_strings [OF st(2) lims(2)]],
        rule wire_bind_pure [OF wire_string [OF st(3) lims(3)]], rule wire_bind_pure [OF rlimits_body [OF c]],
        rule wire_bind_pure [OF wire_terminal [OF t]], rule wire_bind_pure [OF wire_layout [OF m]],
        rule wire_bind_pure [OF wire_mappings [OF m]], rule wire_bind_pure [OF wire_exec_path [OF x(1)]],
        rule wire_bind_pure [OF wire_exec_argv [OF x(2)]], rule wire_bind_pure [OF wire_fd_actions [OF x(3,4)]],
        rule wire_bind_pure [OF wire_guard [OF wire_sockets [OF x(5)] order_refl]], rule wire_ret, rule refl)
      (simp_all add: forked_def memory_view_def)
qed

lemma wire_exec_fields:
  assumes "exec_ok p"
  shows "wire (w_seq (exec_fields p)) (read_exec_fields own) (execed own p)
     (inherit_effects FD_CLOEXEC True own (fds p) (ofds p)) 0"
proof -
  have c: "common_ok FD_CLOEXEC p" and d: "directed_ok (main_thread_signals p)"
    using assms by (simp_all only: exec_ok_def)
  have n: "ppid p < 2 ^ 32" "uid p < 2 ^ 32" "gid p < 2 ^ 32" "euid p < 2 ^ 32" "egid p < 2 ^ 32"
    "pgid p < 2 ^ 32" "sid p < 2 ^ 32" "umask p < 2 ^ 32" "is_i32 (nice p)"
    and sg: "signals_ok (signals p)" and f: "files_ok FD_CLOEXEC (fds p) (ofds p)"
    and st: "strings_ok MAX_ENV_VARS (environ p)" "strings_ok MAX_ARGV (argv p)" "length (cwd p) \<le> MAX_PATH_LEN"
    and t: "length (c_cc (terminal p)) = NCCS" "is_i32 (tty_session_id (terminal p))"
    using c by (simp_all only: common_ok_def)
  have lims: "MAX_ENV_VARS < 2 ^ 32" "MAX_ARGV < 2 ^ 32" "length (cwd p) < 2 ^ 32"
    using st(3) by (simp_all add: MAX_ENV_VARS_def MAX_ARGV_def MAX_PATH_LEN_def)
  have flag: "False \<longrightarrow> FD_CLOEXEC = FD_CLOFORK" by simp
  show ?thesis unfolding exec_fields_def read_exec_fields_def
    by (rule wire_refs, rule wire_weaken, rule wire_bind_pure [OF wire_nat32 [OF n(1)]], rule wire_bind_pure [OF wire_nat32 [OF n(2)]],
        rule wire_bind_pure [OF wire_nat32 [OF n(3)]], rule wire_bind_pure [OF wire_nat32 [OF n(4)]],
        rule wire_bind_pure [OF wire_nat32 [OF n(5)]], rule wire_bind_pure [OF wire_nat32 [OF n(6)]],
        rule wire_bind_pure [OF wire_nat32 [OF n(7)]], rule wire_bind_pure [OF wire_flag],
        rule wire_bind_pure [OF wire_nat32 [OF n(8)]], rule wire_bind_pure [OF wire_cast_i32 [OF n(9)]],
        rule wire_bind_pure [OF wire_exec_signals [OF sg]], rule wire_bind_pure [OF wire_directed [OF d]],
        rule wire_bind_pure [OF wire_fd_section [OF f flag]],
        rule wire_bind [OF wire_ofd_section [OF f]], rule wire_bind_pure [OF wire_strings [OF st(1) lims(1)]],
        rule wire_bind_pure [OF wire_strings [OF st(2) lims(2)]],
        rule wire_bind_pure [OF wire_string [OF st(3) lims(3)]], rule wire_bind_pure [OF rlimits_body [OF c]],
        rule wire_bind_pure [OF wire_terminal [OF t]], rule wire_bind_pure [OF wire_u32], rule wire_ret, rule refl)
      (simp_all add: execed_def)
qed

text \<open>The image of a section is its header, with the total size, and the bytes of its fields.\<close>

definition image_of :: "u32 \<Rightarrow> u8 list \<Rightarrow> u8 list" where
  "image_of magic bs = le_bytes 4 magic @ le_bytes 4 FORK_VERSION @ le_bytes 4 (of_nat (12 + length bs) :: u32) @ bs"

lemma length_image_of [simp]: "length (image_of magic bs) = 12 + length bs"
  by (simp add: image_of_def)

lemma serialize_with_image:
  assumes "emits (w_seq ms) bs"
  shows "if length (image_of magic bs) \<le> length buf
     then serialize_with magic ms buf =
       (image_of magic bs @ drop (length (image_of magic bs)) buf, Ok (length (image_of magic bs)))
     else \<exists>buf'. serialize_with magic ms buf = (buf', Err ENOMEM)"
proof -
  let ?h = "le_bytes 4 magic @ le_bytes 4 FORK_VERSION @ le_bytes 4 (0 :: u32)"
  have "emits (write_header magic) (cat [le_bytes 4 magic, le_bytes 4 FORK_VERSION, le_bytes 4 (0 :: u32)])"
    unfolding write_header_def by (intro emits_Cons emits_u32 emits_Nil)
  then have "emits (write_header magic) ?h" by (simp add: cat_def)
  moreover have "emits (w_seq ms) (cat [bs])" using assms by (simp add: cat_def)
  ultimately have "emits (w_seq (write_header magic # ms)) (cat [?h, bs])" by (rule emits_Cons)
  then have em: "emits (w_seq (write_header magic # ms)) (?h @ bs)" by (simp add: cat_def)
  have ok: "w_ok (writer_new buf)" by (simp add: w_ok_def writer_new_def)
  have rem: "w_remaining (writer_new buf) = length buf" by (simp add: w_remaining_def writer_new_def)
  show ?thesis
  proof (cases "length (image_of magic bs) \<le> length buf")
    case True
    then have "w_seq (write_header magic # ms) (writer_new buf) = (w_put (?h @ bs) (writer_new buf), Ok ())"
      using em ok rem by (simp add: emits_def)
    then show ?thesis using True
      by (simp add: serialize_with_def patch_u32_def w_put_def writer_new_def image_of_def)
  next
    case False
    then obtain w' where "w_seq (write_header magic # ms) (writer_new buf) = (w', Err ENOMEM)"
      using em ok rem unfolding emits_def by fastforce
    then show ?thesis using False by (simp add: serialize_with_def)
  qed
qed

lemma read_image:
  assumes "parses g bs a ids"
  shows "r_bind (read_header magic) (\<lambda>_. g) (reader_new (image_of magic bs) sh) =
    (\<lparr> r_buf = image_of magic bs, r_pos = 12 + length bs, r_shared = fold apply_effect ids sh \<rparr>, Ok a)"
proof -
  let ?sz = "of_nat (12 + length bs) :: u32"
  have "parses (read_header magic) (cat [le_bytes 4 magic, le_bytes 4 FORK_VERSION, le_bytes 4 ?sz]) () []"
    unfolding read_header_def
    by (rule parses_bind_pure [OF parses_u32], simp, rule parses_bind_pure [OF parses_u32], simp,
        rule parses_bind_pure [OF parses_u32], rule parses_ret)
  from parses_bind_pure [OF this, of "\<lambda>_. g" "[bs]" a ids] assms
  have "parses (r_bind (read_header magic) (\<lambda>_. g)) (image_of magic bs) a ids"
    by (simp add: cat_def image_of_def)
  then show ?thesis by (simp add: parses_def reader_new_def)
qed

text \<open>
  The loop ends: each failed round doubles the length, up to the limit.  With an image that fits the
  limit it returns that image, otherwise it reports \<open>ENOMEM\<close>.
\<close>

lemma grow_buffer_returns: "0 < len \<Longrightarrow> \<exists>r. grow_buffer ser len = Some r"
proof (induction "MAX_STATE_BUFFER_LEN - len" arbitrary: len rule: less_induct)
  case less
  let ?next = "min (min (len * 2) USIZE_MAX) MAX_STATE_BUFFER_LEN"
  show ?case
  proof (cases "\<exists>buf. ser (replicate len 0) = (buf, Inl ENOMEM) \<and> len < MAX_STATE_BUFFER_LEN")
    case True
    then have "len < ?next" using less.prems by (simp add: USIZE_MAX_def MAX_STATE_BUFFER_LEN_def)
    then have "\<exists>r. grow_buffer ser ?next = Some r" using True by (intro less.hyps) auto
    then show ?thesis using True by (subst grow_buffer.simps) auto
  next
    case False
    then show ?thesis by (subst grow_buffer.simps) (auto split: prod.splits sum.splits)
  qed
qed

lemma grow_buffer_image:
  assumes ser: "\<And>buf. if length img \<le> length buf
      then ser buf = (img @ drop (length img) buf, Ok (length img)) else \<exists>buf'. ser buf = (buf', Err ENOMEM)"
    and "0 < len" "len \<le> MAX_STATE_BUFFER_LEN"
  shows "grow_buffer ser len = Some (if length img \<le> MAX_STATE_BUFFER_LEN then Ok img else Err ENOMEM)"
  using assms(2,3)
proof (induction "MAX_STATE_BUFFER_LEN - len" arbitrary: len rule: less_induct)
  case less
  let ?next = "min (min (len * 2) USIZE_MAX) MAX_STATE_BUFFER_LEN"
  show ?case
  proof (cases "length img \<le> len")
    case True
    then show ?thesis using ser [of "replicate len 0"] less.prems by (subst grow_buffer.simps) simp
  next
    case False
    then obtain buf' where s: "ser (replicate len 0) = (buf', Err ENOMEM)" using ser [of "replicate len 0"] by auto
    show ?thesis
    proof (cases "len < MAX_STATE_BUFFER_LEN")
      case True
      then have "len < ?next" "?next \<le> MAX_STATE_BUFFER_LEN"
        using less.prems by (simp_all add: USIZE_MAX_def MAX_STATE_BUFFER_LEN_def)
      then have "grow_buffer ser ?next = Some (if length img \<le> MAX_STATE_BUFFER_LEN then Ok img else Err ENOMEM)"
        using True by (intro less.hyps) auto
      then show ?thesis using s True by (subst grow_buffer.simps) simp
    next
      case False
      then show ?thesis using s less.prems \<open>\<not> length img \<le> len\<close> by (subst grow_buffer.simps) simp
    qed
  qed
qed

section \<open>The properties of the process image\<close>

lemma fork_image:
  assumes "fork_ok p"
  obtains img where
    "\<And>buf. if length img \<le> length buf
       then serialize_fork_state p buf = (img @ drop (length img) buf, Ok (length img))
       else \<exists>buf'. serialize_fork_state p buf = (buf', Err ENOMEM)"
    "serialize_fork_state_with_growing_buffer p =
       Some (if length img \<le> MAX_STATE_BUFFER_LEN then Ok img else Err ENOMEM)"
    "\<And>child sh. deserialize_fork_state img child sh =
       (fold apply_effect (inherit_effects FD_CLOFORK False child (fds p) (ofds p)) sh, Ok (forked child p))"
proof -
  have w: "\<exists>bs. emits (w_seq (fork_fields p)) bs \<and> parses (read_fork_fields child) bs (forked child p)
      (inherit_effects FD_CLOFORK False child (fds p) (ofds p))" for child
    using wire_fork_fields [OF assms, of child] unfolding wire_def by blast
  obtain bs where bs: "emits (w_seq (fork_fields p)) bs" using w [of 0] by blast
  have "parses (read_fork_fields child) bs (forked child p)
      (inherit_effects FD_CLOFORK False child (fds p) (ofds p))" for child
    using w [of child] emits_unique [OF bs] by blast
  note parse = read_image [OF this]
  let ?img = "image_of FORK_MAGIC bs"
  have ser: "if length ?img \<le> length buf
      then serialize_fork_state p buf = (?img @ drop (length ?img) buf, Ok (length ?img))
      else \<exists>buf'. serialize_fork_state p buf = (buf', Err ENOMEM)" for buf
    unfolding serialize_fork_state_def by (rule serialize_with_image [OF bs])
  moreover have "serialize_fork_state_with_growing_buffer p =
      Some (if length ?img \<le> MAX_STATE_BUFFER_LEN then Ok ?img else Err ENOMEM)"
    unfolding serialize_fork_state_with_growing_buffer_def
    by (rule grow_buffer_image [OF ser]) (simp_all add: INITIAL_STATE_BUFFER_LEN_def MAX_STATE_BUFFER_LEN_def)
  moreover have "deserialize_fork_state ?img child sh =
      (fold apply_effect (inherit_effects FD_CLOFORK False child (fds p) (ofds p)) sh, Ok (forked child p))" for child sh
    unfolding deserialize_fork_state_def parse by simp
  ultimately show thesis by (rule that)
qed

lemma exec_image:
  assumes "exec_ok p"
  obtains img where
    "\<And>buf. if length img \<le> length buf
       then serialize_exec_state p buf = (img @ drop (length img) buf, Ok (length img))
       else \<exists>buf'. serialize_exec_state p buf = (buf', Err ENOMEM)"
    "serialize_exec_state_with_growing_buffer p =
       Some (if length img \<le> MAX_STATE_BUFFER_LEN then Ok img else Err ENOMEM)"
    "\<And>own sh. deserialize_exec_state img own sh =
       (fold apply_effect (inherit_effects FD_CLOEXEC True own (fds p) (ofds p)) sh, Ok (execed own p))"
proof -
  have w: "\<exists>bs. emits (w_seq (exec_fields p)) bs \<and> parses (read_exec_fields own) bs (execed own p)
      (inherit_effects FD_CLOEXEC True own (fds p) (ofds p))" for own
    using wire_exec_fields [OF assms, of own] unfolding wire_def by blast
  obtain bs where bs: "emits (w_seq (exec_fields p)) bs" using w [of 0] by blast
  have "parses (read_exec_fields own) bs (execed own p)
      (inherit_effects FD_CLOEXEC True own (fds p) (ofds p))" for own
    using w [of own] emits_unique [OF bs] by blast
  note parse = read_image [OF this]
  let ?img = "image_of EXEC_MAGIC bs"
  have ser: "if length ?img \<le> length buf
      then serialize_exec_state p buf = (?img @ drop (length ?img) buf, Ok (length ?img))
      else \<exists>buf'. serialize_exec_state p buf = (buf', Err ENOMEM)" for buf
    unfolding serialize_exec_state_def by (rule serialize_with_image [OF bs])
  moreover have "serialize_exec_state_with_growing_buffer p =
      Some (if length ?img \<le> MAX_STATE_BUFFER_LEN then Ok ?img else Err ENOMEM)"
    unfolding serialize_exec_state_with_growing_buffer_def
    by (rule grow_buffer_image [OF ser]) (simp_all add: INITIAL_STATE_BUFFER_LEN_def MAX_STATE_BUFFER_LEN_def)
  moreover have "deserialize_exec_state ?img own sh =
      (fold apply_effect (inherit_effects FD_CLOEXEC True own (fds p) (ofds p)) sh, Ok (execed own p))" for own sh
    unfolding deserialize_exec_state_def parse by simp
  ultimately show thesis by (rule that)
qed

text \<open>The descriptors of the new process: those not marked, and each description with the number of
  them that refer to it.\<close>

lemma inherited_files:
  assumes "files_ok flag t os" "length (fd_entries t) \<le> 65536"
  shows "fd_lookup (inherit_fds flag t) i =
      (case fd_lookup t i of Some e \<Rightarrow> if fd_flags e AND flag = 0 then Some e else None | None \<Rightarrow> None)"
    and "slot (inherit_ofds flag pm owner t os) j =
      (if fd_refs (inherit_fds flag t) j = 0 then None
       else map_option (inherit_ofd pm owner (of_nat (fd_refs (inherit_fds flag t) j))) (slot os j))"
    and "fd_refs (inherit_fds flag t) j \<le> 65536"
proof -
  have small: "length (fd_entries t) \<le> 2 ^ 31" using assms(2) by simp
  show "fd_lookup (inherit_fds flag t) i =
      (case fd_lookup t i of Some e \<Rightarrow> if fd_flags e AND flag = 0 then Some e else None | None \<Rightarrow> None)"
    by (rule inherit_fds_lookup [OF small])
  show "slot (inherit_ofds flag pm owner t os) j =
      (if fd_refs (inherit_fds flag t) j = 0 then None
       else map_option (inherit_ofd pm owner (of_nat (fd_refs (inherit_fds flag t) j))) (slot os j))"
    using inherit_ofds_lookup [of flag pm owner t os j] kept_refs_inherited [OF small] by simp
  have "kept_refs flag t j \<le> length (kept_fds flag t)" unfolding kept_refs_def by (rule length_filter_le)
  then show "fd_refs (inherit_fds flag t) j \<le> 65536"
    using assms(1) kept_refs_inherited [OF small] by (simp add: files_ok_def)
qed

lemma no_overlap_empty:
  "mappings m = [] \<Longrightarrow> a + l \<le> USIZE_MAX \<Longrightarrow> \<not> overlaps_mappings m a l"
  "reserved_regions m = [] \<Longrightarrow> a + l \<le> USIZE_MAX \<Longrightarrow> \<not> overlaps_reserved_regions m a l"
  by (auto simp: overlaps_mappings_def overlaps_reserved_regions_def checked_add_to_def)

text \<open>The child's address space is the parent's, without the host's reservations and without the limit
  that \<open>setrlimit\<close> put on the program break.\<close>

lemma inherited_memory:
  assumes "sorted (map mr_addr (mappings m))" "0 < program_break m" "initial_brk m \<le> program_break m"
    "program_break m \<le> max_addr m" "program_break m \<le> brk_limit m" "program_break m < 2 ^ 32"
  shows "memory_view m = m\<lparr> reserved_regions := [], data_limit := U64_MAX \<rparr>"
proof -
  let ?m = "set_layout_metadata memory_new (layout_metadata_of m)"
  have m: "mappings ?m = []" "reserved_regions ?m = []" "program_break ?m = INITIAL_BRK" "initial_brk ?m = initial_brk m"
    "max_addr ?m = max_addr m" "brk_limit ?m = brk_limit m" "data_limit ?m = U64_MAX"
    by (simp_all add: set_layout_metadata_def layout_metadata_of_def memory_new_def)
  have "\<not> (INITIAL_BRK < program_break m \<and> overlaps_mappings ?m INITIAL_BRK (program_break m - INITIAL_BRK))"
    "\<not> (INITIAL_BRK < program_break m \<and> overlaps_reserved_regions ?m INITIAL_BRK (program_break m - INITIAL_BRK))"
    using no_overlap_empty(1) [OF m(1)] no_overlap_empty(2) [OF m(2)] assms(6) by (auto simp: USIZE_MAX_def)
  then have "fst (set_brk ?m (program_break m)) = ?m\<lparr> program_break := program_break m \<rparr>"
    using assms(2-6) unfolding set_brk_def m by (auto simp: U64_MAX_def)
  moreover have "sort_key mr_addr (mappings m) = mappings m" using assms(1) by (rule sort_key_id_if_sorted)
  ultimately show ?thesis
    by (simp add: memory_view_def set_mappings_def set_layout_metadata_def layout_metadata_of_def memory_new_def)
qed

text \<open>Exec reads back the disposition of the signals below 64 only.\<close>

lemma exec_handlers_nth:
  assumes "signals_ok s" "n < 65"
  shows "exec_handlers s ! n = (if 0 < n \<and> n < 64 \<and> get_handler s n = Ignore then Ignore else Default)"
proof -
  have "length hs = 65 \<Longrightarrow> foldl (\<lambda>hs i. if i < 64 then hs[i := Ignore] else hs) hs is ! n =
      (if n \<in> set is \<and> n < 64 then Ignore else hs ! n)" for hs "is"
    using assms(2) by (induction "is" arbitrary: hs) (auto simp: nth_list_update)
  moreover have "n \<in> set (ignored_signals s) \<longleftrightarrow> 0 < n \<and> get_handler s n = Ignore"
    using assms by (auto simp: ignored_signals_def handlers_of_def get_handler_def signals_ok_def)
  ultimately show ?thesis using assms(2) by (simp add: exec_handlers_def)
qed

lemma length_exec_handlers: "length (exec_handlers s) = 65"
proof -
  have "length (foldl (\<lambda>hs i. if i < 64 then hs[i := Ignore] else hs) hs is) = length hs" for hs "is"
    by (induction "is" arbitrary: hs) auto
  then show ?thesis by (simp add: exec_handlers_def)
qed

lemma execed_handler:
  assumes "signals_ok (signals p)"
  shows "get_handler (signals (execed own p)) n =
     (if 0 < n \<and> n < 64 \<and> get_handler (signals p) n = Ignore then Ignore else Default)"
proof (cases "n = 0 \<or> 65 \<le> n")
  case False
  then show ?thesis using exec_handlers_nth [OF assms, of n] length_exec_handlers [of "signals p"]
    by (simp add: execed_def get_handler_def from_parts_with_pending_def)
qed (auto simp: get_handler_def)

text \<open>An ignored signal 64 is not ignored after exec.\<close>

lemma exec_forgets_ignored_64:
  "signals_ok (signals p) \<Longrightarrow> get_handler (signals (execed own p)) 64 = Default"
  by (simp add: execed_handler)

subsection \<open>A fresh process\<close>

datatype stdio_kind = HostPipe | HostTerminal

fun stdio_file_type :: "stdio_kind \<Rightarrow> file_type" where
  "stdio_file_type HostPipe = Pipe" | "stdio_file_type HostTerminal = CharDevice"

text \<open>The paths of the three standard streams, and the descriptions they are opened with.\<close>

definition stdio_path :: "nat \<Rightarrow> u8 list" where
  "stdio_path i =
     [0x2F, 0x64, 0x65, 0x76, 0x2F, 0x73, 0x74, 0x64] @
     (if i = 0 then [0x69, 0x6E] else if i = 1 then [0x6F, 0x75, 0x74] else [0x65, 0x72, 0x72])"

definition stdio_ofds :: "nat \<Rightarrow> (nat \<Rightarrow> stdio_kind) \<Rightarrow> (nat \<times> ofd_table) option" where
  "stdio_ofds last_id kinds =
     foldl (\<lambda>acc i. case acc of
              None \<Rightarrow> None
            | Some (l, t) \<Rightarrow>
                (case ofd_create l t (stdio_file_type (kinds i)) (if i = 0 then 0 else 1) (int i) (stdio_path i) of
                   None \<Rightarrow> None
                 | Some (l', t', _) \<Rightarrow> Some (l', t')))
       (Some (last_id, [])) [0, 1, 2]"

definition new_with_stdio :: "nat \<Rightarrow> (nat \<Rightarrow> stdio_kind) \<Rightarrow> nat \<Rightarrow> (nat \<times> process_image) option" where
  "new_with_stdio p kinds last_id =
     map_option (\<lambda>(l, ofdt). (l,
       \<lparr> pid = p, uid = 0, pstate = Running, exit_status = 0, exit_signal = 0, wait_event = None,
         signals = signal_state_new, main_thread_signals = per_thread_signal_state_new, proc_saved_mask = None,
         threads = [], next_tid = 0, posix_timers = [], alt_stack_sp = 0, alt_stack_flags = 2,
         alt_stack_size = 0, alt_stack_depth = 0, wakes = [],
         ppid = 0, gid = 0, euid = 0, egid = 0, pgid = p, sid = 0, is_session_leader = False,
         fds = fd_preopen_stdio fd_new, ofds = ofdt, sockets = [], cwd = [0x2F], memory = memory_new,
         terminal = terminal_new, environ = [], argv = [], umask = 18, nice = 0,
         rlimits = (replicate 16 (U64_MAX, U64_MAX))[7 := (1024, 4096), 3 := (8 * 1024 * 1024, U64_MAX)],
         alarm_deadline_ns = 0, alarm_interval_ns = 0, thread_name = replicate 16 0, fork_child = False,
         fork_exec_path = None, fork_exec_argv = None, fork_fd_actions = [], next_ephemeral_port = 49152,
         fork_pipe_replay = [], has_exec = False, fork_count = 0 \<rparr>))
       (stdio_ofds last_id kinds)"

text \<open>Two processes to evaluate the properties on: a fresh one, and one that made descriptor 2
  close-on-fork and close-on-exec and ignores signals 2 and 64.\<close>

definition demo_process :: process_image where
  "demo_process = snd (the (new_with_stdio 7 (\<lambda>_. HostPipe) 0))"

definition demo_marked :: process_image where
  "demo_marked = demo_process\<lparr>
     fds := \<lparr> fd_entries = [Some \<lparr> ofd_ref = 0, fd_flags = 0 \<rparr>, Some \<lparr> ofd_ref = 0, fd_flags = 0 \<rparr>,
                Some \<lparr> ofd_ref = 2, fd_flags = 3 \<rparr>], fd_reserved = {}, max_fds = 1024 \<rparr>,
     signals := signal_state_new\<lparr> actions := (replicate 65 signal_action_default)
       [2 := signal_action_default\<lparr> handler := Ignore \<rparr>, 64 := signal_action_default\<lparr> handler := Ignore \<rparr>] \<rparr> \<rparr>"

lemma demo_stdio: "stdio_ofds 0 (\<lambda>_. HostPipe) =
    Some (3, [Some (fresh_ofd 1 None Pipe 0 0 0 (stdio_path 0)), Some (fresh_ofd 2 None Pipe 1 1 0 (stdio_path 1)),
              Some (fresh_ofd 3 None Pipe 1 2 0 (stdio_path 2))])"
  by (simp add: stdio_ofds_def ofd_create_def allocate_ofd_id_def checked_add_to_def U64_MAX_def ofd_insert_def
      slot_insert_def first_none_def upt_rec) (simp add: eval_nat_numeral)

lemma demo_ofds: "ofds demo_process = [Some (fresh_ofd 1 None Pipe 0 0 0 (stdio_path 0)),
    Some (fresh_ofd 2 None Pipe 1 1 0 (stdio_path 1)), Some (fresh_ofd 3 None Pipe 1 2 0 (stdio_path 2))]"
  by (simp add: demo_process_def new_with_stdio_def demo_stdio)

lemma demo_fields:
  "pid demo_process = 7" "ppid demo_process = 0" "uid demo_process = 0" "gid demo_process = 0" "euid demo_process = 0"
  "egid demo_process = 0" "pgid demo_process = 7" "sid demo_process = 0" "umask demo_process = 18" "nice demo_process = 0"
  "environ demo_process = []" "argv demo_process = []" "cwd demo_process = [0x2F]" "sockets demo_process = []"
  "rlimits demo_process = (replicate 16 (U64_MAX, U64_MAX))[7 := (1024, 4096), 3 := (8 * 1024 * 1024, U64_MAX)]"
  "terminal demo_process = terminal_new" "memory demo_process = memory_new" "fork_exec_path demo_process = None"
  "fork_exec_argv demo_process = None" "fork_fd_actions demo_process = []"
  "main_thread_signals demo_process = per_thread_signal_state_new"
  by (simp_all add: demo_process_def new_with_stdio_def demo_stdio)

lemma demo_kept: "flag = FD_CLOFORK \<or> flag = FD_CLOEXEC \<Longrightarrow>
   kept_fds flag (fds demo_marked) = [(0, \<lparr> ofd_ref = 0, fd_flags = 0 \<rparr>), (1, \<lparr> ofd_ref = 0, fd_flags = 0 \<rparr>)]"
  by (auto simp: kept_fds_def fd_iter_def demo_marked_def List.map_filter_def FD_CLOFORK_def FD_CLOEXEC_def)

lemma demo_files: "flag = FD_CLOFORK \<or> flag = FD_CLOEXEC \<Longrightarrow> files_ok flag (fds demo_marked) (ofds demo_marked)"
proof -
  assume f: "flag = FD_CLOFORK \<or> flag = FD_CLOEXEC"
  have "kept_ofds (count_refs (kept_fds flag (fds demo_marked))) (ofds demo_marked) =
      [(0, fresh_ofd 1 None Pipe 0 0 0 (stdio_path 0))]"
    unfolding demo_kept [OF f]
    by (simp add: kept_ofds_def count_refs_def btree_insert_def binary_search_key_def partition_point_def insert_at_def
        ofd_iter_def demo_marked_def demo_ofds List.map_filter_def upt_rec)
  then show ?thesis using demo_kept [OF f]
    by (simp add: files_ok_def demo_marked_def fd_entry_ok_def ofd_ok_def fresh_ofd_def is_i64_def stdio_path_def
        MAX_PATH_LEN_def)
qed

lemma demo_signals: "signals_ok (signals demo_marked)"
  by (simp add: signals_ok_def demo_marked_def signal_state_new_def action_ok_def list_all_length nth_list_update
      signal_action_default_def)

lemma demo_common: "flag = FD_CLOFORK \<or> flag = FD_CLOEXEC \<Longrightarrow> common_ok flag demo_marked"
  using demo_files demo_signals
  by (simp add: common_ok_def demo_marked_def demo_fields is_i32_def strings_ok_def MAX_PATH_LEN_def
      terminal_new_def NCCS_def U64_MAX_def list_all_length nth_list_update)

lemma demo_fork_ok: "fork_ok demo_marked"
  using demo_common
  by (simp add: fork_ok_def demo_marked_def demo_fields memory_ok_def memory_new_def INITIAL_BRK_def MMAP_BASE_def
      DEFAULT_MAX_ADDR_def sockets_ok_def)

lemma demo_exec_ok: "exec_ok demo_marked"
  using demo_common
  by (simp add: exec_ok_def demo_marked_def demo_fields directed_ok_def per_thread_signal_state_new_def)

text \<open>C13. A process whose fields fit the format has one fork image.  Serialization writes it into any buffer
  that has room and reports \<open>ENOMEM\<close> otherwise; the growing buffer returns it exactly when it has at most
  4 MiB; and reading it for a child returns the child, with one reference taken on every graphics buffer
  of an inherited description and the identities of the inherited descriptions recorded as used.\<close>

theorem fork_image_roundtrip:
  assumes "fork_ok p"
  shows "\<exists>img.
    (\<forall>buf. if length img \<le> length buf
       then serialize_fork_state p buf = (img @ drop (length img) buf, Ok (length img))
       else \<exists>buf'. serialize_fork_state p buf = (buf', Err ENOMEM)) \<and>
    serialize_fork_state_with_growing_buffer p =
      Some (if length img \<le> MAX_STATE_BUFFER_LEN then Ok img else Err ENOMEM) \<and>
    (\<forall>child sh. deserialize_fork_state img child sh =
      (fold apply_effect (inherit_effects FD_CLOFORK False child (fds p) (ofds p)) sh, Ok (forked child p)))"
  using fork_image [OF assms] by metis

theorem fork_image_roundtrip_witness:
  "\<exists>img. serialize_fork_state_with_growing_buffer demo_marked =
      Some (if length img \<le> MAX_STATE_BUFFER_LEN then Ok img else Err ENOMEM) \<and>
    (\<forall>sh. snd (deserialize_fork_state img 8 sh) = Ok (forked 8 demo_marked))"
proof -
  obtain img where img: "serialize_fork_state_with_growing_buffer demo_marked =
      Some (if length img \<le> MAX_STATE_BUFFER_LEN then Ok img else Err ENOMEM)"
    and d: "\<forall>child sh. deserialize_fork_state img child sh =
      (fold apply_effect (inherit_effects FD_CLOFORK False child (fds demo_marked) (ofds demo_marked)) sh,
       Ok (forked child demo_marked))"
    using fork_image_roundtrip [OF demo_fork_ok] by blast
  have "snd (deserialize_fork_state img 8 sh) = Ok (forked 8 demo_marked)" for sh using d by simp
  then show ?thesis using img by blast
qed

text \<open>The facts about the new process that fork and exec share.\<close>

lemma inherited_descriptors:
  assumes ok: "files_ok flag t os" "length (fd_entries t) \<le> 65536"
    and c: "t' = inherit_fds flag t" "os' = inherit_ofds flag pm owner t os"
  shows "fd_lookup t' i =
      (case fd_lookup t i of Some e \<Rightarrow> if fd_flags e AND flag = 0 then Some e else None | None \<Rightarrow> None)"
    and "ofd_get os' j = None \<longleftrightarrow> fd_refs t' j = 0 \<or> ofd_get os j = None"
    and "ofd_get os' j = Some f \<Longrightarrow> unat (ref_count f) = fd_refs t' j \<and>
      (\<exists>g. ofd_get os j = Some g \<and> ofd_id f = ofd_id g \<and> ofd_file_id f = ofd_file_id g \<and> file_type f = file_type g \<and>
         status_flags f = status_flags g \<and> host_handle f = host_handle g \<and> ofd_offset f = ofd_offset g \<and>
         ofd_path f = ofd_path g)"
proof -
  note files = inherited_files [OF ok]
  show "fd_lookup t' i =
      (case fd_lookup t i of Some e \<Rightarrow> if fd_flags e AND flag = 0 then Some e else None | None \<Rightarrow> None)"
    unfolding c(1) by (rule files(1))
  show "ofd_get os' j = None \<longleftrightarrow> fd_refs t' j = 0 \<or> ofd_get os j = None"
    unfolding c ofd_get_def files(2) by auto
  assume "ofd_get os' j = Some f"
  then obtain g where "fd_refs t' j \<noteq> 0" "slot os j = Some g" "f = inherit_ofd pm owner (of_nat (fd_refs t' j)) g"
    unfolding c ofd_get_def files(2) by (auto split: if_splits)
  moreover have "unat (of_nat (fd_refs t' j) :: u32) = fd_refs t' j"
    using files(3) [of j] unfolding c(1) by (simp add: unsigned_of_nat take_bit_nat_eq_self)
  ultimately show "unat (ref_count f) = fd_refs t' j \<and>
      (\<exists>g. ofd_get os j = Some g \<and> ofd_id f = ofd_id g \<and> ofd_file_id f = ofd_file_id g \<and> file_type f = file_type g \<and>
         status_flags f = status_flags g \<and> host_handle f = host_handle g \<and> ofd_offset f = ofd_offset g \<and>
         ofd_path f = ofd_path g)"
    by (auto simp: inherit_ofd_def ofd_get_def)
qed

text \<open>C12. What a forked child inherits, read off its image: the open descriptors that are not close-on-fork,
  at the same numbers; exactly the descriptions those refer to, with the identity, handle, flags and
  offset of the parent's and a reference count that counts them; every socket at its index, without the
  state that may be consumed only once; the signal dispositions and the mask, with nothing pending; and
  the parent's mappings and program break.\<close>

theorem fork_child_state:
  assumes "fork_ok p" "length (fd_entries (fds p)) \<le> 65536"
    and "sorted (map mr_addr (mappings (memory p)))" "0 < program_break (memory p)"
      "initial_brk (memory p) \<le> program_break (memory p)" "program_break (memory p) \<le> max_addr (memory p)"
      "program_break (memory p) \<le> brk_limit (memory p)"
  shows "\<exists>img c. serialize_fork_state_with_growing_buffer p =
      Some (if length img \<le> MAX_STATE_BUFFER_LEN then Ok img else Err ENOMEM) \<and>
    snd (deserialize_fork_state img child sh) = Ok c \<and> pid c = child \<and> ppid c = pid p \<and>
    (\<forall>i. fd_lookup (fds c) i =
       (case fd_lookup (fds p) i of Some e \<Rightarrow> if fd_flags e AND FD_CLOFORK = 0 then Some e else None | None \<Rightarrow> None)) \<and>
    (\<forall>j. ofd_get (ofds c) j = None \<longleftrightarrow> fd_refs (fds c) j = 0 \<or> ofd_get (ofds p) j = None) \<and>
    (\<forall>j f. ofd_get (ofds c) j = Some f \<longrightarrow> unat (ref_count f) = fd_refs (fds c) j \<and>
       (\<exists>g. ofd_get (ofds p) j = Some g \<and> ofd_id f = ofd_id g \<and> ofd_file_id f = ofd_file_id g \<and>
          file_type f = file_type g \<and> status_flags f = status_flags g \<and> host_handle f = host_handle g \<and>
          ofd_offset f = ofd_offset g \<and> ofd_path f = ofd_path g)) \<and>
    (\<forall>i. sock_get (sockets c) i = map_option socket_fork (sock_get (sockets p) i)) \<and>
    actions (signals c) = actions (signals p) \<and> blocked (signals c) = blocked (signals p) \<and>
    pending (signals c) = 0 \<and> rt_queue (signals c) = [] \<and>
    mappings (memory c) = mappings (memory p) \<and> program_break (memory c) = program_break (memory p)"
proof -
  obtain img where g: "serialize_fork_state_with_growing_buffer p =
       Some (if length img \<le> MAX_STATE_BUFFER_LEN then Ok img else Err ENOMEM)"
    and d: "\<And>child sh. deserialize_fork_state img child sh =
       (fold apply_effect (inherit_effects FD_CLOFORK False child (fds p) (ofds p)) sh, Ok (forked child p))"
    using fork_image [OF assms(1)] by metis
  have r: "snd (deserialize_fork_state img child sh) = Ok (forked child p)" using d by simp
  have f: "files_ok FD_CLOFORK (fds p) (ofds p)" and b: "program_break (memory p) < 2 ^ 32"
    using assms(1) by (simp_all add: fork_ok_def common_ok_def memory_ok_def)
  have c: "fds (forked child p) = inherit_fds FD_CLOFORK (fds p)"
    "ofds (forked child p) = inherit_ofds FD_CLOFORK False child (fds p) (ofds p)"
    by (simp_all add: forked_def)
  note files = inherited_descriptors [OF f assms(2) c]
  have m: "memory (forked child p) = (memory p)\<lparr> reserved_regions := [], data_limit := U64_MAX \<rparr>"
    using inherited_memory [OF assms(3-7) b] by (simp add: forked_def)
  show ?thesis
  proof (intro exI [of _ img] exI [of _ "forked child p"] conjI allI impI)
    show "serialize_fork_state_with_growing_buffer p =
        Some (if length img \<le> MAX_STATE_BUFFER_LEN then Ok img else Err ENOMEM)" by (rule g)
    show "sock_get (sockets (forked child p)) i = map_option socket_fork (sock_get (sockets p) i)" for i
      by (simp add: forked_def fork_sockets_lookup)
  qed (use r files m in \<open>simp_all add: forked_def from_actions_def\<close>)
qed

theorem fork_child_state_witness:
  "\<exists>img c. snd (deserialize_fork_state img 8 \<lparr> bo_refs = Map.empty, last_ofd_id = 3 \<rparr>) = Ok c \<and>
     fd_lookup (fds c) 1 = Some \<lparr> ofd_ref = 0, fd_flags = 0 \<rparr> \<and> fd_lookup (fds c) 2 = None \<and>
     program_break (memory c) = INITIAL_BRK"
proof -
  have small: "length (fd_entries (fds demo_marked)) \<le> 65536" by (simp add: demo_marked_def)
  have m: "memory demo_marked = memory_new" by (simp add: demo_marked_def demo_fields)
  have mem: "sorted (map mr_addr (mappings (memory demo_marked)))" "0 < program_break (memory demo_marked)"
    "initial_brk (memory demo_marked) \<le> program_break (memory demo_marked)"
    "program_break (memory demo_marked) \<le> max_addr (memory demo_marked)"
    "program_break (memory demo_marked) \<le> brk_limit (memory demo_marked)"
    unfolding m by (simp_all add: memory_new_def INITIAL_BRK_def DEFAULT_MAX_ADDR_def)
  have "fd_lookup (fds demo_marked) 1 = Some \<lparr> ofd_ref = 0, fd_flags = 0 \<rparr>"
    "fd_lookup (fds demo_marked) 2 = Some \<lparr> ofd_ref = 2, fd_flags = 3 \<rparr>"
    "program_break (memory demo_marked) = INITIAL_BRK"
    unfolding m by (simp_all add: demo_marked_def fd_lookup_def slot_def memory_new_def)
  note demo = this
  obtain img c where r: "snd (deserialize_fork_state img 8 \<lparr> bo_refs = Map.empty, last_ofd_id = 3 \<rparr>) = Ok c"
    and f: "\<forall>i. fd_lookup (fds c) i = (case fd_lookup (fds demo_marked) i of
      Some e \<Rightarrow> if fd_flags e AND FD_CLOFORK = 0 then Some e else None | None \<Rightarrow> None)"
    and b: "program_break (memory c) = program_break (memory demo_marked)"
    using fork_child_state [OF demo_fork_ok small mem, of 8 "\<lparr> bo_refs = Map.empty, last_ofd_id = 3 \<rparr>"]
    by (elim exE conjE) (rule that; assumption)
  have "fd_lookup (fds c) 1 = Some \<lparr> ofd_ref = 0, fd_flags = 0 \<rparr>" "fd_lookup (fds c) 2 = None"
    by (simp_all add: f demo [unfolded One_nat_def] FD_CLOFORK_def)
  then show ?thesis using r b demo(3) by metis
qed

text \<open>C14. What an exec keeps, read off its image: the open descriptors that are not close-on-exec, at the same
  numbers, and exactly the descriptions those refer to, with reference counts that count them.  An ignored
  signal below 64 stays ignored and every other disposition is reset; mask and pending set are kept; of the
  signals directed to the main thread those that announce a timer are dropped; the address space is
  new.\<close>

theorem exec_image_state:
  assumes "exec_ok p" "length (fd_entries (fds p)) \<le> 65536"
  shows "\<exists>img c. serialize_exec_state_with_growing_buffer p =
      Some (if length img \<le> MAX_STATE_BUFFER_LEN then Ok img else Err ENOMEM) \<and>
    snd (deserialize_exec_state img own sh) = Ok c \<and> pid c = own \<and> ppid c = ppid p \<and>
    (\<forall>i. fd_lookup (fds c) i =
       (case fd_lookup (fds p) i of Some e \<Rightarrow> if fd_flags e AND FD_CLOEXEC = 0 then Some e else None | None \<Rightarrow> None)) \<and>
    (\<forall>j. ofd_get (ofds c) j = None \<longleftrightarrow> fd_refs (fds c) j = 0 \<or> ofd_get (ofds p) j = None) \<and>
    (\<forall>j f. ofd_get (ofds c) j = Some f \<longrightarrow> unat (ref_count f) = fd_refs (fds c) j \<and>
       (\<exists>g. ofd_get (ofds p) j = Some g \<and> ofd_id f = ofd_id g \<and> ofd_file_id f = ofd_file_id g \<and>
          file_type f = file_type g \<and> status_flags f = status_flags g \<and> host_handle f = host_handle g \<and>
          ofd_offset f = ofd_offset g \<and> ofd_path f = ofd_path g)) \<and>
    (\<forall>n. get_handler (signals c) n =
       (if 0 < n \<and> n < 64 \<and> get_handler (signals p) n = Ignore then Ignore else Default)) \<and>
    blocked (signals c) = blocked (signals p) \<and> pending (signals c) = pending (signals p) \<and>
    rt_queue (main_thread_signals c) = filter (\<lambda>e. timer_id e = None) (rt_queue (main_thread_signals p)) \<and>
    memory c = memory_new"
proof -
  obtain img where g: "serialize_exec_state_with_growing_buffer p =
       Some (if length img \<le> MAX_STATE_BUFFER_LEN then Ok img else Err ENOMEM)"
    and d: "\<And>own sh. deserialize_exec_state img own sh =
       (fold apply_effect (inherit_effects FD_CLOEXEC True own (fds p) (ofds p)) sh, Ok (execed own p))"
    using exec_image [OF assms(1)] by metis
  have r: "snd (deserialize_exec_state img own sh) = Ok (execed own p)" using d by simp
  have f: "files_ok FD_CLOEXEC (fds p) (ofds p)" and s: "signals_ok (signals p)"
    using assms(1) by (simp_all add: exec_ok_def common_ok_def)
  have c: "fds (execed own p) = inherit_fds FD_CLOEXEC (fds p)"
    "ofds (execed own p) = inherit_ofds FD_CLOEXEC True own (fds p) (ofds p)"
    by (simp_all add: execed_def)
  note files = inherited_descriptors [OF f assms(2) c]
  show ?thesis
  proof (intro exI [of _ img] exI [of _ "execed own p"] conjI allI impI)
    show "serialize_exec_state_with_growing_buffer p =
        Some (if length img \<le> MAX_STATE_BUFFER_LEN then Ok img else Err ENOMEM)" by (rule g)
    show "get_handler (signals (execed own p)) n =
        (if 0 < n \<and> n < 64 \<and> get_handler (signals p) n = Ignore then Ignore else Default)" for n
      by (rule execed_handler [OF s])
    show "rt_queue (main_thread_signals (execed own p)) =
        filter (\<lambda>e. timer_id e = None) (rt_queue (main_thread_signals p))"
      by (simp add: execed_def discard_legacy_exec_timer_notifications_def Let_def)
  qed (use r files in \<open>simp_all add: execed_def from_parts_with_pending_def\<close>)
qed

theorem exec_image_state_witness:
  "\<exists>img c. snd (deserialize_exec_state img 7 \<lparr> bo_refs = Map.empty, last_ofd_id = 3 \<rparr>) = Ok c \<and>
     fd_lookup (fds c) 1 = Some \<lparr> ofd_ref = 0, fd_flags = 0 \<rparr> \<and> fd_lookup (fds c) 2 = None \<and>
     get_handler (signals c) 2 = Ignore \<and> get_handler (signals c) 64 = Default"
proof -
  have small: "length (fd_entries (fds demo_marked)) \<le> 65536" by (simp add: demo_marked_def)
  have "fd_lookup (fds demo_marked) 1 = Some \<lparr> ofd_ref = 0, fd_flags = 0 \<rparr>"
    "fd_lookup (fds demo_marked) 2 = Some \<lparr> ofd_ref = 2, fd_flags = 3 \<rparr>"
    "get_handler (signals demo_marked) 2 = Ignore"
    by (simp_all add: demo_marked_def fd_lookup_def slot_def get_handler_def nth_list_update)
  note demo = this
  obtain img c where r: "snd (deserialize_exec_state img 7 \<lparr> bo_refs = Map.empty, last_ofd_id = 3 \<rparr>) = Ok c"
    and f: "\<forall>i. fd_lookup (fds c) i = (case fd_lookup (fds demo_marked) i of
      Some e \<Rightarrow> if fd_flags e AND FD_CLOEXEC = 0 then Some e else None | None \<Rightarrow> None)"
    and h: "\<forall>n. get_handler (signals c) n =
       (if 0 < n \<and> n < 64 \<and> get_handler (signals demo_marked) n = Ignore then Ignore else Default)"
    using exec_image_state [OF demo_exec_ok small, of 7 "\<lparr> bo_refs = Map.empty, last_ofd_id = 3 \<rparr>"]
    by (elim exE conjE) (rule that; assumption)
  have "fd_lookup (fds c) 1 = Some \<lparr> ofd_ref = 0, fd_flags = 0 \<rparr>" "fd_lookup (fds c) 2 = None"
    "get_handler (signals c) 2 = Ignore" "get_handler (signals c) 64 = Default"
    by (simp_all add: f h demo [unfolded One_nat_def] FD_CLOEXEC_def)
  then show ?thesis using r by metis
qed

end
