(* ===== verification/Spec2Isabelle.thy ===== *)
theory Spec2Isabelle
  imports Fd_Table Lock_Refinement Ofd_Table Memory_Safety Signal_Delivery Pipe_Table Mqueue Sysv_Ipc Pshared Path Pty Process_Image
begin

text \<open>
  Verification of the Kandelo kernel, a POSIX multi-process kernel for WebAssembly.  The kernel is a
  Rust crate (\<^verbatim>\<open>src/crates/kernel\<close>) compiled to wasm32; a TypeScript host (\<^verbatim>\<open>src/host\<close>) runs one worker per
  process, hands system calls to the kernel, and makes a blocked call again when the kernel's
  wakeup buffer says that it may succeed.  The kernel is therefore a set of state machines over
  shared tables, each entered by one call at a time, and this is what the development models: every
  table is a record, every operation a function from the old table to the new table and a result, and
  concurrency is the order of the calls.

  \<^bold>\<open>Conventions.\<close>  The build is a release build for wasm32: \<open>usize\<close> has 32 bits and is read as a natural number
  with the source's checked, saturating or wrapping arithmetic written out; flags, masks and
  counters that wrap are words of their width; \<open>i32\<close> and \<open>i64\<close> are integers.  A fallible operation returns
  \<open>errno + 'a\<close>, read as \<open>Ok\<close> and \<open>Err\<close> (theory \<open>Errno\<close>, \<^verbatim>\<open>src/crates/shared/src/lib.rs\<close>).  A panic or abort
  is the value \<open>None\<close>.  What comes from outside the sources is an argument: the allocator of the lock
  manager, the success of \<^verbatim>\<open>try_reserve\<close>, the clock.

  \<^bold>\<open>The shared library.\<close>
  \<^item> \<open>Kandelo_Prelude\<close>: machine integers, sparse slot vectors, insertion and removal by index, binary
    search by key, little-endian bytes.  \<open>Sorted_Vector\<close>: a vector of pairs sorted by key is a finite map.
  \<^item> \<open>Kernel_Interfaces\<close>: three contracts as locales.  \<open>slot_store\<close> (a table that hands out unused indices) is
    provided by open file descriptions, pipes and sockets; \<open>ref_counter\<close> (the last release is reported exactly once)
    by descriptions, host handles and descriptors in flight; \<open>fifo_queue\<close> (nothing lost, repeated or
    reordered) by the pipe ring and the wakeup buffer.
  \<^item> \<open>Wire_Format\<close>: the \<open>Writer\<close> and \<open>Reader\<close> of \<^verbatim>\<open>fork.rs\<close> and the locale \<open>wire_format\<close> (what the writer appends the reader
    takes back), provided by nine element formats of the process image.

  \<^bold>\<open>Files.\<close>
  \<^item> \<open>Fd_Table\<close> (\<^verbatim>\<open>fd.rs\<close>): descriptors with reserved slots; allocation is lowest-free, and a reserved
    descriptor survives every other operation.
  \<^item> \<open>Ofd_Table\<close> (\<^verbatim>\<open>ofd.rs\<close>): descriptions, fresh identities, reference counts, in-flight and host-handle counts; a
    description is freed once, its slot is then empty, and a description with references left is untouched.
  \<^item> \<open>Lock_Range\<close>, \<open>Advisory_Lock\<close>, \<open>Lock_Scan\<close>, \<open>Lock_Refinement\<close> (\<^verbatim>\<open>lock.rs\<close>): the advisory lock manager.  The
    sorted record vector refines a map from file, owner and byte to the lock held; \<open>set_lock\<close> is the
    pointwise update of that map, keeps the invariant, fails exactly on a conflict or on lack of
    room, and announces every release that can unblock a waiter.
  \<^item> \<open>Path\<close> (\<^verbatim>\<open>path.rs\<close>): normalization against the walk the path describes.

  \<^bold>\<open>Processes.\<close>
  \<^item> \<open>Memory_Manager\<close>, \<open>Memory_Safety\<close> (\<^verbatim>\<open>memory.rs\<close>, \<^verbatim>\<open>sys_mremap\<close>): the address space.  Mappings and host regions stay
    pairwise disjoint and inside the address space under all operations; mmap is first fit, munmap
    exact, brk granted exactly within its limits.
  \<^item> \<open>Signal_State\<close> (\<^verbatim>\<open>signal.rs\<close>), \<open>Process_Signals\<close> (\<^verbatim>\<open>process.rs\<close>, the delivery loops of \<^verbatim>\<open>signal.rs\<close> and \<^verbatim>\<open>wasm_api.rs\<close>, the
    signal calls of \<^verbatim>\<open>syscalls.rs\<close>), \<open>Signal_Delivery\<close>: raising, dequeuing, threads, POSIX timers, job control.  An
    invariant over pending bits, queues and timers holds in every state reachable by the step
    relation \<open>signal_step\<close>; the delivery loop does what the first signal with an effect says.
  \<^item> \<open>Socket_State\<close> (\<^verbatim>\<open>socket.rs\<close>), \<open>Fork_Files\<close>, \<open>Process_Image\<close> (\<^verbatim>\<open>fork.rs\<close>, \<^verbatim>\<open>process_table.rs\<close>): the image that carries a process
    across fork and exec, section by section; it round-trips, and the new process has exactly the
    descriptors, descriptions, counts, signals and memory that POSIX lets it inherit, with the
    exceptions recorded next to the theorems.

  \<^bold>\<open>Communication.\<close>
  \<^item> \<open>Wakeup\<close> (\<^verbatim>\<open>wakeup.rs\<close>): the event buffer and its encoding.
  \<^item> \<open>Pipe_Buffer\<close>, \<open>Pipe_Table\<close> (\<^verbatim>\<open>pipe.rs\<close>): the ring as a byte queue, the events that announce readiness, FIFO
    opens, the table with its free list, and the collector of SCM_RIGHTS messages nobody can
    receive, which drops exactly the unreachable queues.
  \<^item> \<open>Mqueue\<close> (\<^verbatim>\<open>mqueue.rs\<close>): one FIFO per priority within the queue's limits.
  \<^item> \<open>Sysv_Ipc\<close> (\<^verbatim>\<open>ipc.rs\<close>): message queues, semaphores, shared memory; well-typed tables, all-or-nothing
    semop, chunk round trips.
  \<^item> \<open>Pshared\<close> (\<^verbatim>\<open>pshared.rs\<close>): mutual exclusion under every interleaving and the barrier round with retries.
  \<^item> \<open>Terminal\<close>, \<open>Pty\<close> (\<^verbatim>\<open>terminal.rs\<close>, \<^verbatim>\<open>pty.rs\<close>): byte-at-a-time line editing equals editing line by line; both
    directions of a pseudo-terminal are ordered streams in every mode, cut only by a flushing
    signal character.

  \<^bold>\<open>How the parts meet.\<close>  A descriptor (\<open>Fd_Table\<close>) names a description (\<open>Ofd_Table\<close>), which names a pipe, socket or terminal by
    its handle.  \<open>Process_Image\<close> combines the descriptor table, the descriptions, the signal state, the
    address space, the terminal and the sockets in one process record and is where the component
    theories are used together; \<open>Pipe_Buffer\<close> and \<open>Process_Signals\<close> push the events of \<open>Wakeup\<close>.

  \<^bold>\<open>Loops.\<close>  No definition uses fuel.  The coalescing loop of \<open>set_lock\<close>, the capacity doubling of its
  vector, the marking loop of the collector and the two signal delivery loops are total
  functions with a decreasing measure (records that stick out of the merged range, distance to the record
  limit, unmarked pipes and work left, pending signals).  The growing buffer of fork and exec would double an
  empty buffer for ever, so it is a \<open>partial_function\<close> into \<open>option\<close>; from the 64 KiB it starts with it
  returns (\<open>grow_buffer_returns\<close>), and the image theorems state the value it returns.

  \<^bold>\<open>Deviations found\<close> are stated as lemmas where they show, for instance \<open>map_fixed_forgets_neighbours\<close>,
  \<open>mremap_huge_unmaps\<close>, \<open>barrier_counts_released\<close>, \<open>cond_wait_bad_cond_unlocks\<close>, \<open>semop_repeated_wraps\<close>,
  \<open>mq_recreate_aliases\<close>, \<open>exec_forgets_ignored_64\<close>, \<open>dequeue_standard_siginfo\<close>.

  \<^bold>\<open>Not modelled.\<close>  The system call handlers that only check arguments around a host import (file I/O,
  networking, clocks) and the wasm entry points that marshal guest pointers; the process table
  beyond the growing buffer, which holds raw pointers to live processes; the INET and AF_UNIX paths of
  sockets; procfs and devfs text; spawn attributes; descriptor backing; graphics, mouse and audio
  devices; the build-time wasm instrumentation, the host runtime and the build tooling.  Directory
  streams, epoll instances and graphics bindings of a process, which every image resets to empty,
  are not fields of the process record, and the collector is the one of the production build.
\<close>

end
